(* ===== verification/Prelude.thy ===== *)
theory Prelude
  imports Main "HOL-Library.Word" "HOL-Library.Monad_Syntax"
begin

text \<open>
  Shared vocabulary of the development.

  \<^item> The firmware is compiled for a big-endian 32-bit MIPS board
    (\<^verbatim>\<open>boards/wrgg19/config.arch\<close>: \<^verbatim>\<open>CPU_BIG_ENDIAN=1\<close>), so \<open>u8\<close>, \<open>u16\<close> and
    \<open>u32\<close> name its machine words, \<open>be16\<close> and \<open>be32\<close> are the bytes a word has in
    memory, and \<^verbatim>\<open>htonl\<close>, \<^verbatim>\<open>htons\<close> and their inverses are the identity.
  \<^item> A C operation that can read or write outside an object, or dereference a null
    pointer, returns an \<open>option\<close>: \<open>None\<close> is the undefined behaviour. The functions
    \<open>rd\<close>, \<open>rdn\<close>, \<open>wr\<close> and \<open>wrn\<close> are the checked accesses to a byte array.
  \<^item> The collection \<open>mem_simps\<close> holds the rewriting facts on those accesses.
\<close>

type_synonym u8 = "8 word"
type_synonym u16 = "16 word"
type_synonym u32 = "32 word"

named_theorems mem_simps \<open>rewriting of checked byte accesses\<close>

section \<open>Bytes of a word on the big-endian target\<close>

definition be16 :: "u16 \<Rightarrow> u8 list" where
  "be16 x = [ucast (drop_bit 8 x), ucast x]"

definition be32 :: "u32 \<Rightarrow> u8 list" where
  "be32 x = [ucast (drop_bit 24 x), ucast (drop_bit 16 x), ucast (drop_bit 8 x), ucast x]"

fun un_be16 :: "u8 list \<Rightarrow> u16" where
  "un_be16 [a, b] = word_of_nat (unat a * 256 + unat b)"
| "un_be16 _ = 0"

fun un_be32 :: "u8 list \<Rightarrow> u32" where
  "un_be32 [a, b, c, d] =
     word_of_nat (((unat a * 256 + unat b) * 256 + unat c) * 256 + unat d)"
| "un_be32 _ = 0"

definition htonl :: "u32 \<Rightarrow> u32" where "htonl x = x"
definition ntohl :: "u32 \<Rightarrow> u32" where "ntohl x = x"
definition htons :: "u16 \<Rightarrow> u16" where "htons x = x"
definition ntohs :: "u16 \<Rightarrow> u16" where "ntohs x = x"

section \<open>Checked accesses to a byte array\<close>

definition rd :: "'a list \<Rightarrow> nat \<Rightarrow> 'a option" where
  "rd xs i = (if i < length xs then Some (xs ! i) else None)"

definition rdn :: "'a list \<Rightarrow> nat \<Rightarrow> nat \<Rightarrow> 'a list option" where
  "rdn xs i n = (if i + n \<le> length xs then Some (take n (drop i xs)) else None)"

definition wr :: "'a list \<Rightarrow> nat \<Rightarrow> 'a \<Rightarrow> 'a list option" where
  "wr xs i v = (if i < length xs then Some (xs[i := v]) else None)"

definition wrn :: "'a list \<Rightarrow> nat \<Rightarrow> 'a list \<Rightarrow> 'a list option" where
  "wrn xs i vs = (if i + length vs \<le> length xs
     then Some (take i xs @ vs @ drop (i + length vs) xs) else None)"

text \<open>C library string operations on byte arrays: the string a buffer holds, and
  \<^verbatim>\<open>strncpy\<close>, which copies at most \<open>n\<close> bytes and pads with zeros up to \<open>n\<close>.\<close>

definition cstr :: "u8 list \<Rightarrow> u8 list" where
  "cstr xs = takeWhile (\<lambda>b. b \<noteq> 0) xs"

definition strncpy :: "u8 list \<Rightarrow> u8 list \<Rightarrow> nat \<Rightarrow> u8 list option" where
  "strncpy dst src n = wrn dst 0 (take n (cstr src @ replicate n 0))"

text \<open>Signal numbers of Linux on MIPS.\<close>

definition SIGUSR1 :: int where "SIGUSR1 = 16"
definition SIGUSR2 :: int where "SIGUSR2 = 17"
definition SIGTERM :: int where "SIGTERM = 15"

section \<open>Facts\<close>

lemma length_be16 [simp]: "length (be16 x) = 2"
  by (simp add: be16_def)

lemma length_be32 [simp]: "length (be32 x) = 4"
  by (simp add: be32_def)

lemma unat_low_byte: "unat (ucast x :: u8) = unat x mod 256" for x :: "'a::len word"
  by (simp add: unsigned_ucast_eq take_bit_eq_mod)

lemma unat_byte_at: "unat (ucast (drop_bit k x) :: u8) = unat x div 2 ^ k mod 256"
  for x :: "'a::len word"
  by (simp only: unat_low_byte unat_drop_bit_eq) (simp add: drop_bit_eq_div)

lemma nat_bytes2: "n < 65536 \<Longrightarrow> n div 256 mod 256 * 256 + n mod 256 = n" for n :: nat
  using div_mult_mod_eq [of n 256] by (simp add: div_less_iff_less_mult)

lemma nat_bytes4:
  assumes "n < 4294967296"
  shows "((n div 16777216 mod 256 * 256 + n div 65536 mod 256) * 256
      + n div 256 mod 256) * 256 + n mod 256 = (n :: nat)"
proof -
  have d: "n div 65536 = n div 256 div 256" "n div 16777216 = n div 256 div 256 div 256"
    by (simp_all add: div_mult2_eq [symmetric])
  have "n div 16777216 mod 256 = n div 16777216"
    using assms by (simp add: div_less_iff_less_mult)
  then show ?thesis
    using div_mult_mod_eq [of n 256] div_mult_mod_eq [of "n div 256" 256]
      div_mult_mod_eq [of "n div 256 div 256" 256]
    by (simp add: d)
qed

lemma un_be16_be16 [simp]: "un_be16 (be16 x) = x"
proof -
  have "unat x < 65536" using unsigned_less [of x, where 'a = nat] by simp
  then have "un_be16 (be16 x) = word_of_nat (unat x)"
    unfolding be16_def un_be16.simps unat_byte_at
    by (subst unat_low_byte) (subst nat_bytes2 [symmetric], simp_all)
  then show ?thesis by simp
qed

lemma un_be32_be32 [simp]: "un_be32 (be32 x) = x"
proof -
  have "unat x < 4294967296" using unsigned_less [of x, where 'a = nat] by simp
  then have "un_be32 (be32 x) = word_of_nat (unat x)"
    unfolding be32_def un_be32.simps unat_byte_at
    by (subst unat_low_byte) (rule arg_cong [where f = word_of_nat], insert nat_bytes4, simp)
  then show ?thesis by simp
qed

lemma be32_inj: "be32 x = be32 y \<longleftrightarrow> x = y"
  by (metis un_be32_be32)

lemma rd_Some [mem_simps]: "i < length xs \<Longrightarrow> rd xs i = Some (xs ! i)"
  by (simp add: rd_def)

lemma rd_eq_Some: "rd xs i = Some v \<longleftrightarrow> i < length xs \<and> v = xs ! i"
  by (auto simp: rd_def)

lemma rdn_Some [mem_simps]: "i + n \<le> length xs \<Longrightarrow> rdn xs i n = Some (take n (drop i xs))"
  by (simp add: rdn_def)

lemma rdn_length: "rdn xs i n = Some ys \<Longrightarrow> length ys = n"
  by (auto simp: rdn_def split: if_splits)

lemma wr_Some [mem_simps]: "i < length xs \<Longrightarrow> wr xs i v = Some (xs[i := v])"
  by (simp add: wr_def)

lemma wr_length: "wr xs i v = Some ys \<Longrightarrow> length ys = length xs"
  by (auto simp: wr_def split: if_splits)

lemma wrn_length: "wrn xs i vs = Some ys \<Longrightarrow> length ys = length xs"
  by (auto simp: wrn_def split: if_splits)

lemma wrn_append [mem_simps]:
  "length vs = length ys \<Longrightarrow> wrn (xs @ ys @ zs) (length xs) vs = Some (xs @ vs @ zs)"
  by (simp add: wrn_def)

lemma strncpy_length: "strncpy dst src n = Some d \<Longrightarrow> length d = length dst"
  by (auto simp: strncpy_def dest: wrn_length)

lemma strncpy_Some:
  "n \<le> length dst \<Longrightarrow>
   strncpy dst src n = Some (take n (cstr src @ replicate n 0) @ drop n dst)"
  by (cases "n \<le> length (cstr src)") (simp_all add: strncpy_def wrn_def min_def)

end
