(* ===== verification/Dlist_Heap.thy ===== *)
theory Dlist_Heap
  imports Prelude
begin

text \<open>
  The circular doubly linked lists of \<^verbatim>\<open>include/dlist.h\<close>, as the macros and inline
  functions manipulate them: a heap of \<^verbatim>\<open>next\<close> and \<^verbatim>\<open>prev\<close> fields over an arbitrary type
  of node addresses, pointers that may be null, and \<open>None\<close> for a null dereference.
  \<open>rings h R\<close> says that the heap holds the pairwise disjoint rings that the map \<open>R\<close>
  lists, head by head. The locale \<open>dlist_store\<close> is the contract the users of the lists
  rely on, stated on such a map; it is interpreted on the heap operations.
\<close>

section \<open>Definitions\<close>

type_synonym 'a ptr = "'a option"

record 'a dlheap =
  nxt :: "'a \<Rightarrow> 'a ptr"
  prv :: "'a \<Rightarrow> 'a ptr"

definition get_nxt :: "'a ptr \<Rightarrow> 'a dlheap \<Rightarrow> 'a ptr option" where
  "get_nxt p h = map_option (nxt h) p"

definition get_prv :: "'a ptr \<Rightarrow> 'a dlheap \<Rightarrow> 'a ptr option" where
  "get_prv p h = map_option (prv h) p"

definition set_nxt :: "'a ptr \<Rightarrow> 'a ptr \<Rightarrow> 'a dlheap \<Rightarrow> 'a dlheap option" where
  "set_nxt p v h = map_option (\<lambda>a. h\<lparr>nxt := (nxt h)(a := v)\<rparr>) p"

definition set_prv :: "'a ptr \<Rightarrow> 'a ptr \<Rightarrow> 'a dlheap \<Rightarrow> 'a dlheap option" where
  "set_prv p v h = map_option (\<lambda>a. h\<lparr>prv := (prv h)(a := v)\<rparr>) p"

definition INIT_DLIST_HEAD :: "'a ptr \<Rightarrow> 'a dlheap \<Rightarrow> 'a dlheap option" where
  "INIT_DLIST_HEAD p h = do { h \<leftarrow> set_nxt p p h; set_prv p p h }"

definition dlist_add_between :: "'a ptr \<Rightarrow> 'a ptr \<Rightarrow> 'a ptr \<Rightarrow> 'a dlheap \<Rightarrow> 'a dlheap option" where
  "dlist_add_between new prev next h = do {
     h \<leftarrow> set_prv next new h;
     h \<leftarrow> set_nxt new next h;
     h \<leftarrow> set_prv new prev h;
     set_nxt prev new h }"

definition dlist_del_between :: "'a ptr \<Rightarrow> 'a ptr \<Rightarrow> 'a dlheap \<Rightarrow> 'a dlheap option" where
  "dlist_del_between prev next h = do {
     h \<leftarrow> set_prv next prev h;
     set_nxt prev next h }"

definition dlist_add :: "'a ptr \<Rightarrow> 'a ptr \<Rightarrow> 'a dlheap \<Rightarrow> 'a dlheap option" where
  "dlist_add new head h = do {
     n \<leftarrow> get_nxt head h;
     dlist_add_between new head n h }"

definition dlist_add_tail :: "'a ptr \<Rightarrow> 'a ptr \<Rightarrow> 'a dlheap \<Rightarrow> 'a dlheap option" where
  "dlist_add_tail new head h = do {
     p \<leftarrow> get_prv head h;
     dlist_add_between new p head h }"

definition dlist_del :: "'a ptr \<Rightarrow> 'a dlheap \<Rightarrow> 'a dlheap option" where
  "dlist_del entry h = do {
     p \<leftarrow> get_prv entry h;
     n \<leftarrow> get_nxt entry h;
     h \<leftarrow> dlist_del_between p n h;
     h \<leftarrow> set_nxt entry None h;
     set_prv entry None h }"

definition dlist_del_init :: "'a ptr \<Rightarrow> 'a dlheap \<Rightarrow> 'a dlheap option" where
  "dlist_del_init entry h = do {
     p \<leftarrow> get_prv entry h;
     n \<leftarrow> get_nxt entry h;
     h \<leftarrow> dlist_del_between p n h;
     INIT_DLIST_HEAD entry h }"

definition dlist_empty :: "'a ptr \<Rightarrow> 'a dlheap \<Rightarrow> bool option" where
  "dlist_empty head h = do {
     n \<leftarrow> get_nxt head h;
     Some (n = head) }"

section \<open>Rings\<close>

abbreviation lnk :: "'a dlheap \<Rightarrow> 'a \<Rightarrow> 'a \<Rightarrow> bool" where
  "lnk h x y \<equiv> nxt h x = Some y \<and> prv h y = Some x"

definition ring :: "'a dlheap \<Rightarrow> 'a \<Rightarrow> 'a list \<Rightarrow> bool" where
  "ring h a xs \<longleftrightarrow> distinct (a # xs) \<and> successively (lnk h) (a # xs @ [a])"

definition nodes :: "('a \<rightharpoonup> 'a list) \<Rightarrow> 'a set" where
  "nodes R = (\<Union>(a, xs) \<in> {(a, xs). R a = Some xs}. set (a # xs))"

definition rings :: "'a dlheap \<Rightarrow> ('a \<rightharpoonup> 'a list) \<Rightarrow> bool" where
  "rings h R \<longleftrightarrow>
     (\<forall>a xs. R a = Some xs \<longrightarrow> ring h a xs) \<and>
     (\<forall>a b xs ys. R a = Some xs \<longrightarrow> R b = Some ys \<longrightarrow> a \<noteq> b \<longrightarrow>
        set (a # xs) \<inter> set (b # ys) = {})"

section \<open>Links\<close>

lemmas dl_defs = get_nxt_def get_prv_def set_nxt_def set_prv_def INIT_DLIST_HEAD_def
  dlist_add_between_def dlist_del_between_def dlist_add_def dlist_add_tail_def
  dlist_del_def dlist_del_init_def dlist_empty_def

lemma successively_lnk_cong:
  assumes "\<And>x. x \<in> set (butlast zs) \<Longrightarrow> nxt h' x = nxt h x"
    and "\<And>y. y \<in> set (tl zs) \<Longrightarrow> prv h' y = prv h y"
  shows "successively (lnk h') zs = successively (lnk h) zs"
  using assms
proof (induction zs rule: induct_list012)
  case (3 x y zs)
  have "successively (lnk h') (y # zs) = successively (lnk h) (y # zs)"
    by (rule "3.IH"(2)) (use "3.prems" in \<open>auto dest: list.set_sel(2) split: if_splits\<close>)
  then show ?case using "3.prems" by auto
qed auto

lemma successively_lnk_frame:
  assumes "successively (lnk h) zs"
    and "\<And>x. x \<notin> N \<Longrightarrow> nxt h' x = nxt h x" and "\<And>x. x \<notin> P \<Longrightarrow> prv h' x = prv h x"
    and "set (butlast zs) \<inter> N = {}" and "set (tl zs) \<inter> P = {}"
  shows "successively (lnk h') zs"
proof -
  have "successively (lnk h') zs = successively (lnk h) zs"
    by (rule successively_lnk_cong) (use assms(2-5) in blast)+
  with assms(1) show ?thesis by simp
qed

lemma ring_cong:
  assumes "\<And>x. x \<in> set (a # xs) \<Longrightarrow> nxt h' x = nxt h x \<and> prv h' x = prv h x"
  shows "ring h' a xs = ring h a xs"
  unfolding ring_def
  by (subst successively_lnk_cong [of _ h' h]) (use assms in \<open>auto simp: butlast_append\<close>)

lemma ring_split:
  "ring h a (xs @ ys) \<longleftrightarrow>
     distinct (a # xs @ ys) \<and> successively (lnk h) (a # xs) \<and>
     successively (lnk h) (ys @ [a]) \<and> lnk h (last (a # xs)) (hd (ys @ [a]))"
  using successively_append_iff [of "lnk h" "a # xs" "ys @ [a]"] by (auto simp: ring_def)

lemma butlast_last_distinct: "distinct zs \<Longrightarrow> zs \<noteq> [] \<Longrightarrow> last zs \<notin> set (butlast zs)"
  by (metis append_butlast_last_id distinct_butlast not_distinct_conv_prefix)

lemma hd_tl_distinct: "distinct zs \<Longrightarrow> zs \<noteq> [] \<Longrightarrow> hd zs \<notin> set (tl zs)"
  by (cases zs) auto

text \<open>Linking a new node between two neighbours, and unlinking one, on one ring.\<close>

lemma ring_insert:
  assumes r: "ring h a (xs @ ys)" and new: "new \<notin> set (a # xs @ ys)"
  shows "\<exists>h'. dlist_add_between (Some new) (Some (last (a # xs))) (Some (hd (ys @ [a]))) h = Some h'
    \<and> ring h' a (xs @ new # ys)
    \<and> (\<forall>x. x \<notin> set (new # a # xs @ ys) \<longrightarrow> nxt h' x = nxt h x \<and> prv h' x = prv h x)"
proof -
  define p n where "p = last (a # xs)" and "n = hd (ys @ [a])"
  define h' where "h' = h\<lparr>nxt := (nxt h)(new := Some n, p := Some new),
      prv := (prv h)(n := Some new, new := Some p)\<rparr>"
  have op: "dlist_add_between (Some new) (Some p) (Some n) h = Some h'"
    by (simp add: dl_defs h'_def)
  have d: "distinct (a # xs @ ys)"
    and l: "successively (lnk h) (a # xs)" "successively (lnk h) (ys @ [a])"
    using r by (auto simp: ring_split)
  have pn: "p \<in> set (a # xs)" "n \<in> set (ys @ [a])"
    unfolding p_def n_def by (rule last_in_set, simp) (rule hd_in_set, simp)
  have p1: "p \<notin> set (butlast (a # xs))" "p \<notin> set ys"
    using butlast_last_distinct [of "a # xs"] d pn(1) by (auto simp: p_def)
  have n1: "n \<notin> set xs" "n \<notin> set (tl (ys @ [a]))" "new \<notin> set (tl (ys @ [a]))"
    using d pn(2) new by (auto simp: n_def) (cases ys; auto)+
  have fr: "nxt h' x = nxt h x" if "x \<notin> {new, p}" for x
    using that by (simp add: h'_def)
  have fr': "prv h' x = prv h x" if "x \<notin> {new, n}" for x
    using that by (simp add: h'_def)
  have "successively (lnk h') (a # xs)"
    by (rule successively_lnk_frame [where N = "{new, p}" and P = "{new, n}", OF l(1) fr fr'])
      (use new p1 n1 in \<open>auto dest: in_set_butlastD\<close>)
  moreover have "successively (lnk h') (ys @ [a])"
    by (rule successively_lnk_frame [where N = "{new, p}" and P = "{new, n}", OF l(2) fr fr'])
      (use new p1 n1 in \<open>auto simp: butlast_append\<close>)
  moreover have "p \<noteq> new" "n \<noteq> new" using pn new by auto
  then have "lnk h' p new" "lnk h' new n" by (auto simp: h'_def)
  ultimately have "ring h' a (xs @ new # ys)"
    unfolding ring_split using d new by (auto simp: successively_Cons p_def n_def)
  moreover have "\<forall>x. x \<notin> set (new # a # xs @ ys) \<longrightarrow> nxt h' x = nxt h x \<and> prv h' x = prv h x"
    using pn fr fr' by auto
  ultimately show ?thesis using op unfolding p_def n_def by blast
qed

lemma ring_remove:
  assumes r: "ring h a (xs @ e # ys)"
  shows "\<exists>h'. dlist_del (Some e) h = Some h' \<and> ring h' a (xs @ ys)
    \<and> nxt h' e = None \<and> prv h' e = None
    \<and> (\<forall>x. x \<notin> set (e # a # xs @ ys) \<longrightarrow> nxt h' x = nxt h x \<and> prv h' x = prv h x)"
proof -
  define p n where "p = last (a # xs)" and "n = hd (ys @ [a])"
  define h' where "h' = h\<lparr>nxt := (nxt h)(p := Some n, e := None),
      prv := (prv h)(n := Some p, e := None)\<rparr>"
  have d: "distinct (a # xs @ e # ys)"
    and l: "successively (lnk h) (a # xs)" "successively (lnk h) (ys @ [a])"
    and pe: "lnk h p e" "lnk h e n"
    using r by (auto simp: ring_split successively_Cons p_def n_def)
  have op: "dlist_del (Some e) h = Some h'"
    using pe by (simp add: dl_defs h'_def)
  have pn: "p \<in> set (a # xs)" "n \<in> set (ys @ [a])"
    unfolding p_def n_def by (rule last_in_set, simp) (rule hd_in_set, simp)
  have p1: "p \<notin> set (butlast (a # xs))" "p \<notin> set ys"
    using butlast_last_distinct [of "a # xs"] d pn(1) by (auto simp: p_def)
  have n1: "n \<notin> set xs" "n \<notin> set (tl (ys @ [a]))" "e \<notin> set (tl (ys @ [a]))"
    using d pn(2) by (auto simp: n_def) (cases ys; auto)+
  have ne: "e \<noteq> p" "e \<noteq> n" using d pn by auto
  have fr: "nxt h' x = nxt h x" if "x \<notin> {e, p}" for x
    using that by (simp add: h'_def)
  have fr': "prv h' x = prv h x" if "x \<notin> {e, n}" for x
    using that by (simp add: h'_def)
  have "successively (lnk h') (a # xs)"
    by (rule successively_lnk_frame [where N = "{e, p}" and P = "{e, n}", OF l(1) fr fr'])
      (use d p1 n1 in \<open>auto dest: in_set_butlastD\<close>)
  moreover have "successively (lnk h') (ys @ [a])"
    by (rule successively_lnk_frame [where N = "{e, p}" and P = "{e, n}", OF l(2) fr fr'])
      (use d p1 n1 in \<open>auto simp: butlast_append\<close>)
  moreover have "lnk h' p n" using ne by (auto simp: h'_def)
  ultimately have "ring h' a (xs @ ys)"
    unfolding ring_split using d by (simp add: p_def n_def)
  moreover have "\<forall>x. x \<notin> set (e # a # xs @ ys) \<longrightarrow> nxt h' x = nxt h x \<and> prv h' x = prv h x"
    using pn fr fr' by auto
  moreover have "nxt h' e = None" "prv h' e = None" by (auto simp: h'_def)
  ultimately show ?thesis using op by blast
qed

section \<open>Families of disjoint rings\<close>

lemma nodes_iff: "x \<in> nodes R \<longleftrightarrow> (\<exists>a xs. R a = Some xs \<and> x \<in> set (a # xs))"
  by (auto simp: nodes_def)

lemma rings_update:
  assumes R: "rings h R" and a: "R a = Some zs" and r: "ring h' a zs'"
    and sub: "\<And>x. x \<in> set zs' \<Longrightarrow> x \<in> set zs \<or> x \<notin> nodes R"
    and fr: "\<And>x. x \<notin> set (a # zs) \<Longrightarrow> x \<in> nodes R \<Longrightarrow> nxt h' x = nxt h x \<and> prv h' x = prv h x"
  shows "rings h' (R(a \<mapsto> zs'))"
proof -
  have dis: "set (a # zs) \<inter> set (b # ys) = {}" if "R b = Some ys" "b \<noteq> a" for b ys
    using R a that unfolding rings_def by metis
  have keep: "ring h' b ys" if b: "R b = Some ys" "b \<noteq> a" for b ys
  proof -
    have "ring h b ys" using R b(1) by (auto simp: rings_def)
    moreover have "nxt h' x = nxt h x \<and> prv h' x = prv h x" if x: "x \<in> set (b # ys)" for x
    proof (rule fr)
      show "x \<notin> set (a # zs)" using dis [OF b] x by blast
      show "x \<in> nodes R" using x b(1) nodes_iff by metis
    qed
    ultimately show ?thesis using ring_cong by metis
  qed
  have sep: "set (a # zs') \<inter> set (b # ys) = {}" if b: "R b = Some ys" "b \<noteq> a" for b ys
  proof -
    have "x \<in> nodes R" if "x \<in> set (b # ys)" for x
      using that b(1) nodes_iff by metis
    with dis [OF b] sub b(2) show ?thesis by fastforce
  qed
  show ?thesis
    unfolding rings_def
  proof (intro conjI allI impI)
    show "ring h' b ys" if "(R(a \<mapsto> zs')) b = Some ys" for b ys
      using that r keep by (cases "b = a") auto
    show "set (b # ys) \<inter> set (c # ws) = {}"
      if "(R(a \<mapsto> zs')) b = Some ys" "(R(a \<mapsto> zs')) c = Some ws" "b \<noteq> c" for b c ys ws
      using that sep [of b ys] sep [of c ws] R unfolding rings_def
      by (cases "b = a"; cases "c = a") (simp_all, blast+)
  qed
qed

lemma rings_ring: "rings h R \<Longrightarrow> R a = Some xs \<Longrightarrow> ring h a xs"
  by (auto simp: rings_def)

lemma rings_distinct: "rings h R \<Longrightarrow> R a = Some xs \<Longrightarrow> distinct (a # xs)"
  by (auto simp: rings_def ring_def)

lemma rings_disjoint:
  "rings h R \<Longrightarrow> R a = Some xs \<Longrightarrow> R b = Some ys \<Longrightarrow> a \<noteq> b \<Longrightarrow> set (a # xs) \<inter> set (b # ys) = {}"
  by (auto simp: rings_def)

lemma rings_insert:
  assumes R: "rings h R" and a: "R a = Some (xs @ ys)" and new: "new \<notin> nodes R"
  shows "\<exists>h'. dlist_add_between (Some new) (Some (last (a # xs))) (Some (hd (ys @ [a]))) h = Some h'
    \<and> rings h' (R(a \<mapsto> xs @ new # ys))"
proof -
  have "ring h a (xs @ ys)" using R a by (rule rings_ring)
  moreover have n: "new \<notin> set (a # xs @ ys)" using new a by (metis nodes_iff)
  ultimately obtain h' where h': "dlist_add_between (Some new) (Some (last (a # xs)))
      (Some (hd (ys @ [a]))) h = Some h'" "ring h' a (xs @ new # ys)"
    and fr: "\<And>x. x \<notin> set (new # a # xs @ ys) \<Longrightarrow> nxt h' x = nxt h x \<and> prv h' x = prv h x"
    using ring_insert by metis
  have "rings h' (R(a \<mapsto> xs @ new # ys))"
  proof (rule rings_update [OF R a h'(2)])
    show "nxt h' x = nxt h x \<and> prv h' x = prv h x" if "x \<notin> set (a # xs @ ys)" "x \<in> nodes R" for x
      using fr [of x] that new by auto
  qed (use new in auto)
  with h'(1) show ?thesis by blast
qed

lemma rings_add:
  assumes R: "rings h R" and a: "R a = Some xs" and new: "new \<notin> nodes R"
  shows "\<exists>h'. dlist_add (Some new) (Some a) h = Some h' \<and> rings h' (R(a \<mapsto> new # xs))"
proof -
  have "nxt h a = Some (hd (xs @ [a]))"
    using rings_ring [OF R a] ring_split [of h a "[]" xs] by simp
  then show ?thesis
    using rings_insert [of h R a "[]" xs new] assms by (simp add: dlist_add_def get_nxt_def)
qed

lemma rings_add_before:
  assumes R: "rings h R" and a: "R a = Some (xs @ ys)" and new: "new \<notin> nodes R"
  shows "\<exists>h'. dlist_add_tail (Some new) (Some (hd (ys @ [a]))) h = Some h'
    \<and> rings h' (R(a \<mapsto> xs @ new # ys))"
proof -
  have "prv h (hd (ys @ [a])) = Some (last (a # xs))"
    using rings_ring [OF R a] ring_split [of h a xs ys] by simp
  then show ?thesis
    using rings_insert [OF assms] by (simp add: dlist_add_tail_def get_prv_def)
qed

lemma rings_del:
  assumes R: "rings h R" and a: "R a = Some (xs @ e # ys)"
  shows "\<exists>h'. dlist_del (Some e) h = Some h' \<and> rings h' (R(a \<mapsto> xs @ ys))
    \<and> e \<notin> nodes (R(a \<mapsto> xs @ ys)) \<and> nxt h' e = None \<and> prv h' e = None"
proof -
  have r: "ring h a (xs @ e # ys)" using R a by (rule rings_ring)
  then obtain h' where h': "dlist_del (Some e) h = Some h'" "ring h' a (xs @ ys)"
      "nxt h' e = None" "prv h' e = None"
    and fr: "\<And>x. x \<notin> set (e # a # xs @ ys) \<Longrightarrow> nxt h' x = nxt h x \<and> prv h' x = prv h x"
    using ring_remove by metis
  have "rings h' (R(a \<mapsto> xs @ ys))"
  proof (rule rings_update [OF R a h'(2)])
    show "nxt h' x = nxt h x \<and> prv h' x = prv h x" if "x \<notin> set (a # xs @ e # ys)" for x
      using fr [of x] that by auto
  qed auto
  moreover have "e \<notin> set (b # zs)" if "(R(a \<mapsto> xs @ ys)) b = Some zs" for b zs
    using that r rings_disjoint [OF R a, of b zs] by (cases "b = a") (auto simp: ring_def)
  then have "e \<notin> nodes (R(a \<mapsto> xs @ ys))" by (metis nodes_iff)
  ultimately show ?thesis using h' by blast
qed

lemma rings_next:
  "rings h R \<Longrightarrow> R a = Some (xs @ e # ys) \<Longrightarrow> get_nxt (Some e) h = Some (Some (hd (ys @ [a])))"
  using rings_ring [of h R a "xs @ e # ys"] ring_split [of h a "xs @ [e]" ys]
  by (simp add: get_nxt_def)

lemma rings_first:
  "rings h R \<Longrightarrow> R a = Some xs \<Longrightarrow> get_nxt (Some a) h = Some (Some (hd (xs @ [a])))"
  using rings_ring [of h R a xs] ring_split [of h a "[]" xs] by (simp add: get_nxt_def)

lemma rings_empty:
  assumes "rings h R" and "R a = Some xs"
  shows "dlist_empty (Some a) h = Some (xs = [])"
proof (cases xs)
  case Nil
  then show ?thesis using rings_first [OF assms] by (simp add: dlist_empty_def)
next
  case (Cons x ys)
  then show ?thesis
    using rings_first [OF assms] rings_distinct [OF assms] by (auto simp: dlist_empty_def)
qed

lemma rings_init:
  assumes R: "rings h R" and a: "a \<notin> nodes R"
  shows "\<exists>h'. INIT_DLIST_HEAD (Some a) h = Some h' \<and> rings h' (R(a \<mapsto> []))"
proof -
  let ?h = "h\<lparr>nxt := (nxt h)(a := Some a), prv := (prv h)(a := Some a)\<rparr>"
  have "ring ?h b ys" if b: "R b = Some ys" for b ys
  proof -
    have "a \<notin> set (b # ys)" using a b by (metis nodes_iff)
    then have "ring ?h b ys = ring h b ys" by (intro ring_cong) auto
    then show ?thesis using rings_ring [OF R b] by simp
  qed
  moreover have "ring ?h a []" by (simp add: ring_def)
  moreover have "a \<notin> set (b # ys)" if "R b = Some ys" for b ys
    using a that by (metis nodes_iff)
  ultimately have "rings ?h (R(a \<mapsto> []))"
    unfolding rings_def using rings_disjoint [OF R] by (auto split: if_splits)
  then show ?thesis by (simp add: dl_defs)
qed

lemma rings_forget: "rings h R \<Longrightarrow> rings h (R(a := None))"
  by (auto simp: rings_def split: if_splits)

section \<open>The contract of the lists\<close>

text \<open>
  What the users of the lists rely on. \<open>rep h R\<close>: the store \<open>h\<close> holds the lists \<open>R\<close>. The
  laws say that every operation is defined (no null dereference) on the lists it is
  called on, and what it does to them.
\<close>

locale dlist_store =
  fixes rep :: "'h \<Rightarrow> ('a \<rightharpoonup> 'a list) \<Rightarrow> bool"
    and init :: "'a option \<Rightarrow> 'h \<Rightarrow> 'h option"
    and add :: "'a option \<Rightarrow> 'a option \<Rightarrow> 'h \<Rightarrow> 'h option"
    and add_tail :: "'a option \<Rightarrow> 'a option \<Rightarrow> 'h \<Rightarrow> 'h option"
    and del :: "'a option \<Rightarrow> 'h \<Rightarrow> 'h option"
    and is_empty :: "'a option \<Rightarrow> 'h \<Rightarrow> bool option"
    and succ :: "'a option \<Rightarrow> 'h \<Rightarrow> 'a option option"
  assumes init_law: "rep h R \<Longrightarrow> a \<notin> nodes R \<Longrightarrow>
      \<exists>h'. init (Some a) h = Some h' \<and> rep h' (R(a \<mapsto> []))"
    and add_law: "rep h R \<Longrightarrow> R a = Some xs \<Longrightarrow> e \<notin> nodes R \<Longrightarrow>
      \<exists>h'. add (Some e) (Some a) h = Some h' \<and> rep h' (R(a \<mapsto> e # xs))"
    and add_before_law: "rep h R \<Longrightarrow> R a = Some (xs @ ys) \<Longrightarrow> e \<notin> nodes R \<Longrightarrow>
      \<exists>h'. add_tail (Some e) (Some (hd (ys @ [a]))) h = Some h' \<and> rep h' (R(a \<mapsto> xs @ e # ys))"
    and del_law: "rep h R \<Longrightarrow> R a = Some (xs @ e # ys) \<Longrightarrow>
      \<exists>h'. del (Some e) h = Some h' \<and> rep h' (R(a \<mapsto> xs @ ys)) \<and> e \<notin> nodes (R(a \<mapsto> xs @ ys))"
    and forget_law: "rep h R \<Longrightarrow> rep h (R(a := None))"
    and empty_law: "rep h R \<Longrightarrow> R a = Some xs \<Longrightarrow> is_empty (Some a) h = Some (xs = [])"
    and first_law: "rep h R \<Longrightarrow> R a = Some xs \<Longrightarrow> succ (Some a) h = Some (Some (hd (xs @ [a])))"
    and succ_law: "rep h R \<Longrightarrow> R a = Some (xs @ e # ys) \<Longrightarrow>
      succ (Some e) h = Some (Some (hd (ys @ [a])))"
    and distinct_law: "rep h R \<Longrightarrow> R a = Some xs \<Longrightarrow> distinct (a # xs)"
    and disjoint_law: "rep h R \<Longrightarrow> R a = Some xs \<Longrightarrow> R b = Some ys \<Longrightarrow> a \<noteq> b \<Longrightarrow>
      set (a # xs) \<inter> set (b # ys) = {}"
begin

text \<open>Moving an element from one list to the front of another: what every \<^verbatim>\<open>get_\<close> and
  \<^verbatim>\<open>free_\<close> function of the pools does.\<close>

lemma move_law:
  assumes "rep h R" and "R a = Some (xs @ e # ys)" and "R b = Some zs" and "a \<noteq> b"
  shows "\<exists>h1 h2. del (Some e) h = Some h1 \<and> add (Some e) (Some b) h1 = Some h2
    \<and> rep h2 (R(a \<mapsto> xs @ ys, b \<mapsto> e # zs))"
proof -
  obtain h1 where h1: "del (Some e) h = Some h1" "rep h1 (R(a \<mapsto> xs @ ys))"
      "e \<notin> nodes (R(a \<mapsto> xs @ ys))"
    using del_law [OF assms(1,2)] by blast
  then show ?thesis using add_law [OF h1(2), of b zs e] assms(3,4) by auto
qed

lemma pop_law:
  assumes "rep h R" and "R a = Some (e # xs)"
  shows "is_empty (Some a) h = Some False" and "succ (Some a) h = Some (Some e)"
    and "\<exists>h'. del (Some e) h = Some h' \<and> rep h' (R(a \<mapsto> xs)) \<and> e \<notin> nodes (R(a \<mapsto> xs))"
  using empty_law [OF assms] first_law [OF assms] del_law [of h R a "[]" e xs] assms by simp_all

lemma init_fresh:
  assumes "rep h R" and "a \<notin> nodes R"
  shows "\<exists>h'. init (Some a) h = Some h' \<and> rep h' R"
proof -
  obtain h' where h': "init (Some a) h = Some h'" "rep h' (R(a \<mapsto> []))"
    using init_law [OF assms] by blast
  have "R a = None" using assms(2) by (cases "R a") (auto simp: nodes_def)
  with forget_law [OF h'(2), of a] have "rep h' R" by (simp add: fun_upd_idem)
  with h'(1) show ?thesis by blast
qed

lemma add_last_law:
  assumes "rep h R" and "R a = Some xs" and "e \<notin> nodes R"
  shows "\<exists>h'. add_tail (Some e) (Some a) h = Some h' \<and> rep h' (R(a \<mapsto> xs @ [e]))"
  using add_before_law [of h R a xs "[]" e] assms by simp

end

interpretation dl: dlist_store rings INIT_DLIST_HEAD dlist_add dlist_add_tail dlist_del
    dlist_empty get_nxt
proof unfold_locales
  fix h :: "'a dlheap" and R a xs e ys
  show "rings h R \<Longrightarrow> R a = Some (xs @ e # ys) \<Longrightarrow>
      \<exists>h'. dlist_del (Some e) h = Some h' \<and> rings h' (R(a \<mapsto> xs @ ys))
        \<and> e \<notin> nodes (R(a \<mapsto> xs @ ys))"
    using rings_del by metis
qed (fact rings_forget rings_init rings_add rings_add_before rings_empty rings_first rings_next
  rings_distinct rings_disjoint)+

text \<open>Deleting an entry twice dereferences a null pointer: \<^verbatim>\<open>dlist_del\<close> leaves both fields of
  the entry null.\<close>

lemma dlist_del_twice: "dlist_del (Some e) h = Some h' \<Longrightarrow> dlist_del (Some e) h' = None"
  by (auto simp: dl_defs map_option_case split: option.splits bind_splits)

end
