(* ===== verification/Sloop.thy ===== *)
theory Sloop
  imports Dlist_Heap "HOL-Library.Product_Lexorder" "HOL-Library.Sublist"
begin

text \<open>
  The select loop of \<^verbatim>\<open>comlib/sloop.c\<close>: three pools of event records (sockets, timeouts,
  signals) whose entries sit on \<^verbatim>\<open>dlist\<close> rings, the registration and cancellation
  functions, one pass of \<^verbatim>\<open>sloop_run\<close> and the loop itself. A ring node is the list field
  of a record (\<open>Sock i\<close>, \<open>Tmo i\<close>, \<open>Sig i\<close>) or the list head of \<^verbatim>\<open>struct sloop_data\<close>. The
  callbacks are a parameter of the model: each may change the whole state, as a C
  callback that calls back into the module does. The kernel's answers (uptime,
  \<^verbatim>\<open>select\<close>, the pipe) are inputs of each pass. \<open>None\<close> is a null or mistyped dereference,
  or a walk that never ends.
\<close>

section \<open>Data\<close>

datatype sl_addr =
    H_free_sockets | H_free_timeout | H_free_signals
  | H_readers | H_writers | H_signals | H_timeout
  | Sock nat | Tmo nat | Sig nat

record timeval =
  tv_sec :: u32
  tv_usec :: u32

record ('c, 'p) sloop_socket =
  sk_flags :: u32
  sk_sock :: int
  sk_param :: 'p
  sk_handler :: 'c

record ('c, 'p) sloop_timeout =
  to_flags :: u32
  to_time :: timeval
  to_param :: 'p
  to_handler :: 'c

record ('c, 'p) sloop_signal =
  sg_flags :: u32
  sg_sig :: int
  sg_param :: 'p
  sg_handler :: 'c

record ('c, 'p) sloop =
  terminate :: bool
  signal_pipe :: int
  sloop_data :: 'p
  heap :: "sl_addr dlheap"
  sockets :: "nat \<Rightarrow> ('c, 'p) sloop_socket"
  timeouts :: "nat \<Rightarrow> ('c, 'p) sloop_timeout"
  signals :: "nat \<Rightarrow> ('c, 'p) sloop_signal"
  sig_caught :: "int \<Rightarrow> bool"

definition SLOOP_TYPE_SOCKET :: u32 where "SLOOP_TYPE_SOCKET = 1"
definition SLOOP_TYPE_TIMEOUT :: u32 where "SLOOP_TYPE_TIMEOUT = 2"
definition SLOOP_TYPE_SIGNAL :: u32 where "SLOOP_TYPE_SIGNAL = 3"
definition SLOOP_INUSED :: u32 where "SLOOP_INUSED = 256"

unbundle bit_operations_syntax

text \<open>\<^verbatim>\<open>dlist_entry\<close>: from a list node back to the record that contains it. A node of
  another kind is not such a record.\<close>

fun is_node :: "sl_addr \<Rightarrow> bool" where
  "is_node (Sock i) = True"
| "is_node (Tmo i) = True"
| "is_node (Sig i) = True"
| "is_node _ = False"

fun sock_of :: "sl_addr ptr \<Rightarrow> nat option" where
  "sock_of (Some (Sock i)) = Some i"
| "sock_of _ = None"

fun tmo_of :: "sl_addr ptr \<Rightarrow> nat option" where
  "tmo_of (Some (Tmo i)) = Some i"
| "tmo_of _ = None"

fun sig_of :: "sl_addr ptr \<Rightarrow> nat option" where
  "sig_of (Some (Sig i)) = Some i"
| "sig_of _ = None"

section \<open>The pools\<close>

definition get_socket :: "('c, 'p) sloop \<Rightarrow> (nat option \<times> ('c, 'p) sloop) option" where
  "get_socket s = do {
     e \<leftarrow> dlist_empty (Some H_free_sockets) (heap s);
     if e then Some (None, s) else do {
       entry \<leftarrow> get_nxt (Some H_free_sockets) (heap s);
       h \<leftarrow> dlist_del entry (heap s);
       i \<leftarrow> sock_of entry;
       Some (Some i, s\<lparr>heap := h,
         sockets := (sockets s)(i := (sockets s i)\<lparr>sk_flags := SLOOP_INUSED OR SLOOP_TYPE_SOCKET\<rparr>)\<rparr>) } }"

definition get_timeout :: "('c, 'p) sloop \<Rightarrow> (nat option \<times> ('c, 'p) sloop) option" where
  "get_timeout s = do {
     e \<leftarrow> dlist_empty (Some H_free_timeout) (heap s);
     if e then Some (None, s) else do {
       entry \<leftarrow> get_nxt (Some H_free_timeout) (heap s);
       h \<leftarrow> dlist_del entry (heap s);
       i \<leftarrow> tmo_of entry;
       Some (Some i, s\<lparr>heap := h,
         timeouts := (timeouts s)(i := (timeouts s i)\<lparr>to_flags := SLOOP_INUSED OR SLOOP_TYPE_TIMEOUT\<rparr>)\<rparr>) } }"

definition get_signal :: "('c, 'p) sloop \<Rightarrow> (nat option \<times> ('c, 'p) sloop) option" where
  "get_signal s = do {
     e \<leftarrow> dlist_empty (Some H_free_signals) (heap s);
     if e then Some (None, s) else do {
       entry \<leftarrow> get_nxt (Some H_free_signals) (heap s);
       h \<leftarrow> dlist_del entry (heap s);
       i \<leftarrow> sig_of entry;
       Some (Some i, s\<lparr>heap := h,
         signals := (signals s)(i := (signals s i)\<lparr>sg_flags := SLOOP_INUSED OR SLOOP_TYPE_SIGNAL\<rparr>)\<rparr>) } }"

definition free_socket :: "nat \<Rightarrow> ('c, 'p) sloop \<Rightarrow> ('c, 'p) sloop option" where
  "free_socket i s = do {
     h \<leftarrow> dlist_add (Some (Sock i)) (Some H_free_sockets) (heap s);
     Some (s\<lparr>heap := h, sockets := (sockets s)(i :=
       (sockets s i)\<lparr>sk_flags := sk_flags (sockets s i) AND NOT SLOOP_INUSED\<rparr>)\<rparr>) }"

definition free_timeout :: "nat \<Rightarrow> ('c, 'p) sloop \<Rightarrow> ('c, 'p) sloop option" where
  "free_timeout i s = do {
     h \<leftarrow> dlist_add (Some (Tmo i)) (Some H_free_timeout) (heap s);
     Some (s\<lparr>heap := h, timeouts := (timeouts s)(i :=
       (timeouts s i)\<lparr>to_flags := to_flags (timeouts s i) AND NOT SLOOP_INUSED\<rparr>)\<rparr>) }"

definition free_signal :: "nat \<Rightarrow> ('c, 'p) sloop \<Rightarrow> ('c, 'p) sloop option" where
  "free_signal i s = do {
     h \<leftarrow> dlist_add (Some (Sig i)) (Some H_free_signals) (heap s);
     Some (s\<lparr>heap := h, signals := (signals s)(i :=
       (signals s i)\<lparr>sg_flags := sg_flags (signals s i) AND NOT SLOOP_INUSED\<rparr>)\<rparr>) }"

text \<open>\<^verbatim>\<open>init_list_pools\<close> puts every record of the three arrays on its free list. The array
  sizes are the configurable \<^verbatim>\<open>MAX_SLOOP_\<close> constants of \<^verbatim>\<open>sloop.h\<close>; the zeroed record that
  \<^verbatim>\<open>memset\<close> leaves is the argument \<open>z\<close>.\<close>

definition MAX_SLOOP_SOCKET :: nat where "MAX_SLOOP_SOCKET = 128"
definition MAX_SLOOP_SIGNAL :: nat where "MAX_SLOOP_SIGNAL = 16"
definition MAX_SLOOP_TIMEOUT :: nat where "MAX_SLOOP_TIMEOUT = 128"

fun pool_fill :: "(nat \<Rightarrow> sl_addr) \<Rightarrow> sl_addr \<Rightarrow> nat list \<Rightarrow> sl_addr dlheap \<Rightarrow> sl_addr dlheap option" where
  "pool_fill node head [] h = Some h"
| "pool_fill node head (i # is) h = do {
     h \<leftarrow> dlist_add (Some (node i)) (Some head) h;
     pool_fill node head is h }"

definition zero_timeval :: timeval where
  "zero_timeval = \<lparr>tv_sec = 0, tv_usec = 0\<rparr>"

definition init_list_pools ::
    "nat \<Rightarrow> nat \<Rightarrow> nat \<Rightarrow> 'c \<Rightarrow> 'p \<Rightarrow> ('c, 'p) sloop \<Rightarrow> ('c, 'p) sloop option" where
  "init_list_pools nsock ntmo nsig null_handler null_param s = do {
     let s = s\<lparr>
       heap := \<lparr>nxt = (\<lambda>a. if is_node a then None else nxt (heap s) a),
         prv = (\<lambda>a. if is_node a then None else prv (heap s) a)\<rparr>,
       sockets := (\<lambda>_. \<lparr>sk_flags = 0, sk_sock = 0, sk_param = null_param, sk_handler = null_handler\<rparr>),
       timeouts := (\<lambda>_. \<lparr>to_flags = 0, to_time = zero_timeval, to_param = null_param, to_handler = null_handler\<rparr>),
       signals := (\<lambda>_. \<lparr>sg_flags = 0, sg_sig = 0, sg_param = null_param, sg_handler = null_handler\<rparr>)\<rparr>;
     h \<leftarrow> pool_fill Sock H_free_sockets [0..<nsock] (heap s);
     h \<leftarrow> pool_fill Tmo H_free_timeout [0..<ntmo] h;
     h \<leftarrow> pool_fill Sig H_free_signals [0..<nsig] h;
     Some (s\<lparr>heap := h\<rparr>) }"

definition sloop_init ::
    "nat \<Rightarrow> nat \<Rightarrow> nat \<Rightarrow> 'c \<Rightarrow> 'p \<Rightarrow> int \<Rightarrow> 'p \<Rightarrow> ('c, 'p) sloop \<Rightarrow> ('c, 'p) sloop option" where
  "sloop_init nsock ntmo nsig null_handler null_param pipe_fd data s = do {
     let s = s\<lparr>terminate := False, signal_pipe := 0, sloop_data := null_param,
       heap := \<lparr>nxt = (\<lambda>a. if is_node a then nxt (heap s) a else None),
         prv = (\<lambda>a. if is_node a then prv (heap s) a else None)\<rparr>\<rparr>;
     h \<leftarrow> INIT_DLIST_HEAD (Some H_readers) (heap s);
     h \<leftarrow> INIT_DLIST_HEAD (Some H_writers) h;
     h \<leftarrow> INIT_DLIST_HEAD (Some H_signals) h;
     h \<leftarrow> INIT_DLIST_HEAD (Some H_timeout) h;
     h \<leftarrow> INIT_DLIST_HEAD (Some H_free_sockets) h;
     h \<leftarrow> INIT_DLIST_HEAD (Some H_free_timeout) h;
     h \<leftarrow> INIT_DLIST_HEAD (Some H_free_signals) h;
     s \<leftarrow> init_list_pools nsock ntmo nsig null_handler null_param (s\<lparr>heap := h\<rparr>);
     Some (s\<lparr>signal_pipe := pipe_fd, sloop_data := data\<rparr>) }"

section \<open>Registration and cancellation\<close>

definition register_socket ::
    "int \<Rightarrow> 'c \<Rightarrow> 'p \<Rightarrow> sl_addr \<Rightarrow> ('c, 'p) sloop \<Rightarrow> (nat option \<times> ('c, 'p) sloop) option" where
  "register_socket sock handler param head s = do {
     (entry, s) \<leftarrow> get_socket s;
     case entry of None \<Rightarrow> Some (None, s) | Some i \<Rightarrow> do {
       let s = s\<lparr>sockets := (sockets s)(i := (sockets s i)
         \<lparr>sk_sock := sock, sk_param := param, sk_handler := handler\<rparr>)\<rparr>;
       h \<leftarrow> dlist_add (Some (Sock i)) (Some head) (heap s);
       Some (Some i, s\<lparr>heap := h\<rparr>) } }"

text \<open>The \<^verbatim>\<open>else\<close> branch of \<^verbatim>\<open>cancel_socket\<close>: free the first entry until the list is empty.\<close>

partial_function (option) cancel_all_sockets ::
    "sl_addr \<Rightarrow> ('c, 'p) sloop \<Rightarrow> ('c, 'p) sloop option" where
  "cancel_all_sockets head s = do {
     e \<leftarrow> dlist_empty (Some head) (heap s);
     if e then Some s else do {
       entry \<leftarrow> get_nxt (Some head) (heap s);
       h \<leftarrow> dlist_del entry (heap s);
       i \<leftarrow> sock_of entry;
       s \<leftarrow> free_socket i (s\<lparr>heap := h\<rparr>);
       cancel_all_sockets head s } }"

definition cancel_socket ::
    "nat option \<Rightarrow> sl_addr \<Rightarrow> ('c, 'p) sloop \<Rightarrow> ('c, 'p) sloop option" where
  "cancel_socket target head s = (case target of
     Some i \<Rightarrow> do {
       h \<leftarrow> dlist_del (Some (Sock i)) (heap s);
       free_socket i (s\<lparr>heap := h\<rparr>) }
   | None \<Rightarrow> cancel_all_sockets head s)"

definition sloop_register_read_sock ::
    "int \<Rightarrow> 'c \<Rightarrow> 'p \<Rightarrow> ('c, 'p) sloop \<Rightarrow> (nat option \<times> ('c, 'p) sloop) option" where
  "sloop_register_read_sock sock handler param s = register_socket sock handler param H_readers s"

definition sloop_register_write_sock ::
    "int \<Rightarrow> 'c \<Rightarrow> 'p \<Rightarrow> ('c, 'p) sloop \<Rightarrow> (nat option \<times> ('c, 'p) sloop) option" where
  "sloop_register_write_sock sock handler param s = register_socket sock handler param H_writers s"

definition sloop_cancel_read_sock :: "nat option \<Rightarrow> ('c, 'p) sloop \<Rightarrow> ('c, 'p) sloop option" where
  "sloop_cancel_read_sock handle s = cancel_socket handle H_readers s"

definition sloop_cancel_write_sock :: "nat option \<Rightarrow> ('c, 'p) sloop \<Rightarrow> ('c, 'p) sloop option" where
  "sloop_cancel_write_sock handle s = cancel_socket handle H_writers s"

definition sloop_register_signal ::
    "int \<Rightarrow> 'c \<Rightarrow> 'p \<Rightarrow> ('c, 'p) sloop \<Rightarrow> (nat option \<times> ('c, 'p) sloop) option" where
  "sloop_register_signal sig handler param s = do {
     (entry, s) \<leftarrow> get_signal s;
     case entry of None \<Rightarrow> Some (None, s) | Some i \<Rightarrow> do {
       let s = s\<lparr>signals := (signals s)(i := (signals s i)
         \<lparr>sg_sig := sig, sg_param := param, sg_handler := handler\<rparr>)\<rparr>;
       h \<leftarrow> dlist_add (Some (Sig i)) (Some H_signals) (heap s);
       Some (Some i, s\<lparr>heap := h, sig_caught := (sig_caught s)(sig := True)\<rparr>) } }"

partial_function (option) cancel_all_signals ::
    "('c, 'p) sloop \<Rightarrow> ('c, 'p) sloop option" where
  "cancel_all_signals s = do {
     e \<leftarrow> dlist_empty (Some H_signals) (heap s);
     if e then Some s else do {
       entry \<leftarrow> get_nxt (Some H_signals) (heap s);
       i \<leftarrow> sig_of entry;
       let s = s\<lparr>sig_caught := (sig_caught s)(sg_sig (signals s i) := False)\<rparr>;
       h \<leftarrow> dlist_del entry (heap s);
       s \<leftarrow> free_signal i (s\<lparr>heap := h\<rparr>);
       cancel_all_signals s } }"

definition sloop_cancel_signal :: "nat option \<Rightarrow> ('c, 'p) sloop \<Rightarrow> ('c, 'p) sloop option" where
  "sloop_cancel_signal handle s = (case handle of
     Some i \<Rightarrow> do {
       let s = s\<lparr>sig_caught := (sig_caught s)(sg_sig (signals s i) := False)\<rparr>;
       h \<leftarrow> dlist_del (Some (Sig i)) (heap s);
       free_signal i (s\<lparr>heap := h\<rparr>) }
   | None \<Rightarrow> cancel_all_signals s)"

text \<open>The fields of a \<^verbatim>\<open>struct timeval\<close> are C \<^verbatim>\<open>long\<close>s, 32 bits wide and compared as signed
  numbers. \<open>norm_usec\<close> is the \<^verbatim>\<open>while\<close> loop that carries whole seconds over.\<close>

definition timercmp_lt :: "timeval \<Rightarrow> timeval \<Rightarrow> bool" where
  "timercmp_lt a b = (if tv_sec a = tv_sec b then sint (tv_usec a) < sint (tv_usec b)
     else sint (tv_sec a) < sint (tv_sec b))"

definition timercmp_ge :: "timeval \<Rightarrow> timeval \<Rightarrow> bool" where
  "timercmp_ge a b = (if tv_sec a = tv_sec b then sint (tv_usec a) \<ge> sint (tv_usec b)
     else sint (tv_sec a) \<ge> sint (tv_sec b))"

definition timersub :: "timeval \<Rightarrow> timeval \<Rightarrow> timeval" where
  "timersub a b = (let sec = tv_sec a - tv_sec b; usec = tv_usec a - tv_usec b in
     if sint usec < 0 then \<lparr>tv_sec = sec - 1, tv_usec = usec + 1000000\<rparr>
     else \<lparr>tv_sec = sec, tv_usec = usec\<rparr>)"

lemma sint_sub_million:
  "sint x \<ge> 1000000 \<Longrightarrow> sint (x - 1000000) = sint x - 1000000" for x :: u32
proof -
  assume x: "sint x \<ge> 1000000"
  have "sint x < 2 ^ 31" using sint_lt [of x] by simp
  then have "- (2 ^ 31) \<le> sint x - 1000000" "sint x - 1000000 < 2 ^ 31" using x by simp_all
  then show ?thesis
    by (simp add: sint_word_ariths signed_take_bit_int_eq_self)
qed

function norm_usec :: "timeval \<Rightarrow> timeval" where
  "norm_usec t = (if sint (tv_usec t) \<ge> 1000000
     then norm_usec \<lparr>tv_sec = tv_sec t + 1, tv_usec = tv_usec t - 1000000\<rparr> else t)"
  by pat_completeness auto
termination
  by (relation "measure (\<lambda>t. nat (sint (tv_usec t)))") (auto simp: sint_sub_million)

declare norm_usec.simps [simp del]

text \<open>The walk that finds where a new timeout goes: before the first later one.\<close>

partial_function (option) timeout_pos ::
    "(nat \<Rightarrow> ('c, 'p) sloop_timeout) \<Rightarrow> timeval \<Rightarrow> sl_addr dlheap \<Rightarrow> sl_addr ptr \<Rightarrow> sl_addr ptr option" where
  "timeout_pos tms t h entry =
     (if entry = Some H_timeout then Some entry else do {
       i \<leftarrow> tmo_of entry;
       if timercmp_lt t (to_time (tms i)) then Some entry else do {
         n \<leftarrow> get_nxt entry h;
         timeout_pos tms t h n } })"

definition sloop_register_timeout ::
    "u32 \<Rightarrow> u32 \<Rightarrow> u32 \<Rightarrow> 'c \<Rightarrow> 'p \<Rightarrow> ('c, 'p) sloop \<Rightarrow> (nat option \<times> ('c, 'p) sloop) option" where
  "sloop_register_timeout uptime secs usecs handler param s = do {
     (entry, s) \<leftarrow> get_timeout s;
     case entry of None \<Rightarrow> Some (None, s) | Some i \<Rightarrow> do {
       let t = norm_usec \<lparr>tv_sec = uptime + secs, tv_usec = usecs\<rparr>;
       let s = s\<lparr>timeouts := (timeouts s)(i := (timeouts s i)
         \<lparr>to_time := t, to_handler := handler, to_param := param\<rparr>)\<rparr>;
       h \<leftarrow> INIT_DLIST_HEAD (Some (Tmo i)) (heap s);
       e \<leftarrow> dlist_empty (Some H_timeout) h;
       if e then do {
         h \<leftarrow> dlist_add (Some (Tmo i)) (Some H_timeout) h;
         Some (Some i, s\<lparr>heap := h\<rparr>) }
       else do {
         first \<leftarrow> get_nxt (Some H_timeout) h;
         pos \<leftarrow> timeout_pos (timeouts s) t h first;
         h \<leftarrow> dlist_add_tail (Some (Tmo i)) pos h;
         Some (Some i, s\<lparr>heap := h\<rparr>) } } }"

partial_function (option) cancel_all_timeouts ::
    "('c, 'p) sloop \<Rightarrow> ('c, 'p) sloop option" where
  "cancel_all_timeouts s = do {
     e \<leftarrow> dlist_empty (Some H_timeout) (heap s);
     if e then Some s else do {
       entry \<leftarrow> get_nxt (Some H_timeout) (heap s);
       h \<leftarrow> dlist_del entry (heap s);
       i \<leftarrow> tmo_of entry;
       s \<leftarrow> free_timeout i (s\<lparr>heap := h\<rparr>);
       cancel_all_timeouts s } }"

definition sloop_cancel_timeout :: "nat option \<Rightarrow> ('c, 'p) sloop \<Rightarrow> ('c, 'p) sloop option" where
  "sloop_cancel_timeout handle s = (case handle of
     Some i \<Rightarrow> do {
       h \<leftarrow> dlist_del (Some (Tmo i)) (heap s);
       free_timeout i (s\<lparr>heap := h\<rparr>) }
   | None \<Rightarrow> cancel_all_timeouts s)"

definition sloop_terminate :: "('c, 'p) sloop \<Rightarrow> ('c, 'p) sloop" where
  "sloop_terminate s = s\<lparr>terminate := True\<rparr>"

section \<open>The loop\<close>

record ('c, 'p) callbacks =
  cb_sock :: "'c \<Rightarrow> int \<Rightarrow> 'p \<Rightarrow> 'p \<Rightarrow> ('c, 'p) sloop \<Rightarrow> (int \<times> ('c, 'p) sloop) option"
  cb_sig :: "'c \<Rightarrow> int \<Rightarrow> 'p \<Rightarrow> 'p \<Rightarrow> ('c, 'p) sloop \<Rightarrow> (int \<times> ('c, 'p) sloop) option"
  cb_tmo :: "'c \<Rightarrow> 'p \<Rightarrow> 'p \<Rightarrow> ('c, 'p) sloop \<Rightarrow> ('c, 'p) sloop option"

text \<open>\<^verbatim>\<open>select\<close> fails (with \<^verbatim>\<open>EINTR\<close> or not), or returns a count and the ready descriptors. A pass
  reads the uptime before and after it, and the signal number from the pipe (\<open>None\<close>: the
  read failed).\<close>

datatype sel_result = SelErr bool | SelOk int "int list" "int list"

record sl_event =
  ev_now1 :: u32
  ev_select :: "int \<Rightarrow> int list \<Rightarrow> int list \<Rightarrow> timeval option \<Rightarrow> sel_result"
  ev_sig :: "int option"
  ev_now2 :: u32

definition first_timeout :: "('c, 'p) sloop \<Rightarrow> nat option option" where
  "first_timeout s = do {
     e \<leftarrow> dlist_empty (Some H_timeout) (heap s);
     if e then Some None else do {
       entry \<leftarrow> get_nxt (Some H_timeout) (heap s);
       i \<leftarrow> tmo_of entry;
       Some (Some i) } }"

definition select_tv :: "u32 \<Rightarrow> timeval \<Rightarrow> timeval" where
  "select_tv uptime t = (let now = \<lparr>tv_sec = uptime, tv_usec = 0\<rparr> in
     if timercmp_ge now t then zero_timeval else timersub t now)"

partial_function (option) collect_fds ::
    "(nat \<Rightarrow> ('c, 'p) sloop_socket) \<Rightarrow> sl_addr dlheap \<Rightarrow> sl_addr \<Rightarrow> sl_addr ptr \<Rightarrow> int list option" where
  "collect_fds socks h head entry = (if entry = Some head then Some [] else do {
     i \<leftarrow> sock_of entry;
     n \<leftarrow> get_nxt entry h;
     fds \<leftarrow> collect_fds socks h head n;
     Some (sk_sock (socks i) # fds) })"

definition max_sock :: "int \<Rightarrow> int list \<Rightarrow> int list \<Rightarrow> int" where
  "max_sock pipe_fd rl wl = fold max wl (fold max rl (max 0 pipe_fd))"

partial_function (option) sig_dispatch ::
    "('c, 'p) callbacks \<Rightarrow> int \<Rightarrow> sl_addr ptr \<Rightarrow> ('c, 'p) sloop \<Rightarrow> ('c, 'p) sloop option" where
  "sig_dispatch cb sig entry s = (if entry = Some H_signals then Some s else do {
     i \<leftarrow> sig_of entry;
     if sg_sig (signals s i) = sig then do {
       (r, s) \<leftarrow> cb_sig cb (sg_handler (signals s i)) (sg_sig (signals s i)) (sg_param (signals s i))
         (sloop_data s) s;
       if r < 0 then do {
         h \<leftarrow> dlist_del entry (heap s);
         free_signal i (s\<lparr>heap := h\<rparr>) }
       else Some s }
     else do {
       n \<leftarrow> get_nxt entry (heap s);
       sig_dispatch cb sig n s } })"

definition signal_part ::
    "('c, 'p) callbacks \<Rightarrow> int option \<Rightarrow> ('c, 'p) sloop \<Rightarrow> (bool \<times> ('c, 'p) sloop) option" where
  "signal_part cb rsig s = (case rsig of
     None \<Rightarrow> Some (False, s)
   | Some sig \<Rightarrow>
       if sig = 0 then Some (False, s) else do {
         e \<leftarrow> dlist_empty (Some H_signals) (heap s);
         if e then Some (False, s) else do {
           first \<leftarrow> get_nxt (Some H_signals) (heap s);
           s \<leftarrow> sig_dispatch cb sig first s;
           Some (terminate s, s) } })"

definition timeout_part ::
    "('c, 'p) callbacks \<Rightarrow> u32 \<Rightarrow> nat option \<Rightarrow> ('c, 'p) sloop \<Rightarrow> ('c, 'p) sloop option" where
  "timeout_part cb uptime entry_timeout s = (case entry_timeout of
     None \<Rightarrow> Some s
   | Some i \<Rightarrow> do {
       first \<leftarrow> get_nxt (Some H_timeout) (heap s);
       if first = Some (Tmo i)
         \<and> timercmp_ge \<lparr>tv_sec = uptime, tv_usec = 0\<rparr> (to_time (timeouts s i))
       then do {
         s \<leftarrow> cb_tmo cb (to_handler (timeouts s i)) (to_param (timeouts s i)) (sloop_data s) s;
         h \<leftarrow> dlist_del (Some (Tmo i)) (heap s);
         free_timeout i (s\<lparr>heap := h\<rparr>) }
       else Some s })"

partial_function (option) sock_dispatch ::
    "('c, 'p) callbacks \<Rightarrow> int list \<Rightarrow> sl_addr \<Rightarrow> sl_addr ptr \<Rightarrow> ('c, 'p) sloop \<Rightarrow> ('c, 'p) sloop option" where
  "sock_dispatch cb fds head entry s = (if entry = Some head then Some s else do {
     i \<leftarrow> sock_of entry;
     (res, s) \<leftarrow> (if sk_sock (sockets s i) \<in> set fds
       then cb_sock cb (sk_handler (sockets s i)) (sk_sock (sockets s i)) (sk_param (sockets s i))
         (sloop_data s) s
       else Some (0, s));
     n \<leftarrow> get_nxt entry (heap s);
     s \<leftarrow> (if res < 0 then do {
         h \<leftarrow> dlist_del (Some (Sock i)) (heap s);
         free_socket i (s\<lparr>heap := h\<rparr>) }
       else Some s);
     sock_dispatch cb fds head n s })"

definition sock_part ::
    "('c, 'p) callbacks \<Rightarrow> int list \<Rightarrow> sl_addr \<Rightarrow> ('c, 'p) sloop \<Rightarrow> ('c, 'p) sloop option" where
  "sock_part cb fds head s = do {
     e \<leftarrow> dlist_empty (Some head) (heap s);
     if e then Some s else do {
       first \<leftarrow> get_nxt (Some head) (heap s);
       sock_dispatch cb fds head first s } }"

text \<open>One pass of the \<^verbatim>\<open>while\<close> loop. The first component says whether the loop goes on
  (\<^verbatim>\<open>continue\<close> or the end of the body) or was left by \<^verbatim>\<open>break\<close>.\<close>

definition sloop_pass ::
    "('c, 'p) callbacks \<Rightarrow> sl_event \<Rightarrow> ('c, 'p) sloop \<Rightarrow> (bool \<times> ('c, 'p) sloop) option" where
  "sloop_pass cb ev s = do {
     entry_timeout \<leftarrow> first_timeout s;
     let tv = map_option (\<lambda>i. select_tv (ev_now1 ev) (to_time (timeouts s i))) entry_timeout;
     rfirst \<leftarrow> get_nxt (Some H_readers) (heap s);
     rl \<leftarrow> collect_fds (sockets s) (heap s) H_readers rfirst;
     wfirst \<leftarrow> get_nxt (Some H_writers) (heap s);
     wl \<leftarrow> collect_fds (sockets s) (heap s) H_writers wfirst;
     case ev_select ev (max_sock (signal_pipe s) rl wl + 1) (signal_pipe s # rl) wl tv of
       SelErr eintr \<Rightarrow> Some (eintr, s)
     | SelOk res rfds wfds \<Rightarrow> do {
         (brk, s) \<leftarrow> (if 0 < res \<and> signal_pipe s \<in> set rfds
           then signal_part cb (ev_sig ev) s else Some (False, s));
         if brk then Some (False, s) else do {
           s \<leftarrow> timeout_part cb (ev_now2 ev) entry_timeout s;
           if res \<le> 0 then Some (True, s) else do {
             s \<leftarrow> sock_part cb rfds H_readers s;
             s \<leftarrow> sock_part cb wfds H_writers s;
             Some (True, s) } } } }"

definition loop_cond :: "('c, 'p) sloop \<Rightarrow> bool option" where
  "loop_cond s = do {
     t \<leftarrow> dlist_empty (Some H_timeout) (heap s);
     r \<leftarrow> dlist_empty (Some H_readers) (heap s);
     w \<leftarrow> dlist_empty (Some H_writers) (heap s);
     g \<leftarrow> dlist_empty (Some H_signals) (heap s);
     Some (\<not> terminate s \<and> (\<not> t \<or> \<not> r \<or> \<not> w \<or> \<not> g)) }"

definition sloop_cleanup :: "('c, 'p) sloop \<Rightarrow> ('c, 'p) sloop option" where
  "sloop_cleanup s = do {
     s \<leftarrow> sloop_cancel_signal None s;
     s \<leftarrow> sloop_cancel_timeout None s;
     s \<leftarrow> sloop_cancel_read_sock None s;
     sloop_cancel_write_sock None s }"

text \<open>\<^verbatim>\<open>sloop_run\<close> over the passes the kernel lets happen: the first component says whether it
  has returned, or waits for the next pass.\<close>

fun sloop_run ::
    "('c, 'p) callbacks \<Rightarrow> sl_event list \<Rightarrow> ('c, 'p) sloop \<Rightarrow> (bool \<times> ('c, 'p) sloop) option" where
  "sloop_run cb [] s = do {
     c \<leftarrow> loop_cond s;
     if c then Some (False, s) else do { s \<leftarrow> sloop_cleanup s; Some (True, s) } }"
| "sloop_run cb (ev # evs) s = do {
     c \<leftarrow> loop_cond s;
     if c then do {
       (go, s) \<leftarrow> sloop_pass cb ev s;
       if go then sloop_run cb evs s else do { s \<leftarrow> sloop_cleanup s; Some (True, s) } }
     else do { s \<leftarrow> sloop_cleanup s; Some (True, s) } }"

section \<open>The abstract state and the invariant\<close>

text \<open>What the rings hold, list by list, as indices into the three arrays.\<close>

record sl_abs =
  a_fs :: "nat list"
  a_ft :: "nat list"
  a_fg :: "nat list"
  a_rd :: "nat list"
  a_wr :: "nat list"
  a_sg :: "nat list"
  a_tm :: "nat list"

fun lists_of :: "sl_abs \<Rightarrow> sl_addr \<rightharpoonup> sl_addr list" where
  "lists_of A H_free_sockets = Some (map Sock (a_fs A))"
| "lists_of A H_free_timeout = Some (map Tmo (a_ft A))"
| "lists_of A H_free_signals = Some (map Sig (a_fg A))"
| "lists_of A H_readers = Some (map Sock (a_rd A))"
| "lists_of A H_writers = Some (map Sock (a_wr A))"
| "lists_of A H_signals = Some (map Sig (a_sg A))"
| "lists_of A H_timeout = Some (map Tmo (a_tm A))"
| "lists_of A (Sock i) = None"
| "lists_of A (Tmo i) = None"
| "lists_of A (Sig i) = None"

text \<open>Deadlines are ordered as pairs of signed numbers.\<close>

definition tv_key :: "timeval \<Rightarrow> int \<times> int" where
  "tv_key t = (sint (tv_sec t), sint (tv_usec t))"

abbreviation deadline :: "('c, 'p) sloop \<Rightarrow> nat \<Rightarrow> int \<times> int" where
  "deadline s i \<equiv> tv_key (to_time (timeouts s i))"

text \<open>The invariant of the module: the rings hold the lists \<open>A\<close>, every record of the three
  arrays is on exactly one list of its kind, and the timeouts are in deadline order.\<close>

definition sl_ok :: "nat \<Rightarrow> nat \<Rightarrow> nat \<Rightarrow> ('c, 'p) sloop \<Rightarrow> sl_abs \<Rightarrow> bool" where
  "sl_ok ns nt ng s A \<longleftrightarrow>
     rings (heap s) (lists_of A) \<and>
     set (a_fs A @ a_rd A @ a_wr A) = {..<ns} \<and>
     set (a_ft A @ a_tm A) = {..<nt} \<and>
     set (a_fg A @ a_sg A) = {..<ng} \<and>
     sorted (map (deadline s) (a_tm A))"

definition tm_insert :: "(nat \<Rightarrow> int \<times> int) \<Rightarrow> nat \<Rightarrow> nat list \<Rightarrow> nat list" where
  "tm_insert k i l = takeWhile (\<lambda>j. k j \<le> k i) l @ i # dropWhile (\<lambda>j. k j \<le> k i) l"

lemma lists_of_upd [simp]:
  "(lists_of A)(H_free_sockets \<mapsto> map Sock xs) = lists_of (A\<lparr>a_fs := xs\<rparr>)"
  "(lists_of A)(H_free_timeout \<mapsto> map Tmo xs) = lists_of (A\<lparr>a_ft := xs\<rparr>)"
  "(lists_of A)(H_free_signals \<mapsto> map Sig xs) = lists_of (A\<lparr>a_fg := xs\<rparr>)"
  "(lists_of A)(H_readers \<mapsto> map Sock xs) = lists_of (A\<lparr>a_rd := xs\<rparr>)"
  "(lists_of A)(H_writers \<mapsto> map Sock xs) = lists_of (A\<lparr>a_wr := xs\<rparr>)"
  "(lists_of A)(H_signals \<mapsto> map Sig xs) = lists_of (A\<lparr>a_sg := xs\<rparr>)"
  "(lists_of A)(H_timeout \<mapsto> map Tmo xs) = lists_of (A\<lparr>a_tm := xs\<rparr>)"
  by (rule ext, case_tac x; simp)+

lemma nodes_lists_of:
  "Sock i \<in> nodes (lists_of A) \<longleftrightarrow> i \<in> set (a_fs A @ a_rd A @ a_wr A)"
  "Tmo i \<in> nodes (lists_of A) \<longleftrightarrow> i \<in> set (a_ft A @ a_tm A)"
  "Sig i \<in> nodes (lists_of A) \<longleftrightarrow> i \<in> set (a_fg A @ a_sg A)"
proof -
  have ex: "(\<exists>a xs. lists_of A a = Some xs \<and> P a xs) \<longleftrightarrow>
      P H_free_sockets (map Sock (a_fs A)) \<or> P H_free_timeout (map Tmo (a_ft A)) \<or>
      P H_free_signals (map Sig (a_fg A)) \<or> P H_readers (map Sock (a_rd A)) \<or>
      P H_writers (map Sock (a_wr A)) \<or> P H_signals (map Sig (a_sg A)) \<or>
      P H_timeout (map Tmo (a_tm A))" for P
    by (rule iffI, elim exE conjE, case_tac a, simp_all, elim disjE)
      (intro exI conjI, rule lists_of.simps, assumption)+
  show "Sock i \<in> nodes (lists_of A) \<longleftrightarrow> i \<in> set (a_fs A @ a_rd A @ a_wr A)"
    "Tmo i \<in> nodes (lists_of A) \<longleftrightarrow> i \<in> set (a_ft A @ a_tm A)"
    "Sig i \<in> nodes (lists_of A) \<longleftrightarrow> i \<in> set (a_fg A @ a_sg A)"
    unfolding nodes_iff ex by auto
qed

lemma sl_distinct:
  assumes "rings (heap s) (lists_of A)"
  shows "distinct (a_fs A @ a_rd A @ a_wr A)" and "distinct (a_ft A @ a_tm A)"
    and "distinct (a_fg A @ a_sg A)"
proof -
  note d = rings_distinct [OF assms] and e = rings_disjoint [OF assms]
  have "distinct (a_fs A)" "distinct (a_rd A)" "distinct (a_wr A)" "distinct (a_ft A)"
    "distinct (a_tm A)" "distinct (a_fg A)" "distinct (a_sg A)"
    using d [OF lists_of.simps(1)] d [OF lists_of.simps(2)] d [OF lists_of.simps(3)]
      d [OF lists_of.simps(4)] d [OF lists_of.simps(5)] d [OF lists_of.simps(6)]
      d [OF lists_of.simps(7)] by (simp_all add: distinct_map)
  moreover have "set (a_fs A) \<inter> set (a_rd A) = {}" "set (a_fs A) \<inter> set (a_wr A) = {}"
    "set (a_rd A) \<inter> set (a_wr A) = {}" "set (a_ft A) \<inter> set (a_tm A) = {}"
    "set (a_fg A) \<inter> set (a_sg A) = {}"
    using e [OF lists_of.simps(1,4)] e [OF lists_of.simps(1,5)] e [OF lists_of.simps(4,5)]
      e [OF lists_of.simps(2,7)] e [OF lists_of.simps(3,6)] by auto
  ultimately show "distinct (a_fs A @ a_rd A @ a_wr A)" "distinct (a_ft A @ a_tm A)"
    "distinct (a_fg A @ a_sg A)" by auto
qed

lemma timercmp_lt_key: "timercmp_lt a b \<longleftrightarrow> tv_key a < tv_key b"
  by (auto simp: timercmp_lt_def tv_key_def less_prod_def' dest: signed_word_eqI)

lemma timercmp_ge_key: "timercmp_ge a b \<longleftrightarrow> tv_key b \<le> tv_key a"
  by (auto simp: timercmp_ge_def tv_key_def less_eq_prod_def dest: signed_word_eqI [OF sym])

section \<open>Taking records from the pools and returning them\<close>

lemma get_socket_none:
  "rings (heap s) (lists_of A) \<Longrightarrow> a_fs A = [] \<Longrightarrow> get_socket s = Some (None, s)"
  using dl.empty_law [of "heap s" "lists_of A" H_free_sockets] by (simp add: get_socket_def)

lemma get_timeout_none:
  "rings (heap s) (lists_of A) \<Longrightarrow> a_ft A = [] \<Longrightarrow> get_timeout s = Some (None, s)"
  using dl.empty_law [of "heap s" "lists_of A" H_free_timeout] by (simp add: get_timeout_def)

lemma get_signal_none:
  "rings (heap s) (lists_of A) \<Longrightarrow> a_fg A = [] \<Longrightarrow> get_signal s = Some (None, s)"
  using dl.empty_law [of "heap s" "lists_of A" H_free_signals] by (simp add: get_signal_def)

lemma get_socket_some:
  assumes "rings (heap s) (lists_of A)" and "a_fs A = i # is"
  shows "\<exists>h. get_socket s = Some (Some i, s\<lparr>heap := h, sockets := (sockets s)(i :=
      (sockets s i)\<lparr>sk_flags := SLOOP_INUSED OR SLOOP_TYPE_SOCKET\<rparr>)\<rparr>)
    \<and> rings h (lists_of (A\<lparr>a_fs := is\<rparr>)) \<and> Sock i \<notin> nodes (lists_of (A\<lparr>a_fs := is\<rparr>))"
  using dl.pop_law [OF assms(1), of H_free_sockets "Sock i" "map Sock is"] assms(2)
  by (auto simp: get_socket_def)

lemma get_timeout_some:
  assumes "rings (heap s) (lists_of A)" and "a_ft A = i # is"
  shows "\<exists>h. get_timeout s = Some (Some i, s\<lparr>heap := h, timeouts := (timeouts s)(i :=
      (timeouts s i)\<lparr>to_flags := SLOOP_INUSED OR SLOOP_TYPE_TIMEOUT\<rparr>)\<rparr>)
    \<and> rings h (lists_of (A\<lparr>a_ft := is\<rparr>)) \<and> Tmo i \<notin> nodes (lists_of (A\<lparr>a_ft := is\<rparr>))"
  using dl.pop_law [OF assms(1), of H_free_timeout "Tmo i" "map Tmo is"] assms(2)
  by (auto simp: get_timeout_def)

lemma get_signal_some:
  assumes "rings (heap s) (lists_of A)" and "a_fg A = i # is"
  shows "\<exists>h. get_signal s = Some (Some i, s\<lparr>heap := h, signals := (signals s)(i :=
      (signals s i)\<lparr>sg_flags := SLOOP_INUSED OR SLOOP_TYPE_SIGNAL\<rparr>)\<rparr>)
    \<and> rings h (lists_of (A\<lparr>a_fg := is\<rparr>)) \<and> Sig i \<notin> nodes (lists_of (A\<lparr>a_fg := is\<rparr>))"
  using dl.pop_law [OF assms(1), of H_free_signals "Sig i" "map Sig is"] assms(2)
  by (auto simp: get_signal_def)

text \<open>Registering a socket moves one record from the free list to the front of the list; the
  null handle comes back exactly when the pool is exhausted.\<close>

lemma register_socket_none:
  "sl_ok ns nt ng s A \<Longrightarrow> a_fs A = [] \<Longrightarrow> register_socket f c p head s = Some (None, s)"
  using get_socket_none [of s A] by (simp add: register_socket_def sl_ok_def)

lemma register_socket_some:
  assumes R: "rings (heap s) (lists_of A)" and fs: "a_fs A = i # is"
    and head: "lists_of (A\<lparr>a_fs := is\<rparr>) head = Some xs"
  shows "\<exists>h sk. register_socket f c p head s = Some (Some i, s\<lparr>heap := h, sockets := (sockets s)(i := sk)\<rparr>)
    \<and> rings h ((lists_of (A\<lparr>a_fs := is\<rparr>))(head \<mapsto> Sock i # xs))
    \<and> sk_sock sk = f \<and> sk_handler sk = c \<and> sk_param sk = p"
proof -
  obtain h where g: "get_socket s = Some (Some i, s\<lparr>heap := h, sockets := (sockets s)(i :=
      (sockets s i)\<lparr>sk_flags := SLOOP_INUSED OR SLOOP_TYPE_SOCKET\<rparr>)\<rparr>)"
    and h: "rings h (lists_of (A\<lparr>a_fs := is\<rparr>))" "Sock i \<notin> nodes (lists_of (A\<lparr>a_fs := is\<rparr>))"
    using get_socket_some [OF R fs] by blast
  obtain h' where "dlist_add (Some (Sock i)) (Some head) h = Some h'"
      "rings h' ((lists_of (A\<lparr>a_fs := is\<rparr>))(head \<mapsto> Sock i # xs))"
    using dl.add_law [OF h(1) head h(2)] by blast
  with g show ?thesis
    by (intro exI [of _ h'] exI [of _ "(sockets s i)\<lparr>sk_flags := SLOOP_INUSED OR SLOOP_TYPE_SOCKET,
      sk_sock := f, sk_param := p, sk_handler := c\<rparr>"]) (simp add: register_socket_def)
qed

lemma register_readers:
  assumes ok: "sl_ok ns nt ng s A" and fs: "a_fs A = i # is"
  shows "\<exists>s'. sloop_register_read_sock f c p s = Some (Some i, s')
    \<and> sl_ok ns nt ng s' (A\<lparr>a_fs := is, a_rd := i # a_rd A\<rparr>)
    \<and> sk_sock (sockets s' i) = f \<and> sk_handler (sockets s' i) = c \<and> sk_param (sockets s' i) = p"
  using register_socket_some [of s A i "is" H_readers "map Sock (a_rd A)" f c p] assms
    lists_of_upd(4) [of "A\<lparr>a_fs := is\<rparr>" "i # a_rd A"]
  by (fastforce simp: sloop_register_read_sock_def sl_ok_def)

lemma register_writers:
  assumes ok: "sl_ok ns nt ng s A" and fs: "a_fs A = i # is"
  shows "\<exists>s'. sloop_register_write_sock f c p s = Some (Some i, s')
    \<and> sl_ok ns nt ng s' (A\<lparr>a_fs := is, a_wr := i # a_wr A\<rparr>)
    \<and> sk_sock (sockets s' i) = f \<and> sk_handler (sockets s' i) = c \<and> sk_param (sockets s' i) = p"
  using register_socket_some [of s A i "is" H_writers "map Sock (a_wr A)" f c p] assms
    lists_of_upd(5) [of "A\<lparr>a_fs := is\<rparr>" "i # a_wr A"]
  by (fastforce simp: sloop_register_write_sock_def sl_ok_def)

lemma register_signal_none:
  "sl_ok ns nt ng s A \<Longrightarrow> a_fg A = [] \<Longrightarrow> sloop_register_signal g c p s = Some (None, s)"
  using get_signal_none [of s A] by (simp add: sloop_register_signal_def sl_ok_def)

lemma register_signals:
  assumes ok: "sl_ok ns nt ng s A" and fs: "a_fg A = i # is"
  shows "\<exists>s'. sloop_register_signal g c p s = Some (Some i, s')
    \<and> sl_ok ns nt ng s' (A\<lparr>a_fg := is, a_sg := i # a_sg A\<rparr>)
    \<and> sg_sig (signals s' i) = g \<and> sg_handler (signals s' i) = c \<and> sg_param (signals s' i) = p
    \<and> sig_caught s' = (sig_caught s)(g := True)"
proof -
  have R: "rings (heap s) (lists_of A)" using ok by (simp add: sl_ok_def)
  obtain h where g: "get_signal s = Some (Some i, s\<lparr>heap := h, signals := (signals s)(i :=
      (signals s i)\<lparr>sg_flags := SLOOP_INUSED OR SLOOP_TYPE_SIGNAL\<rparr>)\<rparr>)"
    and h: "rings h (lists_of (A\<lparr>a_fg := is\<rparr>))" "Sig i \<notin> nodes (lists_of (A\<lparr>a_fg := is\<rparr>))"
    using get_signal_some [OF R fs] by blast
  obtain h' where "dlist_add (Some (Sig i)) (Some H_signals) h = Some h'"
      "rings h' (lists_of (A\<lparr>a_fg := is, a_sg := i # a_sg A\<rparr>))"
    using dl.add_law [OF h(1) lists_of.simps(6) h(2)]
      lists_of_upd(6) [of "A\<lparr>a_fg := is\<rparr>" "i # a_sg A"] by auto
  with g ok fs show ?thesis by (auto simp: sloop_register_signal_def sl_ok_def)
qed

section \<open>Timeouts in deadline order\<close>

lemma timeout_pos_walk:
  assumes "rings h R" and "R H_timeout = Some (map Tmo (ps @ xs @ ys))"
    and "\<forall>j \<in> set xs. tv_key (to_time (tms j)) \<le> tv_key t"
    and "ys = [] \<or> tv_key t < tv_key (to_time (tms (hd ys)))"
  shows "timeout_pos tms t h (Some (hd (map Tmo (xs @ ys) @ [H_timeout])))
    = Some (Some (hd (map Tmo ys @ [H_timeout])))"
  using assms
proof (induction xs arbitrary: ps)
  case Nil
  then show ?case
    by (cases ys) (simp_all add: timeout_pos.simps timercmp_lt_key)
next
  case (Cons x xs)
  have "get_nxt (Some (Tmo x)) h = Some (Some (hd (map Tmo (xs @ ys) @ [H_timeout])))"
    using dl.succ_law [OF Cons.prems(1), of H_timeout "map Tmo ps" "Tmo x" "map Tmo (xs @ ys)"]
      Cons.prems(2) by simp
  moreover have "timeout_pos tms t h (Some (hd (map Tmo (xs @ ys) @ [H_timeout])))
      = Some (Some (hd (map Tmo ys @ [H_timeout])))"
    by (rule Cons.IH [of "ps @ [x]"]) (use Cons.prems in auto)
  ultimately show ?case
    using Cons.prems(3) by (subst timeout_pos.simps) (simp add: timercmp_lt_key leD)
qed

lemma sorted_tm_insert:
  assumes "sorted (map k l)"
  shows "sorted (map k (tm_insert k i l))"
proof -
  define t d where "t = takeWhile (\<lambda>j. k j \<le> k i) l" and "d = dropWhile (\<lambda>j. k j \<le> k i) l"
  have l: "sorted (map k (t @ d))" using assms by (simp add: t_def d_def)
  have t: "k x \<le> k i" if "x \<in> set t" for x
    using that by (auto simp: t_def dest: set_takeWhileD)
  have d: "k i \<le> k y" if y: "y \<in> set d" for y
  proof -
    have "d \<noteq> []" using y by auto
    then have "\<not> k (hd d) \<le> k i" unfolding d_def by (rule hd_dropWhile)
    moreover have "k (hd d) \<le> k y" using l y by (cases d) (auto simp: sorted_append)
    ultimately show ?thesis by simp
  qed
  have "sorted (map k (t @ i # d))"
    using l t d by (auto simp: sorted_append intro: order_trans)
  then show ?thesis by (simp add: tm_insert_def t_def d_def)
qed

lemma set_tm_insert: "set (tm_insert k i l) = insert i (set l)"
proof -
  have "set (takeWhile (\<lambda>j. k j \<le> k i) l) \<union> set (dropWhile (\<lambda>j. k j \<le> k i) l) = set l"
    by (metis set_append takeWhile_dropWhile_id)
  then show ?thesis by (auto simp: tm_insert_def)
qed

lemma register_timeout_none:
  "sl_ok ns nt ng s A \<Longrightarrow> a_ft A = [] \<Longrightarrow> sloop_register_timeout now sec usec c p s = Some (None, s)"
  using get_timeout_none [of s A] by (simp add: sloop_register_timeout_def sl_ok_def)

lemma insert_timeout:
  assumes R: "rings h (lists_of A)" and new: "Tmo i \<notin> nodes (lists_of A)"
    and srt: "sorted (map (\<lambda>j. tv_key (to_time (tms j))) (a_tm A))"
  defines "l \<equiv> tm_insert (\<lambda>j. tv_key (to_time (tms j))) i (a_tm A)"
  shows "\<exists>h1 h2. INIT_DLIST_HEAD (Some (Tmo i)) h = Some h1
    \<and> (if a_tm A = [] then dlist_empty (Some H_timeout) h1 = Some True
          \<and> dlist_add (Some (Tmo i)) (Some H_timeout) h1 = Some h2
        else dlist_empty (Some H_timeout) h1 = Some False
          \<and> (\<exists>first pos. get_nxt (Some H_timeout) h1 = Some first
            \<and> timeout_pos tms (to_time (tms i)) h1 first = Some pos
            \<and> dlist_add_tail (Some (Tmo i)) pos h1 = Some h2))
    \<and> rings h2 (lists_of (A\<lparr>a_tm := l\<rparr>))"
proof -
  define k where "k = (\<lambda>j. tv_key (to_time (tms j)))"
  define xs ys where "xs = takeWhile (\<lambda>j. k j \<le> k i) (a_tm A)"
    and "ys = dropWhile (\<lambda>j. k j \<le> k i) (a_tm A)"
  have tm: "a_tm A = xs @ ys" and l: "l = xs @ i # ys"
    by (simp_all add: xs_def ys_def l_def tm_insert_def k_def)
  obtain h1 where h1: "INIT_DLIST_HEAD (Some (Tmo i)) h = Some h1" "rings h1 (lists_of A)"
    using dl.init_fresh [OF R new] by blast
  have A: "lists_of A H_timeout = Some (map Tmo xs @ map Tmo ys)" by (simp add: tm)
  have e: "dlist_empty (Some H_timeout) h1 = Some (a_tm A = [])"
    using dl.empty_law [OF h1(2) lists_of.simps(7)] by simp
  have f: "get_nxt (Some H_timeout) h1 = Some (Some (hd (map Tmo (xs @ ys) @ [H_timeout])))"
    using dl.first_law [OF h1(2) A] by simp
  have p: "timeout_pos tms (to_time (tms i)) h1 (Some (hd (map Tmo (xs @ ys) @ [H_timeout])))
      = Some (Some (hd (map Tmo ys @ [H_timeout])))"
  proof (rule timeout_pos_walk [OF h1(2), of "[]"])
    show "\<forall>j\<in>set xs. tv_key (to_time (tms j)) \<le> tv_key (to_time (tms i))"
      by (auto simp: xs_def k_def dest: set_takeWhileD)
    show "ys = [] \<or> tv_key (to_time (tms i)) < tv_key (to_time (tms (hd ys)))"
      using hd_dropWhile [of "\<lambda>j. k j \<le> k i" "a_tm A"] unfolding ys_def [symmetric]
      by (cases "ys = []") (simp_all add: k_def not_le)
  qed (simp add: tm)
  obtain h2 where h2: "dlist_add_tail (Some (Tmo i)) (Some (hd (map Tmo ys @ [H_timeout]))) h1 = Some h2"
      "rings h2 ((lists_of A)(H_timeout \<mapsto> map Tmo xs @ Tmo i # map Tmo ys))"
    using dl.add_before_law [OF h1(2) A new] by blast
  have h2': "rings h2 (lists_of (A\<lparr>a_tm := l\<rparr>))"
    using h2(2) lists_of_upd(7) [of A l] by (simp add: l)
  show ?thesis
  proof (cases "a_tm A = []")
    case True
    obtain h3 where "dlist_add (Some (Tmo i)) (Some H_timeout) h1 = Some h3"
        "rings h3 (lists_of (A\<lparr>a_tm := l\<rparr>))"
      using dl.add_law [OF h1(2) lists_of.simps(7) new] lists_of_upd(7) [of A l] True tm
      by (auto simp: l)
    with h1(1) e True show ?thesis by auto
  next
    case False
    then show ?thesis using h1(1) e f p h2(1) h2' by auto
  qed
qed

lemma register_timeouts:
  assumes ok: "sl_ok ns nt ng s A" and ft: "a_ft A = i # is"
  shows "\<exists>s'. sloop_register_timeout now sec usec c p s = Some (Some i, s')
    \<and> sl_ok ns nt ng s' (A\<lparr>a_ft := is, a_tm := tm_insert (deadline s') i (a_tm A)\<rparr>)
    \<and> to_time (timeouts s' i) = norm_usec \<lparr>tv_sec = now + sec, tv_usec = usec\<rparr>
    \<and> to_handler (timeouts s' i) = c \<and> to_param (timeouts s' i) = p
    \<and> (\<forall>j. j \<noteq> i \<longrightarrow> timeouts s' j = timeouts s j)"
proof -
  have R: "rings (heap s) (lists_of A)" using ok by (simp add: sl_ok_def)
  let ?t = "norm_usec \<lparr>tv_sec = now + sec, tv_usec = usec\<rparr>"
  let ?r = "(timeouts s i)\<lparr>to_flags := SLOOP_INUSED OR SLOOP_TYPE_TIMEOUT,
      to_time := ?t, to_handler := c, to_param := p\<rparr>"
  define tms where "tms = (timeouts s)(i := ?r)"
  define k where "k = (\<lambda>j. tv_key (to_time (tms j)))"
  let ?A = "A\<lparr>a_ft := is\<rparr>"
  obtain h where g: "get_timeout s = Some (Some i, s\<lparr>heap := h, timeouts := (timeouts s)(i :=
      (timeouts s i)\<lparr>to_flags := SLOOP_INUSED OR SLOOP_TYPE_TIMEOUT\<rparr>)\<rparr>)"
    and h: "rings h (lists_of ?A)" and new: "Tmo i \<notin> nodes (lists_of ?A)"
    using get_timeout_some [OF R ft] by blast
  have "i \<notin> set (a_tm A)" using new by (simp add: nodes_lists_of)
  then have mk: "map k (a_tm A) = map (deadline s) (a_tm A)"
    by (auto simp: k_def tms_def)
  have srt: "sorted (map k (a_tm A))" using ok unfolding mk sl_ok_def by blast
  have ti: "to_time (tms i) = ?t" by (simp add: tms_def)
  have "\<exists>h1 h2. INIT_DLIST_HEAD (Some (Tmo i)) h = Some h1
    \<and> (if a_tm A = [] then dlist_empty (Some H_timeout) h1 = Some True
          \<and> dlist_add (Some (Tmo i)) (Some H_timeout) h1 = Some h2
        else dlist_empty (Some H_timeout) h1 = Some False
          \<and> (\<exists>first pos. get_nxt (Some H_timeout) h1 = Some first
            \<and> timeout_pos tms ?t h1 first = Some pos
            \<and> dlist_add_tail (Some (Tmo i)) pos h1 = Some h2))
    \<and> rings h2 (lists_of (A\<lparr>a_ft := is, a_tm := tm_insert k i (a_tm A)\<rparr>))"
    using insert_timeout [OF h new, of tms] srt unfolding ti k_def by simp
  then obtain h1 h2 where 1: "INIT_DLIST_HEAD (Some (Tmo i)) h = Some h1"
    and 2: "if a_tm A = [] then dlist_empty (Some H_timeout) h1 = Some True
          \<and> dlist_add (Some (Tmo i)) (Some H_timeout) h1 = Some h2
        else dlist_empty (Some H_timeout) h1 = Some False
          \<and> (\<exists>first pos. get_nxt (Some H_timeout) h1 = Some first
            \<and> timeout_pos tms ?t h1 first = Some pos
            \<and> dlist_add_tail (Some (Tmo i)) pos h1 = Some h2)"
    and 3: "rings h2 (lists_of (A\<lparr>a_ft := is, a_tm := tm_insert k i (a_tm A)\<rparr>))"
    by blast
  let ?s = "s\<lparr>heap := h2, timeouts := tms\<rparr>"
  have "sloop_register_timeout now sec usec c p s = Some (Some i, ?s)"
    using g 1 2 by (cases "a_tm A = []") (auto simp: sloop_register_timeout_def tms_def)
  moreover have ds: "deadline ?s = k" by (simp add: k_def)
  have "sl_ok ns nt ng ?s (A\<lparr>a_ft := is, a_tm := tm_insert (deadline ?s) i (a_tm A)\<rparr>)"
    using ok 3 ft sorted_tm_insert [OF srt, of i] unfolding ds
    by (auto simp: sl_ok_def set_tm_insert k_def)
  moreover have "to_time (timeouts ?s i) = ?t" "to_handler (timeouts ?s i) = c"
    "to_param (timeouts ?s i) = p" "\<forall>j. j \<noteq> i \<longrightarrow> timeouts ?s j = timeouts s j"
    by (simp_all add: tms_def)
  ultimately show ?thesis by (intro exI [of _ ?s]) simp
qed

section \<open>Cancelling\<close>

text \<open>Socket records sit on the reader or the writer list; \<open>sk_list\<close> and \<open>sk_set\<close> select the
  list by its head.\<close>

definition sk_list :: "sl_addr \<Rightarrow> sl_abs \<Rightarrow> nat list" where
  "sk_list head A = (if head = H_readers then a_rd A else a_wr A)"

definition sk_set :: "sl_addr \<Rightarrow> nat list \<Rightarrow> sl_abs \<Rightarrow> sl_abs" where
  "sk_set head l A = (if head = H_readers then A\<lparr>a_rd := l\<rparr> else A\<lparr>a_wr := l\<rparr>)"

abbreviation sk_heads :: "sl_addr set" where "sk_heads \<equiv> {H_readers, H_writers}"

lemma sk_lists_of: "head \<in> sk_heads \<Longrightarrow> lists_of A head = Some (map Sock (sk_list head A))"
  by (auto simp: sk_list_def)

lemma sk_set_upd:
  "head \<in> sk_heads \<Longrightarrow> (lists_of A)(head \<mapsto> map Sock l) = lists_of (sk_set head l A)"
  by (auto simp: sk_set_def)

lemma sk_sel [simp]:
  "a_fs (sk_set head l A) = a_fs A" "a_ft (sk_set head l A) = a_ft A"
  "a_fg (sk_set head l A) = a_fg A" "a_sg (sk_set head l A) = a_sg A"
  "a_tm (sk_set head l A) = a_tm A" "sk_list head (sk_set head l A) = l"
  "sk_list head (A\<lparr>a_fs := m\<rparr>) = sk_list head A"
  by (simp_all add: sk_set_def sk_list_def)

lemma sk_set_nodes:
  "head \<in> sk_heads \<Longrightarrow> sk_list head A = xs @ i # ys \<Longrightarrow>
   set (a_rd (sk_set head (xs @ ys) A)) \<union> set (a_wr (sk_set head (xs @ ys) A)) \<union> {i}
     = set (a_rd A) \<union> set (a_wr A)"
  by (auto simp: sk_set_def sk_list_def split: if_splits)

text \<open>\<open>del\<close> then \<open>free\<close>: how every branch of the module retires a record.\<close>

lemma release_socket:
  assumes ok: "sl_ok ns nt ng s A" and hd: "head \<in> sk_heads" and l: "sk_list head A = xs @ i # ys"
  shows "\<exists>h s'. dlist_del (Some (Sock i)) (heap s) = Some h
    \<and> free_socket i (s\<lparr>heap := h\<rparr>) = Some s'
    \<and> sl_ok ns nt ng s' ((sk_set head (xs @ ys) A)\<lparr>a_fs := i # a_fs A\<rparr>)
    \<and> (\<forall>j. sk_sock (sockets s' j) = sk_sock (sockets s j))"
proof -
  have R: "rings (heap s) (lists_of A)" using ok by (simp add: sl_ok_def)
  have "lists_of A head = Some (map Sock xs @ Sock i # map Sock ys)" and "head \<noteq> H_free_sockets"
    using sk_lists_of [OF hd, of A] l hd by auto
  then obtain h1 h2 where h: "dlist_del (Some (Sock i)) (heap s) = Some h1"
      "dlist_add (Some (Sock i)) (Some H_free_sockets) h1 = Some h2"
      "rings h2 ((lists_of A)(head \<mapsto> map Sock (xs @ ys), H_free_sockets \<mapsto> map Sock (i # a_fs A)))"
    using dl.move_law [OF R _ lists_of.simps(1), of head "map Sock xs" "Sock i" "map Sock ys"] by auto
  have "rings h2 (lists_of ((sk_set head (xs @ ys) A)\<lparr>a_fs := i # a_fs A\<rparr>))"
    using h(3) lists_of_upd(1) [of "sk_set head (xs @ ys) A" "i # a_fs A"]
    by (simp only: sk_set_upd [OF hd])
  moreover have "insert i (set (a_fs A) \<union> (set (a_rd (sk_set head (xs @ ys) A))
      \<union> set (a_wr (sk_set head (xs @ ys) A)))) = {..<ns}"
    using ok sk_set_nodes [OF hd l] by (auto simp: sl_ok_def)
  ultimately show ?thesis using h ok by (auto simp: free_socket_def sl_ok_def)
qed

lemma release_timeout:
  assumes ok: "sl_ok ns nt ng s A" and l: "a_tm A = xs @ i # ys"
  shows "\<exists>h s'. dlist_del (Some (Tmo i)) (heap s) = Some h
    \<and> free_timeout i (s\<lparr>heap := h\<rparr>) = Some s'
    \<and> sl_ok ns nt ng s' (A\<lparr>a_tm := xs @ ys, a_ft := i # a_ft A\<rparr>)
    \<and> (\<forall>j. deadline s' j = deadline s j)"
proof -
  have R: "rings (heap s) (lists_of A)" using ok by (simp add: sl_ok_def)
  obtain h1 h2 where h: "dlist_del (Some (Tmo i)) (heap s) = Some h1"
      "dlist_add (Some (Tmo i)) (Some H_free_timeout) h1 = Some h2"
      "rings h2 ((lists_of A)(H_timeout \<mapsto> map Tmo (xs @ ys), H_free_timeout \<mapsto> map Tmo (i # a_ft A)))"
    using dl.move_law [OF R _ lists_of.simps(2), of H_timeout "map Tmo xs" "Tmo i" "map Tmo ys"] l
    by auto
  have 2: "rings h2 (lists_of (A\<lparr>a_tm := xs @ ys, a_ft := i # a_ft A\<rparr>))"
    using h(3) lists_of_upd(2) [of "A\<lparr>a_tm := xs @ ys\<rparr>" "i # a_ft A"]
    by (simp only: lists_of_upd)
  let ?s = "s\<lparr>heap := h2, timeouts := (timeouts s)(i :=
       (timeouts s i)\<lparr>to_flags := to_flags (timeouts s i) AND NOT SLOOP_INUSED\<rparr>)\<rparr>"
  have d: "deadline ?s j = deadline s j" for j by simp
  have "sorted (map (deadline s) (xs @ ys))"
    using ok l by (simp add: sl_ok_def sorted_append)
  then have "sorted (map (deadline ?s) (xs @ ys))" unfolding d .
  moreover have "free_timeout i (s\<lparr>heap := h1\<rparr>) = Some ?s" using h(2) by (simp add: free_timeout_def)
  moreover have "insert i (set (a_ft A) \<union> set (xs @ ys)) = {..<nt}" using ok l by (auto simp: sl_ok_def)
  ultimately show ?thesis using h(1) 2 ok by (intro exI [of _ h1] exI [of _ ?s]) (simp add: sl_ok_def)
qed

lemma release_signal:
  assumes ok: "sl_ok ns nt ng s A" and l: "a_sg A = xs @ i # ys"
  shows "\<exists>h s'. dlist_del (Some (Sig i)) (heap s) = Some h
    \<and> free_signal i (s\<lparr>heap := h\<rparr>) = Some s'
    \<and> sl_ok ns nt ng s' (A\<lparr>a_sg := xs @ ys, a_fg := i # a_fg A\<rparr>)
    \<and> sig_caught s' = sig_caught s \<and> (\<forall>j. sg_sig (signals s' j) = sg_sig (signals s j))"
proof -
  have R: "rings (heap s) (lists_of A)" using ok by (simp add: sl_ok_def)
  obtain h1 h2 where h: "dlist_del (Some (Sig i)) (heap s) = Some h1"
      "dlist_add (Some (Sig i)) (Some H_free_signals) h1 = Some h2"
      "rings h2 ((lists_of A)(H_signals \<mapsto> map Sig (xs @ ys), H_free_signals \<mapsto> map Sig (i # a_fg A)))"
    using dl.move_law [OF R _ lists_of.simps(3), of H_signals "map Sig xs" "Sig i" "map Sig ys"] l
    by auto
  have "rings h2 (lists_of (A\<lparr>a_sg := xs @ ys, a_fg := i # a_fg A\<rparr>))"
    using h(3) lists_of_upd(3) [of "A\<lparr>a_sg := xs @ ys\<rparr>" "i # a_fg A"]
    by (simp only: lists_of_upd)
  moreover have "insert i (set (a_fg A) \<union> set (xs @ ys)) = {..<ng}" using ok l by (auto simp: sl_ok_def)
  ultimately show ?thesis using h ok by (auto simp: free_signal_def sl_ok_def)
qed

lemma cancel_reg_socket:
  "sl_ok ns nt ng s A \<Longrightarrow> head \<in> sk_heads \<Longrightarrow> sk_list head A = xs @ i # ys \<Longrightarrow>
   \<exists>s'. cancel_socket (Some i) head s = Some s'
     \<and> sl_ok ns nt ng s' ((sk_set head (xs @ ys) A)\<lparr>a_fs := i # a_fs A\<rparr>)
     \<and> (\<forall>j. sk_sock (sockets s' j) = sk_sock (sockets s j))"
  using release_socket [of ns nt ng s A head xs i ys] by (fastforce simp: cancel_socket_def)

lemma cancel_reg_timeout:
  "sl_ok ns nt ng s A \<Longrightarrow> a_tm A = xs @ i # ys \<Longrightarrow>
   \<exists>s'. sloop_cancel_timeout (Some i) s = Some s'
     \<and> sl_ok ns nt ng s' (A\<lparr>a_tm := xs @ ys, a_ft := i # a_ft A\<rparr>)"
  using release_timeout [of ns nt ng s A xs i ys] by (fastforce simp: sloop_cancel_timeout_def)

lemma sl_ok_caught [simp]: "sl_ok ns nt ng (s\<lparr>sig_caught := f\<rparr>) A = sl_ok ns nt ng s A"
  by (simp add: sl_ok_def)

lemma cancel_reg_signal:
  assumes "sl_ok ns nt ng s A" and "a_sg A = xs @ i # ys"
  shows "\<exists>s'. sloop_cancel_signal (Some i) s = Some s'
     \<and> sl_ok ns nt ng s' (A\<lparr>a_sg := xs @ ys, a_fg := i # a_fg A\<rparr>)
     \<and> sig_caught s' = (sig_caught s)(sg_sig (signals s i) := False)"
  using release_signal [of ns nt ng "s\<lparr>sig_caught := (sig_caught s)(sg_sig (signals s i) := False)\<rparr>" A xs i ys]
    assms by (auto simp: sloop_cancel_signal_def Let_def)

text \<open>The null handle: each loop ends with its list empty and every record on the free list.\<close>

lemma sk_set_again [simp]:
  "(sk_set head l ((sk_set head m A)\<lparr>a_fs := f\<rparr>))\<lparr>a_fs := g\<rparr> = (sk_set head l A)\<lparr>a_fs := g\<rparr>"
  by (simp add: sk_set_def)

lemma drain_sockets:
  assumes "sl_ok ns nt ng s A" and "head \<in> sk_heads"
  shows "\<exists>s' fs. cancel_all_sockets head s = Some s' \<and> sl_ok ns nt ng s' ((sk_set head [] A)\<lparr>a_fs := fs\<rparr>)"
  using assms
proof (induction "sk_list head A" arbitrary: s A)
  case Nil
  have "dlist_empty (Some head) (heap s) = Some True"
    using dl.empty_law [of "heap s" "lists_of A" head "map Sock (sk_list head A)"]
      sk_lists_of [OF Nil(3), of A] Nil.hyps [symmetric] Nil.prems(1) by (simp add: sl_ok_def)
  moreover have "(sk_set head [] A)\<lparr>a_fs := a_fs A\<rparr> = A"
    using Nil.hyps by (auto simp: sk_set_def sk_list_def split: if_splits)
  ultimately show ?case
    using Nil.prems(1) by (intro exI [of _ s] exI [of _ "a_fs A"]) (simp add: cancel_all_sockets.simps)
next
  case (Cons i l)
  have l: "sk_list head A = [] @ i # l" using Cons.hyps(2) by simp
  have "lists_of A head = Some (Sock i # map Sock l)"
    using sk_lists_of [OF Cons.prems(2), of A] Cons.hyps(2) [symmetric] by simp
  then have e: "dlist_empty (Some head) (heap s) = Some False"
      "get_nxt (Some head) (heap s) = Some (Some (Sock i))"
    using dl.pop_law(1,2) [of "heap s" "lists_of A" head] Cons.prems(1) by (simp_all add: sl_ok_def)
  obtain h s1 where s1: "dlist_del (Some (Sock i)) (heap s) = Some h"
      "free_socket i (s\<lparr>heap := h\<rparr>) = Some s1"
      "sl_ok ns nt ng s1 ((sk_set head l A)\<lparr>a_fs := i # a_fs A\<rparr>)"
    using release_socket [OF Cons.prems l] by auto
  obtain s' fs where "cancel_all_sockets head s1 = Some s'"
      "sl_ok ns nt ng s' ((sk_set head [] A)\<lparr>a_fs := fs\<rparr>)"
    using Cons.hyps(1) [OF _ s1(3) Cons.prems(2)] by auto
  with e s1 show ?case by (subst cancel_all_sockets.simps) auto
qed

lemma drain_timeouts:
  assumes "sl_ok ns nt ng s A"
  shows "\<exists>s' ft. cancel_all_timeouts s = Some s' \<and> sl_ok ns nt ng s' (A\<lparr>a_tm := [], a_ft := ft\<rparr>)"
  using assms
proof (induction "a_tm A" arbitrary: s A)
  case Nil
  have "dlist_empty (Some H_timeout) (heap s) = Some True"
    using dl.empty_law [of "heap s" "lists_of A" H_timeout] Nil by (simp add: sl_ok_def)
  moreover have "A\<lparr>a_tm := [], a_ft := a_ft A\<rparr> = A" using Nil.hyps by simp
  ultimately show ?case
    using Nil.prems(1) by (intro exI [of _ s] exI [of _ "a_ft A"]) (simp add: cancel_all_timeouts.simps)
next
  case (Cons i l)
  have l: "a_tm A = [] @ i # l" using Cons.hyps(2) by simp
  then have e: "dlist_empty (Some H_timeout) (heap s) = Some False"
      "get_nxt (Some H_timeout) (heap s) = Some (Some (Tmo i))"
    using dl.pop_law(1,2) [of "heap s" "lists_of A" H_timeout] Cons.prems(1) by (simp_all add: sl_ok_def)
  obtain h s1 where s1: "dlist_del (Some (Tmo i)) (heap s) = Some h"
      "free_timeout i (s\<lparr>heap := h\<rparr>) = Some s1"
      "sl_ok ns nt ng s1 (A\<lparr>a_tm := l, a_ft := i # a_ft A\<rparr>)"
    using release_timeout [OF Cons.prems l] by auto
  obtain s' ft where "cancel_all_timeouts s1 = Some s'" "sl_ok ns nt ng s' (A\<lparr>a_tm := [], a_ft := ft\<rparr>)"
    using Cons.hyps(1) [OF _ s1(3)] by auto
  with e s1 show ?case by (subst cancel_all_timeouts.simps) auto
qed

lemma drain_signals:
  assumes "sl_ok ns nt ng s A"
  shows "\<exists>s' fg. cancel_all_signals s = Some s' \<and> sl_ok ns nt ng s' (A\<lparr>a_sg := [], a_fg := fg\<rparr>)
    \<and> (\<forall>g. sig_caught s' g \<longleftrightarrow> sig_caught s g \<and> g \<notin> (\<lambda>i. sg_sig (signals s i)) ` set (a_sg A))"
  using assms
proof (induction "a_sg A" arbitrary: s A)
  case Nil
  have "dlist_empty (Some H_signals) (heap s) = Some True"
    using dl.empty_law [of "heap s" "lists_of A" H_signals] Nil by (simp add: sl_ok_def)
  moreover have "A\<lparr>a_sg := [], a_fg := a_fg A\<rparr> = A" using Nil.hyps by simp
  then have "sl_ok ns nt ng s (A\<lparr>a_sg := [], a_fg := a_fg A\<rparr>)" using Nil.prems by simp
  ultimately show ?case
    using Nil.hyps [symmetric]
    by (intro exI [of _ s] exI [of _ "a_fg A"]) (simp add: cancel_all_signals.simps)
next
  case (Cons i l)
  let ?s = "s\<lparr>sig_caught := (sig_caught s)(sg_sig (signals s i) := False)\<rparr>"
  have l: "a_sg A = [] @ i # l" using Cons.hyps(2) by simp
  then have e: "dlist_empty (Some H_signals) (heap s) = Some False"
      "get_nxt (Some H_signals) (heap s) = Some (Some (Sig i))"
    using dl.pop_law(1,2) [of "heap s" "lists_of A" H_signals] Cons.prems(1) by (simp_all add: sl_ok_def)
  obtain h s1 where s1: "dlist_del (Some (Sig i)) (heap ?s) = Some h"
      "free_signal i (?s\<lparr>heap := h\<rparr>) = Some s1"
      "sl_ok ns nt ng s1 (A\<lparr>a_sg := l, a_fg := i # a_fg A\<rparr>)"
      "sig_caught s1 = sig_caught ?s" "\<forall>j. sg_sig (signals s1 j) = sg_sig (signals s j)"
    using release_signal [of ns nt ng ?s A, OF _ l] Cons.prems by auto
  obtain s' fg where "cancel_all_signals s1 = Some s'" "sl_ok ns nt ng s' (A\<lparr>a_sg := [], a_fg := fg\<rparr>)"
      "\<forall>g. sig_caught s' g \<longleftrightarrow> sig_caught s1 g \<and> g \<notin> (\<lambda>i. sg_sig (signals s1 i)) ` set l"
    using Cons.hyps(1) [OF _ s1(3)] by auto
  moreover have "set (a_sg A) = insert i (set l)" by (simp add: l)
  ultimately show ?case using e s1 by (subst cancel_all_signals.simps) (auto simp: Let_def)
qed

definition all_free :: "sl_abs \<Rightarrow> bool" where
  "all_free A \<longleftrightarrow> a_rd A = [] \<and> a_wr A = [] \<and> a_sg A = [] \<and> a_tm A = []"

lemma cleanup_frees:
  assumes ok: "sl_ok ns nt ng s A"
  shows "\<exists>s' A'. sloop_cleanup s = Some s' \<and> sl_ok ns nt ng s' A' \<and> all_free A'"
proof -
  obtain s1 fg where 1: "cancel_all_signals s = Some s1" "sl_ok ns nt ng s1 (A\<lparr>a_sg := [], a_fg := fg\<rparr>)"
    using drain_signals [OF ok] by blast
  obtain s2 ft where 2: "cancel_all_timeouts s1 = Some s2"
      "sl_ok ns nt ng s2 (A\<lparr>a_sg := [], a_fg := fg, a_tm := [], a_ft := ft\<rparr>)"
    using drain_timeouts [OF 1(2)] by blast
  obtain s3 A3 where 3: "cancel_all_sockets H_readers s2 = Some s3" "sl_ok ns nt ng s3 A3"
      "a_sg A3 = [] \<and> a_tm A3 = [] \<and> a_rd A3 = []"
    using drain_sockets [OF 2(2), of H_readers] by (auto simp: sk_set_def)
  obtain s4 fs where 4: "cancel_all_sockets H_writers s3 = Some s4"
      "sl_ok ns nt ng s4 (A3\<lparr>a_wr := [], a_fs := fs\<rparr>)"
    using drain_sockets [OF 3(2), of H_writers] by (auto simp: sk_set_def)
  show ?thesis
    using 1(1) 2(1) 3(1,3) 4 by (intro exI [of _ s4] exI [of _ "A3\<lparr>a_wr := [], a_fs := fs\<rparr>"])
      (simp add: sloop_cleanup_def sloop_cancel_signal_def sloop_cancel_timeout_def
        sloop_cancel_read_sock_def sloop_cancel_write_sock_def cancel_socket_def all_free_def)
qed

section \<open>Initialisation\<close>

lemma pool_fill_rings:
  assumes "rings h R" and "R head = Some xs" and "inj node" and "distinct is"
    and "\<And>i. i \<in> set is \<Longrightarrow> node i \<notin> nodes R"
  shows "\<exists>h'. pool_fill node head is h = Some h' \<and> rings h' (R(head \<mapsto> map node (rev is) @ xs))"
  using assms
proof (induction "is" arbitrary: h R xs)
  case Nil
  then show ?case by (auto simp: fun_upd_idem)
next
  case (Cons i "is")
  obtain h1 where h1: "dlist_add (Some (node i)) (Some head) h = Some h1"
      "rings h1 (R(head \<mapsto> node i # xs))"
    using dl.add_law [OF Cons.prems(1,2)] Cons.prems(5) by auto
  have "node j \<notin> nodes (R(head \<mapsto> node i # xs))" if j: "j \<in> set is" for j
  proof -
    have "node j \<noteq> node i" using Cons.prems(3,4) j by (auto dest: injD)
    moreover have "node j \<notin> nodes R" using Cons.prems(5) j by simp
    ultimately show ?thesis using Cons.prems(2) by (auto simp: nodes_iff split: if_splits)
  qed
  note fresh = this
  have "\<exists>h'. pool_fill node head is h1 = Some h'
      \<and> rings h' ((R(head \<mapsto> node i # xs))(head \<mapsto> map node (rev is) @ node i # xs))"
    by (rule Cons.IH [OF h1(2) _ Cons.prems(3) _ fresh]) (use Cons.prems(4) in simp_all)
  then obtain h' where "pool_fill node head is h1 = Some h'"
      "rings h' (R(head \<mapsto> map node (rev (i # is)) @ xs))" by auto
  then show ?case unfolding pool_fill.simps h1(1) bind.bind_lunit by blast
qed

definition no_lists :: sl_abs where
  "no_lists = \<lparr>a_fs = [], a_ft = [], a_fg = [], a_rd = [], a_wr = [], a_sg = [], a_tm = []\<rparr>"

lemma rings_heads:
  assumes "\<And>a. \<not> is_node a \<Longrightarrow> nxt h a = Some a \<and> prv h a = Some a"
  shows "rings h (lists_of no_lists)"
proof -
  have e: "xs = [] \<and> \<not> is_node a" if "lists_of no_lists a = Some xs" for a xs
    using that by (cases a) (auto simp: no_lists_def)
  show ?thesis
    unfolding rings_def
  proof (intro conjI allI impI)
    show "ring h a xs" if "lists_of no_lists a = Some xs" for a xs
      using e [OF that] assms [of a] by (simp add: ring_def)
    show "set (a # xs) \<inter> set (b # ys) = {}"
      if "lists_of no_lists a = Some xs" "lists_of no_lists b = Some ys" "a \<noteq> b" for a b xs ys
      using e [OF that(1)] e [OF that(2)] that(3) by simp
  qed
qed

definition sl_fresh :: "nat \<Rightarrow> nat \<Rightarrow> nat \<Rightarrow> sl_abs" where
  "sl_fresh ns nt ng = no_lists\<lparr>a_fs := rev [0..<ns], a_ft := rev [0..<nt], a_fg := rev [0..<ng]\<rparr>"

lemma init_pools:
  assumes "rings h (lists_of no_lists)"
  shows "\<exists>h1 h2 h3. pool_fill Sock H_free_sockets [0..<ns] h = Some h1
    \<and> pool_fill Tmo H_free_timeout [0..<nt] h1 = Some h2
    \<and> pool_fill Sig H_free_signals [0..<ng] h2 = Some h3 \<and> rings h3 (lists_of (sl_fresh ns nt ng))"
proof -
  let ?A = "no_lists\<lparr>a_fs := rev [0..<ns]\<rparr>" and ?B = "no_lists\<lparr>a_fs := rev [0..<ns], a_ft := rev [0..<nt]\<rparr>"
  obtain h1 where 1: "pool_fill Sock H_free_sockets [0..<ns] h = Some h1" "rings h1 (lists_of ?A)"
    using pool_fill_rings [OF assms lists_of.simps(1), of Sock "[0..<ns]"] lists_of_upd(1) [of no_lists]
    by (auto simp: nodes_lists_of inj_def no_lists_def)
  obtain h2 where 2: "pool_fill Tmo H_free_timeout [0..<nt] h1 = Some h2" "rings h2 (lists_of ?B)"
    using pool_fill_rings [OF 1(2) lists_of.simps(2), of Tmo "[0..<nt]"] lists_of_upd(2) [of ?A]
    by (auto simp: nodes_lists_of inj_def no_lists_def)
  obtain h3 where 3: "pool_fill Sig H_free_signals [0..<ng] h2 = Some h3"
      "rings h3 (lists_of (sl_fresh ns nt ng))"
    using pool_fill_rings [OF 2(2) lists_of.simps(3), of Sig "[0..<ng]"] lists_of_upd(3) [of ?B]
    by (auto simp: nodes_lists_of inj_def no_lists_def sl_fresh_def)
  from 1 2 3 show ?thesis by blast
qed

lemma init_list_pools_ok:
  assumes "\<And>a. \<not> is_node a \<Longrightarrow> nxt (heap s) a = Some a \<and> prv (heap s) a = Some a"
  shows "\<exists>s'. init_list_pools ns nt ng c0 p0 s = Some s' \<and> sl_ok ns nt ng s' (sl_fresh ns nt ng)
    \<and> terminate s' = terminate s
    \<and> sockets s' = (\<lambda>_. \<lparr>sk_flags = 0, sk_sock = 0, sk_param = p0, sk_handler = c0\<rparr>)"
proof -
  let ?h = "\<lparr>nxt = (\<lambda>a. if is_node a then None else nxt (heap s) a),
    prv = (\<lambda>a. if is_node a then None else prv (heap s) a)\<rparr>"
  have "rings ?h (lists_of no_lists)" by (rule rings_heads) (use assms in simp)
  then obtain h1 h2 h3 where p: "pool_fill Sock H_free_sockets [0..<ns] ?h = Some h1"
      "pool_fill Tmo H_free_timeout [0..<nt] h1 = Some h2"
      "pool_fill Sig H_free_signals [0..<ng] h2 = Some h3" and f: "rings h3 (lists_of (sl_fresh ns nt ng))"
    using init_pools by blast
  then show ?thesis
    by (simp add: init_list_pools_def Let_def sl_ok_def) (simp add: sl_fresh_def no_lists_def atLeast0LessThan)
qed

lemma init_ok:
  "\<exists>s'. sloop_init ns nt ng c0 p0 fd d s = Some s' \<and> sl_ok ns nt ng s' (sl_fresh ns nt ng)
    \<and> \<not> terminate s' \<and> signal_pipe s' = fd \<and> sloop_data s' = d
    \<and> sockets s' = (\<lambda>_. \<lparr>sk_flags = 0, sk_sock = 0, sk_param = p0, sk_handler = c0\<rparr>)"
proof -
  define r where "r = (\<lambda>a (h :: sl_addr dlheap). h\<lparr>nxt := (nxt h)(a := Some a), prv := (prv h)(a := Some a)\<rparr>)"
  have i: "INIT_DLIST_HEAD (Some a) h = Some (r a h)" for a h
    by (simp add: dl_defs r_def)
  define g where "g = r H_free_signals (r H_free_timeout (r H_free_sockets (r H_timeout (r H_signals
    (r H_writers (r H_readers \<lparr>nxt = (\<lambda>a. if is_node a then nxt (heap s) a else None),
         prv = (\<lambda>a. if is_node a then prv (heap s) a else None)\<rparr>))))))"
  have g: "nxt g a = Some a \<and> prv g a = Some a" if "\<not> is_node a" for a
    using that by (cases a) (simp_all add: g_def r_def)
  define t where "t = s\<lparr>terminate := False, signal_pipe := 0, sloop_data := p0, heap := g\<rparr>"
  obtain s' where s': "init_list_pools ns nt ng c0 p0 t = Some s'"
      "sl_ok ns nt ng s' (sl_fresh ns nt ng)" "terminate s' = terminate t"
      "sockets s' = (\<lambda>_. \<lparr>sk_flags = 0, sk_sock = 0, sk_param = p0, sk_handler = c0\<rparr>)"
    using init_list_pools_ok [of t ns nt ng c0 p0] g by (auto simp: t_def)
  have "sloop_init ns nt ng c0 p0 fd d s = Some (s'\<lparr>signal_pipe := fd, sloop_data := d\<rparr>)"
    using s'(1) by (simp add: sloop_init_def i g_def [symmetric] Let_def t_def)
  with s'(2-4) show ?thesis by (simp add: sl_ok_def t_def)
qed

section \<open>The loop is safe\<close>

text \<open>What the loop needs of the callbacks it is given. Each may change the module's state
  through the API in any way that leaves the module in a good state, with one restriction: the
  record being dispatched stays registered (a signal record may go when the callback does not
  ask for its removal), and a socket callback adds nothing behind its own record.\<close>

definition cb_ok :: "nat \<Rightarrow> nat \<Rightarrow> nat \<Rightarrow> ('c, 'p) callbacks \<Rightarrow> bool" where
  "cb_ok ns nt ng cb \<longleftrightarrow>
     (\<forall>s A head xs i ys. sl_ok ns nt ng s A \<longrightarrow> head \<in> sk_heads \<longrightarrow> sk_list head A = xs @ i # ys \<longrightarrow>
        (\<exists>r s' A' xs' ys'. cb_sock cb (sk_handler (sockets s i)) (sk_sock (sockets s i))
            (sk_param (sockets s i)) (sloop_data s) s = Some (r, s') \<and> sl_ok ns nt ng s' A'
          \<and> sk_list head A' = xs' @ i # ys' \<and> length ys' \<le> length ys)) \<and>
     (\<forall>s A i. sl_ok ns nt ng s A \<longrightarrow> i \<in> set (a_sg A) \<longrightarrow>
        (\<exists>r s' A'. cb_sig cb (sg_handler (signals s i)) (sg_sig (signals s i))
            (sg_param (signals s i)) (sloop_data s) s = Some (r, s') \<and> sl_ok ns nt ng s' A'
          \<and> (r < 0 \<longrightarrow> i \<in> set (a_sg A')))) \<and>
     (\<forall>s A i. sl_ok ns nt ng s A \<longrightarrow> i \<in> set (a_tm A) \<longrightarrow>
        (\<exists>s' A'. cb_tmo cb (to_handler (timeouts s i)) (to_param (timeouts s i)) (sloop_data s) s = Some s'
          \<and> sl_ok ns nt ng s' A' \<and> i \<in> set (a_tm A')))"

lemma cb_okD:
  assumes "cb_ok ns nt ng cb"
  shows "sl_ok ns nt ng s A \<Longrightarrow> head \<in> sk_heads \<Longrightarrow> sk_list head A = xs @ i # ys \<Longrightarrow>
      \<exists>r s' A' xs' ys'. cb_sock cb (sk_handler (sockets s i)) (sk_sock (sockets s i))
          (sk_param (sockets s i)) (sloop_data s) s = Some (r, s') \<and> sl_ok ns nt ng s' A'
        \<and> sk_list head A' = xs' @ i # ys' \<and> length ys' \<le> length ys"
    and "sl_ok ns nt ng s A \<Longrightarrow> i \<in> set (a_sg A) \<Longrightarrow>
      \<exists>r s' A'. cb_sig cb (sg_handler (signals s i)) (sg_sig (signals s i))
          (sg_param (signals s i)) (sloop_data s) s = Some (r, s') \<and> sl_ok ns nt ng s' A'
        \<and> (r < 0 \<longrightarrow> i \<in> set (a_sg A'))"
    and "sl_ok ns nt ng s A \<Longrightarrow> i \<in> set (a_tm A) \<Longrightarrow>
      \<exists>s' A'. cb_tmo cb (to_handler (timeouts s i)) (to_param (timeouts s i)) (sloop_data s) s = Some s'
        \<and> sl_ok ns nt ng s' A' \<and> i \<in> set (a_tm A')"
  using assms unfolding cb_ok_def by blast+

lemma collect_fds_walk:
  assumes "rings h (lists_of A)" and hd: "head \<in> sk_heads" and "sk_list head A = ps @ xs"
  shows "collect_fds socks h head (Some (hd (map Sock xs @ [head]))) = Some (map (\<lambda>i. sk_sock (socks i)) xs)"
  using assms(1,3)
proof (induction xs arbitrary: ps)
  case Nil
  then show ?case by (simp add: collect_fds.simps)
next
  case (Cons x xs)
  have "get_nxt (Some (Sock x)) h = Some (Some (hd (map Sock xs @ [head])))"
    using dl.succ_law [OF Cons.prems(1), of head "map Sock ps" "Sock x" "map Sock xs"]
      sk_lists_of [OF hd, of A] Cons.prems(2) by simp
  moreover have "collect_fds socks h head (Some (hd (map Sock xs @ [head])))
      = Some (map (\<lambda>i. sk_sock (socks i)) xs)"
    by (rule Cons.IH [of "ps @ [x]"]) (use Cons.prems in auto)
  moreover have "Some (Sock x) \<noteq> Some head" using hd by auto
  ultimately show ?case by (subst collect_fds.simps) simp
qed

lemma first_timeout_eq:
  assumes "sl_ok ns nt ng s A"
  shows "first_timeout s = Some (case a_tm A of [] \<Rightarrow> None | i # _ \<Rightarrow> Some i)"
  using assms dl.empty_law [of "heap s" "lists_of A" H_timeout] dl.first_law [of "heap s" "lists_of A" H_timeout]
  by (cases "a_tm A") (auto simp: sl_ok_def first_timeout_def)

lemma sig_dispatch_safe:
  assumes "sl_ok ns nt ng s A" and "cb_ok ns nt ng cb" and "a_sg A = ps @ xs"
  shows "\<exists>s' A'. sig_dispatch cb g (Some (hd (map Sig xs @ [H_signals]))) s = Some s' \<and> sl_ok ns nt ng s' A'"
  using assms
proof (induction xs arbitrary: ps)
  case Nil
  then show ?case by (auto simp: sig_dispatch.simps)
next
  case (Cons i xs)
  show ?case
  proof (cases "sg_sig (signals s i) = g")
    case True
    obtain r s1 A1 where 1: "cb_sig cb (sg_handler (signals s i)) (sg_sig (signals s i))
            (sg_param (signals s i)) (sloop_data s) s = Some (r, s1)" "sl_ok ns nt ng s1 A1"
        "r < 0 \<longrightarrow> i \<in> set (a_sg A1)"
      using cb_okD(2) [OF Cons.prems(2,1), of i] Cons.prems(3) by auto
    show ?thesis
    proof (cases "r < 0")
      case neg: True
      then obtain ys zs where "a_sg A1 = ys @ i # zs" using 1(3) by (auto simp: in_set_conv_decomp)
      then show ?thesis
        using release_signal [OF 1(2)] 1(1) neg True by (subst sig_dispatch.simps) fastforce
    qed (use 1 True in \<open>subst sig_dispatch.simps, auto\<close>)
  next
    case False
    have "get_nxt (Some (Sig i)) (heap s) = Some (Some (hd (map Sig xs @ [H_signals])))"
      using dl.succ_law [of "heap s" "lists_of A" H_signals "map Sig ps" "Sig i" "map Sig xs"] Cons.prems
      by (simp add: sl_ok_def)
    moreover obtain s' A' where "sig_dispatch cb g (Some (hd (map Sig xs @ [H_signals]))) s = Some s'"
        "sl_ok ns nt ng s' A'"
      using Cons.IH [of "ps @ [i]"] Cons.prems by auto
    ultimately show ?thesis using False by (subst sig_dispatch.simps) auto
  qed
qed

lemma signal_part_safe:
  assumes ok: "sl_ok ns nt ng s A" and cb: "cb_ok ns nt ng cb"
  shows "\<exists>b s' A'. signal_part cb g s = Some (b, s') \<and> sl_ok ns nt ng s' A'"
proof (cases g)
  case (Some sig)
  have "dlist_empty (Some H_signals) (heap s) = Some (a_sg A = [])"
      "get_nxt (Some H_signals) (heap s) = Some (Some (hd (map Sig (a_sg A) @ [H_signals])))"
    using dl.empty_law [of "heap s" "lists_of A" H_signals]
      dl.first_law [of "heap s" "lists_of A" H_signals] ok by (simp_all add: sl_ok_def)
  then show ?thesis
    using sig_dispatch_safe [OF ok cb, of "[]" _ sig] ok Some by (auto simp: signal_part_def)
qed (use ok in \<open>auto simp: signal_part_def\<close>)

lemma timeout_part_safe:
  assumes ok: "sl_ok ns nt ng s A" and cb: "cb_ok ns nt ng cb"
  shows "\<exists>s' A'. timeout_part cb now e s = Some s' \<and> sl_ok ns nt ng s' A'"
proof (cases e)
  case (Some i)
  have f: "get_nxt (Some H_timeout) (heap s) = Some (Some (hd (map Tmo (a_tm A) @ [H_timeout])))"
    using dl.first_law [of "heap s" "lists_of A" H_timeout] ok by (simp add: sl_ok_def)
  show ?thesis
  proof (cases "hd (map Tmo (a_tm A) @ [H_timeout]) = Tmo i \<and>
      timercmp_ge \<lparr>tv_sec = now, tv_usec = 0\<rparr> (to_time (timeouts s i))")
    case True
    then have "i \<in> set (a_tm A)" by (cases "a_tm A") auto
    then obtain s1 A1 where 1: "cb_tmo cb (to_handler (timeouts s i)) (to_param (timeouts s i)) (sloop_data s) s
        = Some s1" "sl_ok ns nt ng s1 A1" "i \<in> set (a_tm A1)"
      using cb_okD(3) [OF cb ok] by blast
    then obtain ys zs where "a_tm A1 = ys @ i # zs" by (auto simp: in_set_conv_decomp)
    then obtain h s2 where "dlist_del (Some (Tmo i)) (heap s1) = Some h"
        "free_timeout i (s1\<lparr>heap := h\<rparr>) = Some s2"
        "sl_ok ns nt ng s2 (A1\<lparr>a_tm := ys @ zs, a_ft := i # a_ft A1\<rparr>)"
      using release_timeout [OF 1(2)] by blast
    then show ?thesis using f True 1(1) Some by (auto simp: timeout_part_def)
  qed (use ok f Some in \<open>auto simp: timeout_part_def\<close>)
qed (use ok in \<open>auto simp: timeout_part_def\<close>)

lemma sock_dispatch_safe:
  assumes "sl_ok ns nt ng s A" and cb: "cb_ok ns nt ng cb" and hd: "head \<in> sk_heads"
    and "sk_list head A = ps @ xs"
  shows "\<exists>s' A'. sock_dispatch cb fds head (Some (hd (map Sock xs @ [head]))) s = Some s' \<and> sl_ok ns nt ng s' A'"
  using assms(1,4)
proof (induction "length xs" arbitrary: s A ps xs rule: less_induct)
  case less
  have hn: "head \<noteq> Sock j" for j using hd by auto
  show ?case
  proof (cases xs)
    case Nil
    then show ?thesis using less.prems by (auto simp: sock_dispatch.simps)
  next
    case (Cons i ys)
    have "\<exists>r s1 A1 ps' ys'. (if sk_sock (sockets s i) \<in> set fds
       then cb_sock cb (sk_handler (sockets s i)) (sk_sock (sockets s i)) (sk_param (sockets s i))
         (sloop_data s) s else Some (0, s)) = Some (r, s1) \<and> sl_ok ns nt ng s1 A1
       \<and> sk_list head A1 = ps' @ i # ys' \<and> length ys' \<le> length ys"
      using cb_okD(1) [OF cb less.prems(1) hd, of ps i ys] less.prems Cons
      by (cases "sk_sock (sockets s i) \<in> set fds") fastforce+
    then obtain r s1 A1 ps' ys' where 1: "(if sk_sock (sockets s i) \<in> set fds
       then cb_sock cb (sk_handler (sockets s i)) (sk_sock (sockets s i)) (sk_param (sockets s i))
         (sloop_data s) s else Some (0, s)) = Some (r, s1)" "sl_ok ns nt ng s1 A1"
       "sk_list head A1 = ps' @ i # ys'" "length ys' \<le> length ys" by blast
    have n: "get_nxt (Some (Sock i)) (heap s1) = Some (Some (hd (map Sock ys' @ [head])))"
      using dl.succ_law [of "heap s1" "lists_of A1" head "map Sock ps'" "Sock i" "map Sock ys'"]
        sk_lists_of [OF hd, of A1] 1(2,3) by (simp add: sl_ok_def)
    have len: "length ys' < length xs" using 1(4) Cons by simp
    show ?thesis
    proof (cases "r < 0")
      case True
      obtain h s2 where 2: "dlist_del (Some (Sock i)) (heap s1) = Some h"
          "free_socket i (s1\<lparr>heap := h\<rparr>) = Some s2"
          "sl_ok ns nt ng s2 ((sk_set head (ps' @ ys') A1)\<lparr>a_fs := i # a_fs A1\<rparr>)"
        using release_socket [OF 1(2) hd 1(3)] by blast
      with less.hyps [OF len 2(3), of ps'] 1(1) n True Cons show ?thesis
        by (subst sock_dispatch.simps) (auto simp: hn [symmetric])
    next
      case False
      with less.hyps [OF len 1(2), of "ps' @ [i]"] 1 n Cons show ?thesis
        by (subst sock_dispatch.simps) (auto simp: hn [symmetric])
    qed
  qed
qed

lemma sock_part_safe:
  assumes ok: "sl_ok ns nt ng s A" and cb: "cb_ok ns nt ng cb" and hd: "head \<in> sk_heads"
  shows "\<exists>s' A'. sock_part cb fds head s = Some s' \<and> sl_ok ns nt ng s' A'"
proof -
  have "dlist_empty (Some head) (heap s) = Some (sk_list head A = [])"
      "get_nxt (Some head) (heap s) = Some (Some (hd (map Sock (sk_list head A) @ [head])))"
    using dl.empty_law [of "heap s" "lists_of A" head] sk_lists_of [OF hd, of A]
      dl.first_law [of "heap s" "lists_of A" head] ok by (simp_all add: sl_ok_def)
  then show ?thesis
    using sock_dispatch_safe [OF ok cb hd, of "[]"] ok by (auto simp: sock_part_def)
qed

lemma pass_safe:
  assumes ok: "sl_ok ns nt ng s A" and cb: "cb_ok ns nt ng cb"
  shows "\<exists>go s' A'. sloop_pass cb ev s = Some (go, s') \<and> sl_ok ns nt ng s' A'"
proof -
  have R: "rings (heap s) (lists_of A)" using ok by (simp add: sl_ok_def)
  have f: "get_nxt (Some H_readers) (heap s) = Some (Some (hd (map Sock (a_rd A) @ [H_readers])))"
      "get_nxt (Some H_writers) (heap s) = Some (Some (hd (map Sock (a_wr A) @ [H_writers])))"
    using dl.first_law [OF R lists_of.simps(4)] dl.first_law [OF R lists_of.simps(5)] by simp_all
  have c: "collect_fds (sockets s) (heap s) H_readers (Some (hd (map Sock (a_rd A) @ [H_readers])))
        = Some (map (\<lambda>i. sk_sock (sockets s i)) (a_rd A))"
      "collect_fds (sockets s) (heap s) H_writers (Some (hd (map Sock (a_wr A) @ [H_writers])))
        = Some (map (\<lambda>i. sk_sock (sockets s i)) (a_wr A))"
    using collect_fds_walk [OF R, of H_readers "[]" "a_rd A"] collect_fds_walk [OF R, of H_writers "[]" "a_wr A"]
    by (simp_all add: sk_list_def)
  define ft where "ft = (case a_tm A of [] \<Rightarrow> None | i # _ \<Rightarrow> Some i)"
  have rest: "\<exists>go s' A'. (do {
         (brk, s) \<leftarrow> (if b then signal_part cb g s else Some (False, s));
         if brk then Some (False, s) else do {
           s \<leftarrow> timeout_part cb now ft s;
           if res \<le> 0 then Some (True, s) else do {
             s \<leftarrow> sock_part cb rfds H_readers s;
             s \<leftarrow> sock_part cb wfds H_writers s;
             Some (True, s) } } }) = Some (go, s') \<and> sl_ok ns nt ng s' A'" for b g now and res :: int and rfds wfds
  proof -
    obtain brk s1 A1 where 1: "(if b then signal_part cb g s else Some (False, s)) = Some (brk, s1)"
        "sl_ok ns nt ng s1 A1"
      using signal_part_safe [OF ok cb, of g] ok by (cases b) auto
    obtain s2 A2 where 2: "timeout_part cb now ft s1 = Some s2" "sl_ok ns nt ng s2 A2"
      using timeout_part_safe [OF 1(2) cb] by blast
    obtain s3 A3 where 3: "sock_part cb rfds H_readers s2 = Some s3" "sl_ok ns nt ng s3 A3"
      using sock_part_safe [OF 2(2) cb, of H_readers] by blast
    obtain s4 A4 where 4: "sock_part cb wfds H_writers s3 = Some s4" "sl_ok ns nt ng s4 A4"
      using sock_part_safe [OF 3(2) cb, of H_writers] by blast
    show ?thesis unfolding 1(1) using 1(2) 2 3 4 by (cases brk; cases "res \<le> 0") auto
  qed
  show ?thesis
    using ok rest first_timeout_eq [OF ok, folded ft_def] f c
    unfolding sloop_pass_def Let_def by (simp add: c split: sel_result.split) blast
qed

lemma loop_cond_eq:
  assumes "sl_ok ns nt ng s A"
  shows "loop_cond s = Some (\<not> terminate s \<and> \<not> all_free A)"
  using assms dl.empty_law [of "heap s" "lists_of A" H_timeout] dl.empty_law [of "heap s" "lists_of A" H_readers]
    dl.empty_law [of "heap s" "lists_of A" H_writers] dl.empty_law [of "heap s" "lists_of A" H_signals]
  by (auto simp: loop_cond_def sl_ok_def all_free_def)

lemma run_safe:
  assumes "sl_ok ns nt ng s A" and cb: "cb_ok ns nt ng cb"
  shows "\<exists>ret s' A'. sloop_run cb evs s = Some (ret, s') \<and> sl_ok ns nt ng s' A' \<and> (ret \<longrightarrow> all_free A')"
  using assms(1)
proof (induction evs arbitrary: s A)
  case Nil
  then show ?case
    using cleanup_frees [OF Nil] loop_cond_eq [OF Nil]
    by (cases "\<not> terminate s \<and> \<not> all_free A") (simp, blast, clarsimp, blast)
next
  case (Cons ev evs)
  show ?case
  proof (cases "\<not> terminate s \<and> \<not> all_free A")
    case True
    obtain go s1 A1 where 1: "sloop_pass cb ev s = Some (go, s1)" "sl_ok ns nt ng s1 A1"
      using pass_safe [OF Cons.prems cb] by blast
    show ?thesis
      using Cons.IH [OF 1(2)] cleanup_frees [OF 1(2)] 1(1) True loop_cond_eq [OF Cons.prems]
      by (cases go; clarsimp; blast)
  qed (use cleanup_frees [OF Cons.prems] loop_cond_eq [OF Cons.prems] in \<open>clarsimp, blast\<close>)
qed

section \<open>Deadlines\<close>

lemma norm_usec_closed:
  "0 \<le> sint (tv_usec t) \<Longrightarrow> norm_usec t =
     \<lparr>tv_sec = tv_sec t + of_int (sint (tv_usec t) div 1000000),
      tv_usec = of_int (sint (tv_usec t) mod 1000000)\<rparr>"
proof (induction t rule: norm_usec.induct)
  case (1 t)
  show ?case
  proof (cases "sint (tv_usec t) \<ge> 1000000")
    case True
    let ?t = "\<lparr>tv_sec = tv_sec t + 1, tv_usec = tv_usec t - 1000000\<rparr>"
    have u: "sint (tv_usec ?t) = sint (tv_usec t) - 1000000" using True by (simp add: sint_sub_million)
    then have "norm_usec ?t = \<lparr>tv_sec = tv_sec ?t + of_int (sint (tv_usec ?t) div 1000000),
        tv_usec = of_int (sint (tv_usec ?t) mod 1000000)\<rparr>"
      using "1.IH" True by simp
    moreover have "sint (tv_usec t) div 1000000 = 1 + (sint (tv_usec t) - 1000000) div 1000000"
      "(sint (tv_usec t) - 1000000) mod 1000000 = sint (tv_usec t) mod 1000000"
      using div_add_self2 [of 1000000 "sint (tv_usec t) - 1000000"]
        mod_add_self2 [of "sint (tv_usec t) - 1000000" 1000000] by simp_all
    moreover have "norm_usec t = norm_usec ?t" using True by (subst norm_usec.simps) simp
    ultimately show ?thesis unfolding u by (simp add: algebra_simps)
  next
    case False
    then have "norm_usec t = t" by (subst norm_usec.simps) simp
    with False "1.prems" show ?thesis by (cases t) (simp add: div_pos_pos_trivial)
  qed
qed

lemma select_tv_eq:
  "0 \<le> sint (tv_usec t) \<Longrightarrow> select_tv now t =
     (if tv_key t \<le> (sint now, 0) then zero_timeval else \<lparr>tv_sec = tv_sec t - now, tv_usec = tv_usec t\<rparr>)"
  by (simp add: select_tv_def timercmp_ge_key timersub_def Let_def)
    (auto simp: tv_key_def)

section \<open>A socket callback that cancels its own record\<close>

lemma sock_dispatch_free_list:
  assumes R: "rings (heap s) (lists_of A)" and "a_fs A = ps @ xs"
    and "\<forall>j \<in> set xs. sk_sock (sockets s j) \<notin> set fds"
  shows "sock_dispatch cb fds H_readers (Some (hd (map Sock xs @ [H_free_sockets]))) s = None"
  using assms(2,3)
proof (induction xs arbitrary: ps)
  case Nil
  then show ?case by (simp add: sock_dispatch.simps)
next
  case (Cons x xs)
  have "get_nxt (Some (Sock x)) (heap s) = Some (Some (hd (map Sock xs @ [H_free_sockets])))"
    using dl.succ_law [OF R, of H_free_sockets "map Sock ps" "Sock x" "map Sock xs"] Cons.prems(1) by simp
  moreover have "sock_dispatch cb fds H_readers (Some (hd (map Sock xs @ [H_free_sockets]))) s = None"
    by (rule Cons.IH [of "ps @ [x]"]) (use Cons.prems in auto)
  ultimately show ?case using Cons.prems(2) by (subst sock_dispatch.simps) simp
qed

section \<open>Properties\<close>

text \<open>Concrete inputs for the witnesses: an arbitrary memory before \<^verbatim>\<open>sloop_init\<close>, and callbacks that
  call back into the module (a reader arms a timer and asks for its own removal, a signal ends
  the loop, a timer does nothing).\<close>

definition sl_blank :: "(unit, unit) sloop" where
  "sl_blank = \<lparr>terminate = True, signal_pipe = 7, sloop_data = (),
     heap = \<lparr>nxt = (\<lambda>_. None), prv = (\<lambda>_. None)\<rparr>,
     sockets = (\<lambda>_. \<lparr>sk_flags = 0, sk_sock = 0, sk_param = (), sk_handler = ()\<rparr>),
     timeouts = (\<lambda>_. \<lparr>to_flags = 0, to_time = zero_timeval, to_param = (), to_handler = ()\<rparr>),
     signals = (\<lambda>_. \<lparr>sg_flags = 0, sg_sig = 0, sg_param = (), sg_handler = ()\<rparr>),
     sig_caught = (\<lambda>_. False)\<rparr>"

definition arming_cb :: "(unit, unit) callbacks" where
  "arming_cb = \<lparr>cb_sock = (\<lambda>c f p d s. do {
       (_, s) \<leftarrow> sloop_register_timeout 100 5 0 c p s; Some (-1, s) }),
     cb_sig = (\<lambda>c g p d s. Some (0, sloop_terminate s)),
     cb_tmo = (\<lambda>c p d s. Some s)\<rparr>"

definition self_cancel_cb :: "nat \<Rightarrow> (unit, unit) callbacks" where
  "self_cancel_cb i = arming_cb\<lparr>cb_sock := (\<lambda>c f p d s. do {
       s \<leftarrow> sloop_cancel_read_sock (Some i) s; Some (0, s) })\<rparr>"

definition sl_one_reader :: "(unit, unit) sloop option" where
  "sl_one_reader = do {
     s \<leftarrow> sloop_init 2 2 1 () () 3 () sl_blank;
     (_, s) \<leftarrow> sloop_register_read_sock 5 () () s;
     Some s }"

lemma arming_cb_ok: "cb_ok ns nt ng arming_cb"
  unfolding cb_ok_def
proof (intro conjI allI impI)
  fix s :: "(unit, unit) sloop" and A head xs i ys
  assume ok: "sl_ok ns nt ng s A" and l: "sk_list head A = xs @ i # ys"
  have "\<exists>r s' A'. sloop_register_timeout 100 5 0 c p s = Some (r, s') \<and> sl_ok ns nt ng s' A'
      \<and> sk_list head A' = sk_list head A" for c p
  proof (cases "a_ft A")
    case Nil
    then show ?thesis using register_timeout_none [OF ok] ok by blast
  next
    case (Cons j "is")
    obtain s' where "sloop_register_timeout 100 5 0 c p s = Some (Some j, s')"
        "sl_ok ns nt ng s' (A\<lparr>a_ft := is, a_tm := tm_insert (deadline s') j (a_tm A)\<rparr>)"
      using register_timeouts [OF ok Cons] by blast
    then show ?thesis by (intro exI conjI) (assumption, assumption, simp add: sk_list_def)
  qed
  then obtain r s' A' where "sloop_register_timeout 100 5 0 (sk_handler (sockets s i)) (sk_param (sockets s i)) s
      = Some (r, s')" "sl_ok ns nt ng s' A'" "sk_list head A' = xs @ i # ys"
    using l by metis
  then show "\<exists>r s' A' xs' ys'. cb_sock arming_cb (sk_handler (sockets s i)) (sk_sock (sockets s i))
            (sk_param (sockets s i)) (sloop_data s) s = Some (r, s') \<and> sl_ok ns nt ng s' A'
          \<and> sk_list head A' = xs' @ i # ys' \<and> length ys' \<le> length ys"
    by (intro exI [of _ "-1"] exI [of _ s'] exI [of _ A'] exI [of _ xs] exI [of _ ys]) (simp add: arming_cb_def)
next
  fix s :: "(unit, unit) sloop" and A i
  assume ok: "sl_ok ns nt ng s A"
  show "\<exists>r s' A'. cb_sig arming_cb (sg_handler (signals s i)) (sg_sig (signals s i))
            (sg_param (signals s i)) (sloop_data s) s = Some (r, s') \<and> sl_ok ns nt ng s' A'
          \<and> (r < 0 \<longrightarrow> i \<in> set (a_sg A'))"
    using ok by (intro exI [of _ 0] exI [of _ "sloop_terminate s"] exI [of _ A])
      (simp add: arming_cb_def sloop_terminate_def sl_ok_def)
  assume "i \<in> set (a_tm A)"
  then show "\<exists>s' A'. cb_tmo arming_cb (to_handler (timeouts s i)) (to_param (timeouts s i)) (sloop_data s) s = Some s'
          \<and> sl_ok ns nt ng s' A' \<and> i \<in> set (a_tm A')"
    using ok by (auto simp: arming_cb_def)
qed

lemma sl_one_reader_ok:
  "\<exists>s. sl_one_reader = Some s \<and> sl_ok 2 2 1 s (sl_fresh 2 2 1\<lparr>a_fs := [0], a_rd := [1]\<rparr>)
    \<and> sk_sock (sockets s 1) = 5 \<and> sk_sock (sockets s 0) = 0"
proof -
  obtain s where s: "sloop_init 2 2 1 () () 3 () sl_blank = Some s" "sl_ok 2 2 1 s (sl_fresh 2 2 1)"
      "sockets s = (\<lambda>_. \<lparr>sk_flags = 0, sk_sock = 0, sk_param = (), sk_handler = ()\<rparr>)"
    using init_ok [of 2 2 1 "()" "()" 3 "()" sl_blank] by blast
  have fs: "a_fs (sl_fresh 2 2 1) = 1 # [0]" "a_rd (sl_fresh 2 2 1) = []"
    by (simp_all add: sl_fresh_def no_lists_def upt_conv_Cons)
  from s(2) have R: "rings (heap s) (lists_of (sl_fresh 2 2 1))" unfolding sl_ok_def by blast
  obtain s' where s': "sloop_register_read_sock 5 () () s = Some (Some 1, s')"
      "sl_ok 2 2 1 s' ((sl_fresh 2 2 1)\<lparr>a_fs := [0], a_rd := [1]\<rparr>)" "sk_sock (sockets s' 1) = 5"
    using register_readers [OF s(2) fs(1), of 5 "()" "()"] unfolding fs(2) by blast
  obtain h sk where "register_socket 5 () () H_readers s
      = Some (Some 1, s\<lparr>heap := h, sockets := (sockets s)(1 := sk)\<rparr>)"
    using register_socket_some [OF R fs(1), of H_readers "[]" 5 "()" "()"] fs(2)
    by (simp del: fun_upd_apply) blast
  with s'(1) have "s' = s\<lparr>heap := h, sockets := (sockets s)(1 := sk)\<rparr>"
    unfolding sloop_register_read_sock_def by simp
  then have "sk_sock (sockets s' 0) = 0" using s(3) by simp
  with s(1) s' show ?thesis unfolding sl_one_reader_def by (intro exI [of _ s']) simp
qed

text \<open>Claim C6: \<^verbatim>\<open>sloop_run\<close> is memory-safe. From a good state, with callbacks that use the module
  without retiring the record being dispatched, no sequence of passes dereferences a bad pointer
  or walks off a list, whatever the uptime, \<^verbatim>\<open>select\<close> and the pipe answer; the invariant holds after
  every pass; and when the loop returns, its clean-up has put every record back on its free list.\<close>

theorem sloop_run_safe:
  assumes "sl_ok ns nt ng s A" and "cb_ok ns nt ng cb"
  shows "\<exists>ret s' A'. sloop_run cb evs s = Some (ret, s') \<and> sl_ok ns nt ng s' A' \<and> (ret \<longrightarrow> all_free A')"
  using assms by (rule run_safe)

theorem sloop_run_safe_witness:
  "\<exists>s ret s'. sl_one_reader = Some s \<and>
     sloop_run arming_cb [\<lparr>ev_now1 = 100, ev_select = (\<lambda>_ r w _. SelOk 1 r w), ev_sig = Some 0, ev_now2 = 101\<rparr>] s
       = Some (ret, s')"
proof -
  obtain s where s: "sl_one_reader = Some s" "sl_ok 2 2 1 s (sl_fresh 2 2 1\<lparr>a_fs := [0], a_rd := [1]\<rparr>)"
    using sl_one_reader_ok by blast
  show ?thesis using sloop_run_safe [OF s(2) arming_cb_ok] s(1) by blast
qed

text \<open>\<^verbatim>\<open>sloop_init\<close> establishes the invariant from any memory contents: every record is free,
  the loop is not terminated and nothing is registered.\<close>

theorem sloop_init_establishes:
  "\<exists>s'. sloop_init ns nt ng c0 p0 fd d s = Some s' \<and> sl_ok ns nt ng s' (sl_fresh ns nt ng)
    \<and> all_free (sl_fresh ns nt ng) \<and> \<not> terminate s'"
  using init_ok [of ns nt ng c0 p0 fd d s] by (auto simp: all_free_def sl_fresh_def no_lists_def)

text \<open>Claim C9: \<^verbatim>\<open>sloop_register_timeout\<close> implements insertion into a deadline-ordered queue. It returns
  the null handle, changing nothing, exactly when the pool is exhausted; otherwise the record
  taken from the pool carries the deadline, handler and parameter, stands after every timeout that
  is due no later and before every later one, and the queue stays sorted.\<close>

theorem register_timeout_refines:
  assumes "sl_ok ns nt ng s A"
  shows "case a_ft A of
      [] \<Rightarrow> sloop_register_timeout now sec usec c p s = Some (None, s)
    | i # is \<Rightarrow> \<exists>s'. sloop_register_timeout now sec usec c p s = Some (Some i, s')
        \<and> sl_ok ns nt ng s' (A\<lparr>a_ft := is, a_tm := tm_insert (deadline s') i (a_tm A)\<rparr>)
        \<and> to_time (timeouts s' i) = norm_usec \<lparr>tv_sec = now + sec, tv_usec = usec\<rparr>
        \<and> to_handler (timeouts s' i) = c \<and> to_param (timeouts s' i) = p"
  using register_timeout_none [OF assms] register_timeouts [OF assms, of _ _ now sec usec c p]
  by (fastforce split: list.split)

theorem register_timeout_refines_witness:
  "\<exists>s s'. sl_one_reader = Some s \<and> sloop_register_timeout 100 5 0 () () s = Some (Some 1, s')"
proof -
  obtain s where s: "sl_one_reader = Some s" "sl_ok 2 2 1 s (sl_fresh 2 2 1\<lparr>a_fs := [0], a_rd := [1]\<rparr>)"
    using sl_one_reader_ok by blast
  have "a_ft (sl_fresh 2 2 1\<lparr>a_fs := [0], a_rd := [1]\<rparr>) = [1, 0]"
    by (simp add: sl_fresh_def no_lists_def upt_conv_Cons)
  with register_timeout_refines [OF s(2), of 100 5 0 "()" "()"] s(1) show ?thesis by auto
qed

lemma tm_insert_remove:
  "i \<notin> set l \<Longrightarrow> \<exists>xs ys. tm_insert k i l = xs @ i # ys \<and> xs @ ys = l"
  by (metis takeWhile_dropWhile_id tm_insert_def)

text \<open>Cancelling the handle that \<^verbatim>\<open>sloop_register_timeout\<close> returned undoes the registration: the
  queue and the free list are exactly what they were.\<close>

theorem register_cancel_timeout:
  assumes ok: "sl_ok ns nt ng s A"
    and reg: "sloop_register_timeout now sec usec c p s = Some (Some i, s1)"
  shows "\<exists>s2. sloop_cancel_timeout (Some i) s1 = Some s2 \<and> sl_ok ns nt ng s2 A"
proof (cases "a_ft A")
  case Nil
  then show ?thesis using register_timeout_none [OF ok] reg by simp
next
  case (Cons j "is")
  let ?A = "A\<lparr>a_ft := is, a_tm := tm_insert (deadline s1) i (a_tm A)\<rparr>"
  have j: "j = i" and ok1: "sl_ok ns nt ng s1 ?A"
    using register_timeouts [OF ok Cons, of now sec usec c p] reg by auto
  have "i \<notin> set (a_tm A)" using sl_distinct(2) [of s A] ok Cons j by (simp add: sl_ok_def)
  then obtain xs ys where l: "a_tm ?A = xs @ i # ys" "xs @ ys = a_tm A"
    using tm_insert_remove [of i "a_tm A" "deadline s1"] by auto
  have "?A\<lparr>a_tm := xs @ ys, a_ft := i # a_ft ?A\<rparr> = A" using l(2) Cons j by simp
  then show ?thesis using cancel_reg_timeout [OF ok1 l(1)] by simp
qed

theorem register_cancel_timeout_witness:
  "\<exists>s s1 s2. sl_one_reader = Some s \<and> sloop_register_timeout 100 5 0 () () s = Some (Some 1, s1)
    \<and> sloop_cancel_timeout (Some 1) s1 = Some s2"
proof -
  let ?A = "sl_fresh 2 2 1\<lparr>a_fs := [0], a_rd := [1]\<rparr>"
  obtain s where s: "sl_one_reader = Some s" "sl_ok 2 2 1 s ?A"
    using sl_one_reader_ok by blast
  have "a_ft ?A = 1 # [0]" by (simp add: sl_fresh_def no_lists_def upt_conv_Cons)
  then obtain s1 where "sloop_register_timeout 100 5 0 () () s = Some (Some 1, s1)"
    using register_timeouts [OF s(2), of 1 "[0]" 100 5 0 "()" "()"] by blast
  with register_cancel_timeout [OF s(2)] s(1) show ?thesis by blast
qed

text \<open>A timeout registered with at most \<open>2\<^sup>3\<^sup>1 - 1\<close> microseconds is stored with its whole seconds
  carried over and a microsecond part below one million, and the wait that \<^verbatim>\<open>sloop_run\<close> hands to
  \<^verbatim>\<open>select\<close> for a stored deadline is zero once it is due and otherwise exactly the rest, so that uptime
  plus wait is the deadline.\<close>

theorem deadline_and_wait:
  fixes now sec usec now2 :: u32
  assumes "0 \<le> sint usec"
  defines "t \<equiv> norm_usec \<lparr>tv_sec = now + sec, tv_usec = usec\<rparr>"
  shows "tv_sec t = now + sec + of_int (sint usec div 1000000)
    \<and> sint (tv_usec t) = sint usec mod 1000000
    \<and> select_tv now2 t = (if tv_key t \<le> (sint now2, 0) then zero_timeval
        else \<lparr>tv_sec = tv_sec t - now2, tv_usec = tv_usec t\<rparr>)"
proof -
  have t: "t = \<lparr>tv_sec = now + sec + of_int (sint usec div 1000000),
      tv_usec = of_int (sint usec mod 1000000)\<rparr>"
    using norm_usec_closed [of "\<lparr>tv_sec = now + sec, tv_usec = usec\<rparr>"] assms(1) by (simp add: t_def)
  have "sint (of_int (sint usec mod 1000000) :: u32) = sint usec mod 1000000"
  proof -
    have "0 \<le> sint usec mod 1000000" "sint usec mod 1000000 < 1000000" by simp_all
    then have "- (2 ^ 31) \<le> sint usec mod 1000000" "sint usec mod 1000000 < 2 ^ 31" by simp_all
    then show ?thesis by (simp add: sint_sbintrunc' signed_take_bit_int_eq_self)
  qed
  then show ?thesis using select_tv_eq [of t now2] t by simp
qed

theorem deadline_and_wait_witness:
  "select_tv 101 (norm_usec \<lparr>tv_sec = 100 + 3, tv_usec = 2500000\<rparr>) = \<lparr>tv_sec = 4, tv_usec = 500000\<rparr>"
proof -
  have "norm_usec \<lparr>tv_sec = 100 + 3, tv_usec = 2500000\<rparr> = \<lparr>tv_sec = 105, tv_usec = 500000\<rparr>"
    by (simp add: norm_usec.simps)
  with deadline_and_wait [of 2500000 100 3 101] show ?thesis by (simp add: tv_key_def)
qed

text \<open>Claim C33: a read callback must not cancel its own handle. If it does, the loop goes on from the
  record's new place, which is the free list: it never meets the reader head again, and ends up
  treating the head of the free list as a socket record.\<close>

theorem reader_self_cancel:
  assumes ok: "sl_ok ns nt ng s A" and l: "a_rd A = i # l" and rdy: "sk_sock (sockets s i) \<in> set fds"
    and quiet: "\<forall>j \<in> set (a_fs A). sk_sock (sockets s j) \<notin> set fds"
  shows "sock_part (self_cancel_cb i) fds H_readers s = None"
proof -
  obtain s1 where s1: "cancel_socket (Some i) H_readers s = Some s1"
      "sl_ok ns nt ng s1 ((sk_set H_readers l A)\<lparr>a_fs := i # a_fs A\<rparr>)"
      "\<forall>j. sk_sock (sockets s1 j) = sk_sock (sockets s j)"
    using cancel_reg_socket [OF ok, of H_readers "[]" i l] l by (auto simp: sk_list_def)
  have R1: "rings (heap s1) (lists_of ((sk_set H_readers l A)\<lparr>a_fs := i # a_fs A\<rparr>))"
    using s1(2) by (simp add: sl_ok_def)
  have "dlist_empty (Some H_readers) (heap s) = Some False" "get_nxt (Some H_readers) (heap s) = Some (Some (Sock i))"
    using dl.pop_law(1,2) [of "heap s" "lists_of A" H_readers] ok l by (simp_all add: sl_ok_def)
  moreover have "get_nxt (Some (Sock i)) (heap s1) = Some (Some (hd (map Sock (a_fs A) @ [H_free_sockets])))"
    using dl.succ_law [OF R1, of H_free_sockets "[]" "Sock i" "map Sock (a_fs A)"] by simp
  moreover have "sock_dispatch (self_cancel_cb i) fds H_readers
      (Some (hd (map Sock (a_fs A) @ [H_free_sockets]))) s1 = None"
    by (rule sock_dispatch_free_list [OF R1, of "[i]"]) (use quiet s1(3) in auto)
  ultimately show ?thesis
    using rdy s1(1) by (simp add: sock_part_def self_cancel_cb_def sloop_cancel_read_sock_def sock_dispatch.simps [of _ _ _ "Some (Sock i)"])
qed

theorem reader_self_cancel_witness:
  "\<exists>s. sl_one_reader = Some s \<and> sock_part (self_cancel_cb 1) [5] H_readers s = None"
proof -
  obtain s where s: "sl_one_reader = Some s" "sl_ok 2 2 1 s (sl_fresh 2 2 1\<lparr>a_fs := [0], a_rd := [1]\<rparr>)"
      "sk_sock (sockets s 1) = 5" "sk_sock (sockets s 0) = 0"
    using sl_one_reader_ok by blast
  have "sock_part (self_cancel_cb 1) [5] H_readers s = None"
    by (rule reader_self_cancel [OF s(2), of 1 "[]"]) (use s(3,4) in simp_all)
  with s(1) show ?thesis by blast
qed

end
