(* ===== verification/Dhcp_Options.thy ===== *)
theory Dhcp_Options
  imports Prelude
begin

text \<open>
  The DHCP message (\<^verbatim>\<open>udhcpcd/packet.h\<close>) and its options (\<^verbatim>\<open>udhcpcd/options.c\<close>): the option
  table, the bounds-checked search \<^verbatim>\<open>get_option\<close>, the unchecked \<^verbatim>\<open>end_option\<close>, the functions that
  append options to a message, and the configured option list. \<^verbatim>\<open>get_option\<close> reads the message as
  it lies in memory; the bytes behind the message are an arbitrary function \<open>junk\<close>, so that the
  one-byte over-reads of the C code have the value the memory happens to hold. The append
  functions write into the 308 byte option field and return \<open>None\<close> when they would leave it.
  The locale \<open>option_store\<close> states what the writers and readers of messages rely on.
\<close>

section \<open>The message\<close>

record dhcpMessage =
  op :: u8
  htype :: u8
  hlen :: u8
  hops :: u8
  xid :: u32
  secs :: u16
  flags :: u16
  ciaddr :: u32
  yiaddr :: u32
  siaddr :: u32
  giaddr :: u32
  chaddr :: "u8 list"
  sname :: "u8 list"
  bfile :: "u8 list"
  cookie :: u32
  options :: "u8 list"

definition pkt_bytes :: "dhcpMessage \<Rightarrow> u8 list" where
  "pkt_bytes p = [op p, htype p, hlen p, hops p] @ be32 (xid p) @ be16 (secs p) @ be16 (flags p) @
     be32 (ciaddr p) @ be32 (yiaddr p) @ be32 (siaddr p) @ be32 (giaddr p) @
     chaddr p @ sname p @ bfile p @ be32 (cookie p) @ options p"

definition wf_pkt :: "dhcpMessage \<Rightarrow> bool" where
  "wf_pkt p \<longleftrightarrow> length (chaddr p) = 16 \<and> length (sname p) = 64 \<and> length (bfile p) = 128 \<and>
     length (options p) = 308"

type_synonym mem = "nat \<Rightarrow> u8"

definition pkt_mem :: "mem \<Rightarrow> dhcpMessage \<Rightarrow> mem" where
  "pkt_mem junk p i = (if i < length (pkt_bytes p) then pkt_bytes p ! i else junk i)"

definition SNAME_OFF :: nat where "SNAME_OFF = 44"
definition FILE_OFF :: nat where "FILE_OFF = 108"
definition OPTIONS_OFF :: nat where "OPTIONS_OFF = 240"

definition get_u32 :: "mem \<Rightarrow> nat \<Rightarrow> u32" where
  "get_u32 m i = un_be32 [m i, m (i + 1), m (i + 2), m (i + 3)]"

section \<open>Option codes and the option table\<close>

definition DHCP_PADDING :: u8 where "DHCP_PADDING = 0x00"
definition DHCP_SUBNET :: u8 where "DHCP_SUBNET = 0x01"
definition DHCP_HOST_NAME :: u8 where "DHCP_HOST_NAME = 0x0c"
definition DHCP_REQUESTED_IP :: u8 where "DHCP_REQUESTED_IP = 0x32"
definition DHCP_LEASE_TIME :: u8 where "DHCP_LEASE_TIME = 0x33"
definition DHCP_OPTION_OVER :: u8 where "DHCP_OPTION_OVER = 0x34"
definition DHCP_MESSAGE_TYPE :: u8 where "DHCP_MESSAGE_TYPE = 0x35"
definition DHCP_SERVER_ID :: u8 where "DHCP_SERVER_ID = 0x36"
definition DHCP_PARAM_REQ :: u8 where "DHCP_PARAM_REQ = 0x37"
definition DHCP_MESSAGE :: u8 where "DHCP_MESSAGE = 0x38"
definition DHCP_VENDOR :: u8 where "DHCP_VENDOR = 0x3c"
definition DHCP_CLIENT_ID :: u8 where "DHCP_CLIENT_ID = 0x3d"
definition DHCP_END :: u8 where "DHCP_END = 0xFF"

lemmas opt_codes = DHCP_PADDING_def DHCP_SUBNET_def DHCP_HOST_NAME_def DHCP_REQUESTED_IP_def
  DHCP_LEASE_TIME_def DHCP_OPTION_OVER_def DHCP_MESSAGE_TYPE_def DHCP_SERVER_ID_def
  DHCP_PARAM_REQ_def DHCP_MESSAGE_def DHCP_VENDOR_def DHCP_CLIENT_ID_def DHCP_END_def

definition OPT_CODE :: nat where "OPT_CODE = 0"
definition OPT_LEN :: nat where "OPT_LEN = 1"

definition OPTION_FIELD :: u8 where "OPTION_FIELD = 0"
definition FILE_FIELD :: u8 where "FILE_FIELD = 1"
definition SNAME_FIELD :: u8 where "SNAME_FIELD = 2"

definition TYPE_MASK :: u8 where "TYPE_MASK = 0x0F"
definition OPTION_IP :: u8 where "OPTION_IP = 1"
definition OPTION_IP_PAIR :: u8 where "OPTION_IP_PAIR = 2"
definition OPTION_STRING :: u8 where "OPTION_STRING = 3"
definition OPTION_BOOLEAN :: u8 where "OPTION_BOOLEAN = 4"
definition OPTION_U8 :: u8 where "OPTION_U8 = 5"
definition OPTION_U16 :: u8 where "OPTION_U16 = 6"
definition OPTION_S16 :: u8 where "OPTION_S16 = 7"
definition OPTION_U32 :: u8 where "OPTION_U32 = 8"
definition OPTION_S32 :: u8 where "OPTION_S32 = 9"
definition OPTION_REQ :: u8 where "OPTION_REQ = 0x10"
definition OPTION_LIST :: u8 where "OPTION_LIST = 0x20"

lemmas opt_types = TYPE_MASK_def OPTION_IP_def OPTION_IP_PAIR_def OPTION_STRING_def
  OPTION_BOOLEAN_def OPTION_U8_def OPTION_U16_def OPTION_S16_def OPTION_U32_def OPTION_S32_def
  OPTION_REQ_def OPTION_LIST_def

unbundle bit_operations_syntax

record dhcp_option =
  o_name :: string
  o_flags :: u8
  o_code :: u8

definition dhcp_opt :: "string \<Rightarrow> u8 \<Rightarrow> u8 \<Rightarrow> dhcp_option" where
  "dhcp_opt n f c = \<lparr>o_name = n, o_flags = f, o_code = c\<rparr>"

text \<open>The table ends with an entry of code 0, which ends every loop over it.\<close>

definition dhcp_options :: "dhcp_option list" where
  "dhcp_options = [
     dhcp_opt ''subnet'' (OPTION_IP OR OPTION_REQ) 0x01,
     dhcp_opt ''timezone'' OPTION_S32 0x02,
     dhcp_opt ''router'' (OPTION_IP OR OPTION_LIST OR OPTION_REQ) 0x03,
     dhcp_opt ''timesvr'' (OPTION_IP OR OPTION_LIST) 0x04,
     dhcp_opt ''namesvr'' (OPTION_IP OR OPTION_LIST) 0x05,
     dhcp_opt ''dns'' (OPTION_IP OR OPTION_LIST OR OPTION_REQ) 0x06,
     dhcp_opt ''logsvr'' (OPTION_IP OR OPTION_LIST) 0x07,
     dhcp_opt ''cookiesvr'' (OPTION_IP OR OPTION_LIST) 0x08,
     dhcp_opt ''lprsvr'' (OPTION_IP OR OPTION_LIST) 0x09,
     dhcp_opt ''hostname'' OPTION_STRING 0x0c,
     dhcp_opt ''bootsize'' OPTION_U16 0x0d,
     dhcp_opt ''domain'' (OPTION_STRING OR OPTION_REQ) 0x0f,
     dhcp_opt ''swapsvr'' OPTION_IP 0x10,
     dhcp_opt ''rootpath'' OPTION_STRING 0x11,
     dhcp_opt ''ipttl'' OPTION_U8 0x17,
     dhcp_opt ''mtu'' OPTION_U16 0x1a,
     dhcp_opt ''broadcast'' OPTION_IP 0x1c,
     dhcp_opt ''ntpsrv'' (OPTION_IP OR OPTION_LIST) 0x2a,
     dhcp_opt ''wins'' (OPTION_IP OR OPTION_LIST) 0x2c,
     dhcp_opt ''requestip'' OPTION_IP 0x32,
     dhcp_opt ''lease'' OPTION_U32 0x33,
     dhcp_opt ''dhcptype'' OPTION_U8 0x35,
     dhcp_opt ''serverid'' OPTION_IP 0x36,
     dhcp_opt ''message'' OPTION_STRING 0x38,
     dhcp_opt ''tftp'' OPTION_STRING 0x42,
     dhcp_opt ''bootfile'' OPTION_STRING 0x43]"

definition option_lengths :: "u8 \<Rightarrow> nat" where
  "option_lengths t =
     (if t = OPTION_IP then 4 else if t = OPTION_IP_PAIR then 8
      else if t = OPTION_BOOLEAN then 1 else if t = OPTION_STRING then 1
      else if t = OPTION_U8 then 1 else if t = OPTION_U16 then 2
      else if t = OPTION_S16 then 2 else if t = OPTION_U32 then 4
      else if t = OPTION_S32 then 4 else 0)"

section \<open>Searching a message\<close>

text \<open>The loop of \<^verbatim>\<open>get_option\<close>. The state is the field being read (its address, its number and its
  length), the index and the overload byte.\<close>

function get_opt_loop :: "mem \<Rightarrow> u8 \<Rightarrow> nat \<Rightarrow> u8 \<Rightarrow> nat \<Rightarrow> nat \<Rightarrow> u8 \<Rightarrow> nat option" where
  "get_opt_loop m code optionptr cur len i over =
     (if len \<le> i then None
      else if m (optionptr + i + OPT_CODE) = code then
        (if len \<le> i + 1 + unat (m (optionptr + i + OPT_LEN)) then None
         else Some (optionptr + i + 2))
      else if m (optionptr + i + OPT_CODE) = DHCP_PADDING then
        get_opt_loop m code optionptr cur len (i + 1) over
      else if m (optionptr + i + OPT_CODE) = DHCP_OPTION_OVER then
        (if len \<le> i + 1 + unat (m (optionptr + i + OPT_LEN)) then None
         else get_opt_loop m code optionptr cur len
           (i + (unat (m (optionptr + OPT_LEN)) + 2)) (m (optionptr + i + 3)))
      else if m (optionptr + i + OPT_CODE) = DHCP_END then
        (if cur = OPTION_FIELD \<and> over AND FILE_FIELD \<noteq> 0 then
           get_opt_loop m code FILE_OFF FILE_FIELD 128 0 over
         else if cur = FILE_FIELD \<and> over AND SNAME_FIELD \<noteq> 0 then
           get_opt_loop m code SNAME_OFF SNAME_FIELD 64 0 over
         else None)
      else get_opt_loop m code optionptr cur len
        (i + (unat (m (optionptr + OPT_LEN + i)) + 2)) over)"
  by pat_completeness auto
termination
  by (relation "measures [\<lambda>(m, code, p, cur, len, i, over). 2 - unat cur,
      \<lambda>(m, code, p, cur, len, i, over). len - i]")
    (auto simp: OPTION_FIELD_def FILE_FIELD_def SNAME_FIELD_def)

declare get_opt_loop.simps [simp del]

definition get_option :: "mem \<Rightarrow> u8 \<Rightarrow> nat option" where
  "get_option m code = get_opt_loop m code OPTIONS_OFF OPTION_FIELD 308 0 0"

section \<open>Appending to a message\<close>

function end_option_from :: "u8 list \<Rightarrow> nat \<Rightarrow> nat option" where
  "end_option_from optionptr i =
     (case rd optionptr i of
        None \<Rightarrow> None
      | Some c \<Rightarrow>
          if c = DHCP_END then Some i
          else if c = DHCP_PADDING then end_option_from optionptr (i + 1)
          else case rd optionptr (i + OPT_LEN) of
              None \<Rightarrow> None
            | Some l \<Rightarrow> end_option_from optionptr (i + (unat l + 2)))"
  by pat_completeness auto
termination
  by (relation "measure (\<lambda>(p, i). length p - i)") (auto simp: rd_def split: if_splits)

declare end_option_from.simps [simp del]

definition end_option :: "u8 list \<Rightarrow> nat option" where
  "end_option optionptr = end_option_from optionptr 0"

definition add_option_string :: "u8 list \<Rightarrow> u8 list \<Rightarrow> (nat \<times> u8 list) option" where
  "add_option_string optionptr str = do {
     end \<leftarrow> end_option optionptr;
     len \<leftarrow> rd str OPT_LEN;
     if end + unat len + 2 + 1 \<ge> 308 then Some (0, optionptr) else do {
       data \<leftarrow> rdn str 0 (unat len + 2);
       p \<leftarrow> wrn optionptr end data;
       p \<leftarrow> wr p (end + unat len + 2) DHCP_END;
       Some (unat len + 2, p) } }"

text \<open>The length comes from the last table entry with the code. The switch stores the data at the
  start of a four byte word; any other length than 1, 2 or 4 would copy bytes it never wrote.\<close>

definition simple_option_length :: "u8 \<Rightarrow> nat" where
  "simple_option_length code = fold (\<lambda>opt len. if o_code opt = code
     then option_lengths (o_flags opt AND TYPE_MASK) else len) dhcp_options 0"

definition add_simple_option :: "u8 list \<Rightarrow> u8 \<Rightarrow> u32 \<Rightarrow> (nat \<times> u8 list) option" where
  "add_simple_option optionptr code data =
     (let len = simple_option_length code in
      if len = 0 then Some (0, optionptr) else do {
        d \<leftarrow> (if len = 1 then Some [ucast data] else if len = 2 then Some (be16 (ucast data))
              else if len = 4 then Some (be32 data) else None);
        add_option_string optionptr ([code, word_of_nat len] @ d) })"

section \<open>The configured option list\<close>

text \<open>\<^verbatim>\<open>struct option_set\<close>: a linked list of option strings (code, length, data), kept in ascending
  order of the code. \<^verbatim>\<open>find_option\<close> takes the code as a signed \<^verbatim>\<open>char\<close>; the position in the list
  stands for the pointer it returns.\<close>

fun find_option :: "u8 list list \<Rightarrow> u8 \<Rightarrow> nat option option" where
  "find_option [] code = Some None"
| "find_option (d # ds) code = do {
     c \<leftarrow> rd d OPT_CODE;
     if uint c < sint code then do {
       r \<leftarrow> find_option ds code;
       Some (map_option Suc r) }
     else if uint c = sint code then Some (Some 0) else Some None }"

fun insert_option :: "u8 list \<Rightarrow> u8 list list \<Rightarrow> u8 \<Rightarrow> u8 list list option" where
  "insert_option new [] code = Some [new]"
| "insert_option new (d # ds) code = do {
     c \<leftarrow> rd d OPT_CODE;
     if c < code then do {
       r \<leftarrow> insert_option new ds code;
       Some (d # r) }
     else Some (new # d # ds) }"

definition attach_option :: "u8 list list \<Rightarrow> dhcp_option \<Rightarrow> u8 list \<Rightarrow> u8 list list option" where
  "attach_option opt_list opt buffer = do {
     existing \<leftarrow> find_option opt_list (o_code opt);
     case existing of
       Some k \<Rightarrow>
         if o_flags opt AND OPTION_LIST \<noteq> 0 then do {
           d \<leftarrow> rd opt_list k;
           l \<leftarrow> rd d OPT_LEN;
           if unat l + length buffer \<le> 255 then do {
             d \<leftarrow> wrn (take (unat l + 2) d @ replicate (length buffer) 0) (unat l + 2) buffer;
             d \<leftarrow> wr d OPT_LEN (l + word_of_nat (length buffer));
             wr opt_list k d }
           else Some opt_list }
         else Some opt_list
     | None \<Rightarrow> insert_option ([o_code opt, word_of_nat (length buffer)] @ buffer) opt_list (o_code opt) }"

section \<open>Options as a list of codes and data\<close>

fun enc_opt :: "u8 \<times> u8 list \<Rightarrow> u8 list" where
  "enc_opt (c, d) = c # word_of_nat (length d) # d"

definition enc :: "(u8 \<times> u8 list) list \<Rightarrow> u8 list" where
  "enc os = concat (map enc_opt os)"

fun opt_ok :: "u8 \<times> u8 list \<Rightarrow> bool" where
  "opt_ok (c, d) \<longleftrightarrow> c \<noteq> DHCP_PADDING \<and> c \<noteq> DHCP_END \<and> c \<noteq> DHCP_OPTION_OVER \<and> length d < 256"

definition opts_in :: "u8 list \<Rightarrow> (u8 \<times> u8 list) list \<Rightarrow> bool" where
  "opts_in buf os \<longleftrightarrow> length buf = 308 \<and> list_all opt_ok os \<and> (\<exists>rest. buf = enc os @ DHCP_END # rest)"

text \<open>The offset at which the data of the first option with a code starts.\<close>

fun opt_off :: "u8 \<Rightarrow> (u8 \<times> u8 list) list \<Rightarrow> nat option" where
  "opt_off code [] = None"
| "opt_off code ((c, d) # os) =
     (if c = code then Some 2 else map_option (\<lambda>k. length d + 2 + k) (opt_off code os))"

lemma enc_simps [simp]:
  "enc [] = []" "enc ((c, d) # os) = c # word_of_nat (length d) # d @ enc os"
  "enc (os @ os') = enc os @ enc os'"
  by (simp_all add: enc_def)

lemma unat_len [simp]: "n < 256 \<Longrightarrow> unat (word_of_nat n :: u8) = n"
  by (simp add: unat_of_nat)

lemma end_option_from_enc:
  "list_all opt_ok os \<Longrightarrow>
   end_option_from (pre @ enc os @ DHCP_END # rest) (length pre) = Some (length pre + length (enc os))"
proof (induction os arbitrary: pre)
  case Nil
  then show ?case by (subst end_option_from.simps) (simp add: rd_def)
next
  case (Cons x os)
  obtain c d where x: "x = (c, d)" by (cases x)
  then have ok: "c \<noteq> DHCP_PADDING" "c \<noteq> DHCP_END" "length d < 256" using Cons.prems by auto
  have "end_option_from ((pre @ c # word_of_nat (length d) # d) @ enc os @ DHCP_END # rest)
      (length (pre @ c # word_of_nat (length d) # d)) = Some (length (pre @ c # word_of_nat (length d) # d) + length (enc os))"
    by (rule Cons.IH) (use Cons.prems in simp)
  with ok x show ?case
    by (subst end_option_from.simps) (simp add: rd_def OPT_LEN_def nth_append)
qed

lemma end_option_opts:
  assumes "opts_in buf os" shows "end_option buf = Some (length (enc os))"
proof -
  obtain rest where "buf = enc os @ DHCP_END # rest" "list_all opt_ok os"
    using assms by (auto simp: opts_in_def)
  then show ?thesis using end_option_from_enc [of os "[]" rest] by (simp add: end_option_def)
qed

text \<open>\<^verbatim>\<open>add_option_string\<close> appends the option when it fits, and otherwise leaves the field alone.\<close>

lemma add_option_string_opts:
  assumes b: "opts_in buf os" and ok: "opt_ok (c, d)"
  shows "length (enc os) + length d + 3 \<ge> 308 \<Longrightarrow>
      add_option_string buf (c # word_of_nat (length d) # d @ tail) = Some (0, buf)"
    and "length (enc os) + length d + 3 < 308 \<Longrightarrow>
      \<exists>buf'. add_option_string buf (c # word_of_nat (length d) # d @ tail) = Some (length d + 2, buf')
        \<and> opts_in buf' (os @ [(c, d)])"
proof -
  let ?s = "c # word_of_nat (length d) # d @ tail"
  have s: "rd ?s OPT_LEN = Some (word_of_nat (length d))" "unat (word_of_nat (length d) :: u8) = length d"
    using ok by (simp_all add: rd_def OPT_LEN_def)
  note e = end_option_opts [OF b]
  show "add_option_string buf ?s = Some (0, buf)" if "length (enc os) + length d + 3 \<ge> 308"
    using that by (simp add: add_option_string_def e s)
  assume fit: "length (enc os) + length d + 3 < 308"
  obtain rest where r: "buf = enc os @ DHCP_END # rest" "length buf = 308"
    using b by (auto simp: opts_in_def)
  define ys zs where "ys = take (length d + 2) (DHCP_END # rest)" and "zs = drop (length d + 2) (DHCP_END # rest)"
  have yz: "buf = enc os @ ys @ zs" "length ys = length d + 2" "zs \<noteq> []"
    using r fit by (auto simp: ys_def zs_def simp del: take_Suc_Cons drop_Suc_Cons)
  have d: "rdn ?s 0 (length d + 2) = Some (c # word_of_nat (length d) # d)"
    by (simp add: rdn_def)
  have w: "wrn buf (length (enc os)) (c # word_of_nat (length d) # d) = Some (enc (os @ [(c, d)]) @ zs)"
    using yz wrn_append [of "c # word_of_nat (length d) # d" ys "enc os" zs] by simp
  obtain z zs' where z: "zs = z # zs'" using yz(3) by (cases zs) auto
  have "wr (enc (os @ [(c, d)]) @ zs) (length (enc os) + length d + 2) DHCP_END
      = Some (enc (os @ [(c, d)]) @ DHCP_END # zs')"
    using z by (simp add: wr_def list_update_append)
  moreover have "length (enc os) + (length ys + length zs) = 308" using r(2) yz(1) by simp
  then have "opts_in (enc (os @ [(c, d)]) @ DHCP_END # zs') (os @ [(c, d)])"
    using b ok yz(2) z by (simp add: opts_in_def)
  ultimately show "\<exists>buf'. add_option_string buf ?s = Some (length d + 2, buf') \<and> opts_in buf' (os @ [(c, d)])"
    using fit d w by (auto simp: add_option_string_def e s)
qed

section \<open>What a search finds\<close>

lemma get_opt_loop_enc:
  assumes "list_all opt_ok os" and "code \<noteq> DHCP_PADDING" and "code \<noteq> DHCP_END"
    and "\<And>i. i < length (pre @ enc os) + 1 \<Longrightarrow> m (p + i) = (pre @ enc os @ [DHCP_END]) ! i"
    and "length (pre @ enc os) < n"
  shows "get_opt_loop m code p OPTION_FIELD n (length pre) 0
    = map_option (\<lambda>k. p + length pre + k) (opt_off code os)"
  using assms
proof (induction os arbitrary: pre)
  case Nil
  then have "m (p + length pre) = DHCP_END" by (simp add: nth_append)
  with Nil show ?case
    by (subst get_opt_loop.simps) (auto simp: OPT_CODE_def opt_codes OPTION_FIELD_def FILE_FIELD_def)
next
  case (Cons x os)
  obtain c d where x: "x = (c, d)" by (cases x)
  then have ok: "c \<noteq> DHCP_PADDING" "c \<noteq> DHCP_END" "c \<noteq> DHCP_OPTION_OVER" "length d < 256"
    using Cons.prems(1) by auto
  have c: "m (p + length pre) = c" and l: "m (p + length pre + 1) = word_of_nat (length d)"
    using Cons.prems(4) [of "length pre"] Cons.prems(4) [of "length pre + 1"] x
    by (simp_all add: nth_append)
  let ?pre = "pre @ c # word_of_nat (length d) # d"
  have "get_opt_loop m code p OPTION_FIELD n (length ?pre) 0
      = map_option (\<lambda>k. p + length ?pre + k) (opt_off code os)"
    by (rule Cons.IH) (use Cons.prems x in auto)
  moreover have "length pre + 1 + length d < n" "length pre < n" using Cons.prems(5) x by simp_all
  ultimately show ?case
    using ok x c l Cons.prems(2,3)
    by (subst get_opt_loop.simps)
      (auto simp: OPT_CODE_def OPT_LEN_def option.map_comp o_def ac_simps intro!: option.map_cong0)
qed

lemma opt_off_data:
  "opt_off code os = Some k \<Longrightarrow> \<exists>d. map_of os code = Some d \<and> 2 \<le> k \<and> k + length d \<le> length (enc os)
     \<and> enc os ! (k - 1) = word_of_nat (length d) \<and> take (length d) (drop k (enc os)) = d"
proof (induction os arbitrary: k)
  case (Cons x os)
  obtain c d where x: "x = (c, d)" by (cases x)
  show ?case
  proof (cases "c = code")
    case False
    then obtain k' where k: "opt_off code os = Some k'" "k = length d + 2 + k'"
      using Cons.prems x by auto
    then obtain e where e: "map_of os code = Some e" "2 \<le> k'" "k' + length e \<le> length (enc os)"
        "enc os ! (k' - 1) = word_of_nat (length e)" "take (length e) (drop k' (enc os)) = e"
      using Cons.IH by blast
    have "enc (x # os) ! (k - 1) = enc os ! (k' - 1)"
    proof -
      have "k - 1 = Suc (Suc (length d + (k' - 1)))" using k(2) e(2) by simp
      then show ?thesis using x by (simp only: enc_simps nth_Cons_Suc nth_append_length_plus)
    qed
    moreover have "drop k (enc (x # os)) = drop k' (enc os)" using k(2) x by simp
    ultimately show ?thesis using e k(2) x False by simp
  qed (use Cons.prems x in auto)
qed simp

lemma opt_off_None: "opt_off code os = None \<longleftrightarrow> map_of os code = None"
  by (induction os) (auto split: if_splits)

section \<open>The contract of the option field\<close>

text \<open>The callers add options to the field of a message and ignore or use the number of bytes
  added; they read an option as the pointer \<^verbatim>\<open>get_option\<close> returns, with its length one byte before.\<close>

definition pkt_add :: "dhcpMessage \<Rightarrow> u8 list \<Rightarrow> (nat \<times> dhcpMessage) option" where
  "pkt_add p str = do {
     (n, buf) \<leftarrow> add_option_string (options p) str;
     Some (n, p\<lparr>options := buf\<rparr>) }"

definition pkt_add_simple :: "dhcpMessage \<Rightarrow> u8 \<Rightarrow> u32 \<Rightarrow> dhcpMessage option" where
  "pkt_add_simple p code data = do {
     (n, buf) \<leftarrow> add_simple_option (options p) code data;
     Some (p\<lparr>options := buf\<rparr>) }"

definition opt_data :: "mem \<Rightarrow> u8 \<Rightarrow> u8 list option" where
  "opt_data m code = map_option (\<lambda>k. map m [k..<k + unat (m (k - 1))]) (get_option m code)"

definition pkt_rep :: "dhcpMessage \<Rightarrow> (u8 \<times> u8 list) list \<Rightarrow> bool" where
  "pkt_rep p os \<longleftrightarrow> wf_pkt p \<and> opts_in (options p) os"

definition opt_fits :: "(u8 \<times> u8 list) list \<Rightarrow> u8 list \<Rightarrow> bool" where
  "opt_fits os d \<longleftrightarrow> length (enc os) + length d + 3 < 308"

locale option_store =
  fixes rep :: "'b \<Rightarrow> (u8 \<times> u8 list) list \<Rightarrow> bool"
    and fits :: "(u8 \<times> u8 list) list \<Rightarrow> u8 list \<Rightarrow> bool"
    and add :: "'b \<Rightarrow> u8 list \<Rightarrow> (nat \<times> 'b) option"
    and get :: "'b \<Rightarrow> u8 \<Rightarrow> u8 list option"
  assumes add_fits: "rep b os \<Longrightarrow> opt_ok (c, d) \<Longrightarrow> fits os d \<Longrightarrow>
      \<exists>b'. add b (enc_opt (c, d)) = Some (length d + 2, b') \<and> rep b' (os @ [(c, d)])"
    and add_full: "rep b os \<Longrightarrow> opt_ok (c, d) \<Longrightarrow> \<not> fits os d \<Longrightarrow> add b (enc_opt (c, d)) = Some (0, b)"
    and get_law: "rep b os \<Longrightarrow> opt_ok (c, []) \<Longrightarrow> get b c = map_of os c"
begin

text \<open>An option that was added is found, and adding one never hides another.\<close>

lemma get_added:
  assumes "rep b os" and "opt_ok (c, d)" and "fits os d" and "get b c = None"
  shows "\<exists>b'. add b (enc_opt (c, d)) = Some (length d + 2, b') \<and> get b' c = Some d
    \<and> (\<forall>c'. opt_ok (c', []) \<longrightarrow> c' \<noteq> c \<longrightarrow> get b' c' = get b c')"
proof -
  obtain b' where b': "add b (enc_opt (c, d)) = Some (length d + 2, b')" "rep b' (os @ [(c, d)])"
    using add_fits [OF assms(1-3)] by blast
  have "opt_ok (c, [])" using assms(2) by simp
  then have "map_of os c = None" using get_law [OF assms(1)] assms(4) by simp
  then have "map_of (os @ [(c, d)]) c = Some d" by (simp add: map_add_def)
  moreover have "map_of (os @ [(c, d)]) c' = map_of os c'" if "c' \<noteq> c" for c'
    using that by (auto simp: map_add_def split: option.splits)
  ultimately show ?thesis using b' get_law [OF b'(2)] get_law [OF assms(1)] assms(2) by auto
qed

lemma add_keeps:
  assumes "rep b os" and "opt_ok (c, d)"
  shows "\<exists>n b' os'. add b (enc_opt (c, d)) = Some (n, b') \<and> rep b' os'
    \<and> (os' = os \<and> n = 0 \<or> os' = os @ [(c, d)] \<and> n = length d + 2)"
  using add_fits [OF assms] add_full [OF assms] assms(1) by (cases "fits os d") blast+

end

lemma length_pkt_bytes: "wf_pkt p \<Longrightarrow> length (pkt_bytes p) = 548"
  by (simp add: pkt_bytes_def wf_pkt_def)

lemma pkt_mem_options:
  assumes "wf_pkt p" and "i < 308"
  shows "pkt_mem junk p (OPTIONS_OFF + i) = options p ! i"
proof -
  define hdr where "hdr = [op p, htype p, hlen p, hops p] @ be32 (xid p) @ be16 (secs p) @ be16 (flags p) @
     be32 (ciaddr p) @ be32 (yiaddr p) @ be32 (siaddr p) @ be32 (giaddr p) @
     chaddr p @ sname p @ bfile p @ be32 (cookie p)"
  have "pkt_bytes p = hdr @ options p" by (simp add: hdr_def pkt_bytes_def)
  moreover have "length hdr = OPTIONS_OFF" using assms(1) by (simp add: hdr_def wf_pkt_def OPTIONS_OFF_def)
  ultimately show ?thesis
    using assms nth_append_length_plus [of hdr "options p" i] by (simp add: pkt_mem_def wf_pkt_def)
qed

lemma get_option_opts:
  assumes p: "pkt_rep p os" and c: "code \<noteq> DHCP_PADDING" "code \<noteq> DHCP_END"
  shows "get_option (pkt_mem junk p) code = map_option (\<lambda>k. OPTIONS_OFF + k) (opt_off code os)"
proof -
  obtain rest where r: "options p = enc os @ DHCP_END # rest" and ok: "list_all opt_ok os"
    and wf: "wf_pkt p" and l: "length (options p) = 308"
    using p by (auto simp: pkt_rep_def opts_in_def)
  have "pkt_mem junk p (OPTIONS_OFF + i) = ([] @ enc os @ [DHCP_END]) ! i"
    if "i < length ([] @ enc os) + 1" for i
    using pkt_mem_options [OF wf, of i junk] that r l by (simp add: nth_append)
  from get_opt_loop_enc [OF ok c this, of 308] show ?thesis
    using r l by (simp add: get_option_def)
qed

lemma opt_data_opts:
  assumes p: "pkt_rep p os" and c: "opt_ok (code, [])"
  shows "opt_data (pkt_mem junk p) code = map_of os code"
proof (cases "opt_off code os")
  case None
  then show ?thesis using get_option_opts [OF p, of code junk] c by (simp add: opt_data_def opt_off_None)
next
  case (Some k)
  obtain d where d: "map_of os code = Some d" "2 \<le> k" "k + length d \<le> length (enc os)"
      "enc os ! (k - 1) = word_of_nat (length d)" "take (length d) (drop k (enc os)) = d"
    using opt_off_data [OF Some] by blast
  obtain rest where r: "options p = enc os @ DHCP_END # rest" and ok: "list_all opt_ok os"
    and wf: "wf_pkt p" and l: "length (options p) = 308"
    using p by (auto simp: pkt_rep_def opts_in_def)
  have m: "pkt_mem junk p (OPTIONS_OFF + i) = enc os ! i" if "i < length (enc os)" for i
    using pkt_mem_options [OF wf, of i junk] that r l by (simp add: nth_append)
  have "(code, d) \<in> set os" using d(1) by (rule map_of_SomeD)
  then have dl: "length d < 256" using ok by (auto simp: list_all_iff)
  have "pkt_mem junk p (OPTIONS_OFF + k - 1) = word_of_nat (length d)"
    using m [of "k - 1"] d(2-4) by (simp add: OPTIONS_OFF_def)
  moreover have "map (pkt_mem junk p) [OPTIONS_OFF + k..<OPTIONS_OFF + k + length d] = d"
  proof (rule nth_equalityI)
    fix i assume "i < length (map (pkt_mem junk p) [OPTIONS_OFF + k..<OPTIONS_OFF + k + length d])"
    then have i: "i < length d" by simp
    have "d ! i = take (length d) (drop k (enc os)) ! i" using d(5) by simp
    also have "\<dots> = enc os ! (k + i)" using i d(3) by simp
    finally show "map (pkt_mem junk p) [OPTIONS_OFF + k..<OPTIONS_OFF + k + length d] ! i = d ! i"
      using m [of "k + i"] i d(3) by (simp add: add.assoc)
  qed simp
  ultimately show ?thesis
    using get_option_opts [OF p, of code junk] c Some d(1) dl by (simp add: opt_data_def)
qed

lemma pkt_rep_upd:
  "pkt_rep p os \<Longrightarrow> opts_in buf os' \<Longrightarrow> pkt_rep (p\<lparr>options := buf\<rparr>) os'"
  by (simp add: pkt_rep_def wf_pkt_def opts_in_def)

interpretation ps: option_store pkt_rep opt_fits pkt_add "\<lambda>p. opt_data (pkt_mem junk p)" for junk
proof unfold_locales
  fix p os c d assume p: "pkt_rep p os" and ok: "opt_ok (c, d)"
  then have o: "opts_in (options p) os" by (simp add: pkt_rep_def)
  show "\<exists>p'. pkt_add p (enc_opt (c, d)) = Some (length d + 2, p') \<and> pkt_rep p' (os @ [(c, d)])"
    if "opt_fits os d"
    using add_option_string_opts(2) [OF o ok, of "[]"] that p
    by (auto simp: opt_fits_def pkt_add_def intro: pkt_rep_upd)
  show "pkt_add p (enc_opt (c, d)) = Some (0, p)" if "\<not> opt_fits os d"
    using add_option_string_opts(1) [OF o ok, of "[]"] that by (simp add: opt_fits_def pkt_add_def)
qed (rule opt_data_opts)

section \<open>Bounds of a search\<close>

lemma get_opt_loop_bounds:
  assumes "get_opt_loop m code p cur n i over = Some k"
    and "(p, n) \<in> {(OPTIONS_OFF, 308), (FILE_OFF, 128), (SNAME_OFF, 64)}"
  shows "m (k - 2) = code \<and> (\<exists>(p, n) \<in> {(OPTIONS_OFF, 308), (FILE_OFF, 128), (SNAME_OFF, 64)}.
    p + 2 \<le> k \<and> k + unat (m (k - 1)) \<le> p + n)"
  using assms
proof (induction m code p cur n i over rule: get_opt_loop.induct)
  case (1 m code p cur n i over)
  show ?case
  proof (cases "m (p + i) = code \<and> i < n")
    case True
    then have k: "k = p + i + 2" "i + 1 + unat (m (p + i + 1)) < n"
      using "1.prems"(1) by (subst (asm) get_opt_loop.simps, simp add: OPT_CODE_def OPT_LEN_def split: if_splits)+
    have "k - 2 = p + i" "k - 1 = p + i + 1" using k(1) by simp_all
    with True k "1.prems"(2) show ?thesis by (intro conjI bexI [of _ "(p, n)"]) simp_all
  next
    case False
    then show ?thesis
      using "1.prems" "1.IH" by (subst (asm) get_opt_loop.simps) (simp add: OPT_CODE_def split: if_splits)
  qed
qed

section \<open>The configured list stays sorted\<close>

text \<open>A configured option list seen as codes with data: strictly ascending codes below 128, data of
  at most 255 bytes.\<close>

definition olist_ok :: "(u8 \<times> u8 list) list \<Rightarrow> bool" where
  "olist_ok os \<longleftrightarrow> sorted_wrt (\<lambda>x y. fst x < fst y) os \<and> (\<forall>(c, d) \<in> set os. c < 128 \<and> length d < 256)"

fun attach_spec :: "(u8 \<times> u8 list) list \<Rightarrow> u8 \<Rightarrow> bool \<Rightarrow> u8 list \<Rightarrow> (u8 \<times> u8 list) list" where
  "attach_spec [] code lst buf = [(code, buf)]"
| "attach_spec ((c, d) # os) code lst buf =
     (if c < code then (c, d) # attach_spec os code lst buf
      else if c = code then
        (if lst \<and> length d + length buf \<le> 255 then (c, d @ buf) else (c, d)) # os
      else (code, buf) # (c, d) # os)"

lemma sint_small: "c < 128 \<Longrightarrow> sint c = uint c" for c :: u8
proof -
  assume "c < 128"
  then have "uint c < 128" by (simp add: word_less_def)
  moreover have "sint c = signed_take_bit 7 (uint c)"
    by (simp add: signed_take_bit_eq_if_positive sint_uint)
  moreover have "- (2 ^ 7) \<le> uint c" by (rule order_trans [OF _ uint_ge_0]) simp
  ultimately show ?thesis using signed_take_bit_int_eq_self [of 7 "uint c"] by simp
qed

lemma code_less: "c < 128 \<Longrightarrow> uint x < sint c \<longleftrightarrow> x < c" for c x :: u8
  by (simp add: sint_small word_less_def)

lemma code_eq: "c < 128 \<Longrightarrow> uint x = sint c \<longleftrightarrow> x = c" for c x :: u8
  by (simp add: sint_small word_uint_eq_iff)

lemma find_option_present:
  assumes "c < 128" and "\<forall>x \<in> set ps. fst x < c"
  shows "find_option (map enc_opt (ps @ (c, d) # qs)) c = Some (Some (length ps))"
  using assms(2) by (induction ps) (auto simp: rd_def OPT_CODE_def code_less code_eq assms(1))

lemma find_option_absent:
  assumes "c < 128" and "\<forall>x \<in> set ps. fst x < c" and "\<forall>x \<in> set qs. c < fst x"
  shows "find_option (map enc_opt (ps @ qs)) c = Some None"
    and "insert_option new (map enc_opt (ps @ qs)) c = Some (map enc_opt ps @ new # map enc_opt qs)"
proof -
  have "find_option (map enc_opt qs) c = Some None"
    "insert_option new (map enc_opt qs) c = Some (new # map enc_opt qs)"
    using assms(3) by (cases qs; auto simp: rd_def OPT_CODE_def code_less code_eq assms(1))+
  with assms(2) show "find_option (map enc_opt (ps @ qs)) c = Some None"
    "insert_option new (map enc_opt (ps @ qs)) c = Some (map enc_opt ps @ new # map enc_opt qs)"
    by (induction ps) (auto simp: rd_def OPT_CODE_def code_less code_eq assms(1))
qed

lemma olist_split:
  assumes "olist_ok os"
  obtains (present) ps d qs where "os = ps @ (c, d) # qs" "\<forall>x \<in> set ps. fst x < c" "\<forall>x \<in> set qs. c < fst x"
    | (absent) ps qs where "os = ps @ qs" "\<forall>x \<in> set ps. fst x < c" "\<forall>x \<in> set qs. c < fst x"
proof -
  define ps qs where "ps = takeWhile (\<lambda>x. fst x < c) os" and "qs = dropWhile (\<lambda>x. fst x < c) os"
  have os: "os = ps @ qs" by (simp add: ps_def qs_def)
  have ps: "\<forall>x \<in> set ps. fst x < c" by (auto simp: ps_def dest: set_takeWhileD)
  show ?thesis
  proof (cases qs)
    case Nil
    then show ?thesis using absent [of ps "[]"] os ps by simp
  next
    case (Cons y ys)
    have y: "\<not> fst y < c" using hd_dropWhile [of "\<lambda>x. fst x < c" os] Cons unfolding qs_def [symmetric] by simp
    have ys: "\<forall>z \<in> set ys. fst y < fst z"
      using assms os Cons by (simp add: olist_ok_def sorted_wrt_append)
    show ?thesis
    proof (cases "fst y = c")
      case True
      then show ?thesis using present [of ps "snd y" ys] os ps Cons ys by (cases y) auto
    next
      case False
      then have "c < fst y" using y by simp
      then show ?thesis using absent [of ps qs] os ps Cons ys by (auto dest: less_trans)
    qed
  qed
qed

lemma attach_spec_present:
  "\<forall>x \<in> set ps. fst x < c \<Longrightarrow> attach_spec (ps @ (c, d) # qs) c lst buf
     = ps @ (if lst \<and> length d + length buf \<le> 255 then (c, d @ buf) else (c, d)) # qs"
  by (induction ps) auto

lemma attach_spec_absent:
  "\<forall>x \<in> set ps. fst x < c \<Longrightarrow> \<forall>x \<in> set qs. c < fst x \<Longrightarrow> attach_spec (ps @ qs) c lst buf = ps @ (c, buf) # qs"
proof (induction ps)
  case Nil
  then show ?case by (cases qs) auto
qed auto

lemma attach_refines:
  assumes ok: "olist_ok os" and c: "o_code opt < 128" and b: "length buf < 256"
  defines "os' \<equiv> attach_spec os (o_code opt) (o_flags opt AND OPTION_LIST \<noteq> 0) buf"
  shows "attach_option (map enc_opt os) opt buf = Some (map enc_opt os') \<and> olist_ok os'"
  using ok
proof (cases rule: olist_split [where c = "o_code opt"])
  case (present ps d qs)
  have d: "length d < 256" using ok present(1) by (auto simp: olist_ok_def)
  have k: "rd (map enc_opt os) (length ps) = Some (enc_opt (o_code opt, d))"
    using present(1) by (simp add: rd_def nth_append)
  have u: "map enc_opt ps @ e # map enc_opt qs = (map enc_opt os)[length ps := e]" for e
    using present(1) by (simp add: list_update_append)
  have l: "length ps < length os" using present(1) by simp
  show ?thesis
  proof (cases "o_flags opt AND OPTION_LIST \<noteq> 0 \<and> length d + length buf \<le> 255")
    case True
    have os': "os' = ps @ (o_code opt, d @ buf) # qs"
      using True by (simp add: os'_def present(1) attach_spec_present [OF present(2)])
    have "wrn (take (length d + 2) (enc_opt (o_code opt, d)) @ replicate (length buf) 0) (length d + 2) buf
        = Some (enc_opt (o_code opt, d) @ buf)"
      by (simp add: wrn_def)
    moreover have "wr (enc_opt (o_code opt, d) @ buf) OPT_LEN (word_of_nat (length d) + word_of_nat (length buf))
        = Some (enc_opt (o_code opt, d @ buf))"
      by (simp add: wr_def OPT_LEN_def)
    moreover have "rd (enc_opt (o_code opt, d)) OPT_LEN = Some (word_of_nat (length d))"
      by (simp add: rd_def OPT_LEN_def)
    ultimately have "attach_option (map enc_opt os) opt buf = Some (map enc_opt os')"
      using True k l d find_option_present [OF c present(2), of d qs]
      unfolding attach_option_def present(1) [symmetric] os'
      by (simp add: wr_def u del: enc_opt.simps)
    moreover have "olist_ok os'" using ok present True unfolding os'
      by (auto simp: olist_ok_def sorted_wrt_append)
    ultimately show ?thesis by blast
  next
    case False
    have os': "os' = os"
      using False by (auto simp: os'_def present(1) attach_spec_present [OF present(2)])
    have "attach_option (map enc_opt os) opt buf = Some (map enc_opt os)"
      using False k d find_option_present [OF c present(2), of d qs]
      unfolding attach_option_def present(1) [symmetric]
      by (auto simp: rd_def OPT_LEN_def)
    then show ?thesis using ok os' by simp
  qed
next
  case (absent ps qs)
  have os': "os' = ps @ (o_code opt, buf) # qs"
    by (simp add: os'_def absent(1) attach_spec_absent [OF absent(2,3)])
  have "attach_option (map enc_opt os) opt buf = Some (map enc_opt os')"
    using find_option_absent [OF c absent(2,3)] unfolding attach_option_def absent(1) os' by simp
  moreover have "olist_ok os'" using ok absent c b unfolding os'
    by (fastforce simp: olist_ok_def sorted_wrt_append)
  ultimately show ?thesis by blast
qed

section \<open>Simple options\<close>

lemma code_neq [simp]:
  "DHCP_SUBNET \<noteq> DHCP_PADDING" "DHCP_SUBNET \<noteq> DHCP_END" "DHCP_SUBNET \<noteq> DHCP_OPTION_OVER"
  "DHCP_HOST_NAME \<noteq> DHCP_PADDING" "DHCP_HOST_NAME \<noteq> DHCP_END" "DHCP_HOST_NAME \<noteq> DHCP_OPTION_OVER"
  "DHCP_REQUESTED_IP \<noteq> DHCP_PADDING" "DHCP_REQUESTED_IP \<noteq> DHCP_END" "DHCP_REQUESTED_IP \<noteq> DHCP_OPTION_OVER"
  "DHCP_LEASE_TIME \<noteq> DHCP_PADDING" "DHCP_LEASE_TIME \<noteq> DHCP_END" "DHCP_LEASE_TIME \<noteq> DHCP_OPTION_OVER"
  "DHCP_MESSAGE_TYPE \<noteq> DHCP_PADDING" "DHCP_MESSAGE_TYPE \<noteq> DHCP_END" "DHCP_MESSAGE_TYPE \<noteq> DHCP_OPTION_OVER"
  "DHCP_SERVER_ID \<noteq> DHCP_PADDING" "DHCP_SERVER_ID \<noteq> DHCP_END" "DHCP_SERVER_ID \<noteq> DHCP_OPTION_OVER"
  "DHCP_PARAM_REQ \<noteq> DHCP_PADDING" "DHCP_PARAM_REQ \<noteq> DHCP_END" "DHCP_PARAM_REQ \<noteq> DHCP_OPTION_OVER"
  "DHCP_MESSAGE \<noteq> DHCP_PADDING" "DHCP_MESSAGE \<noteq> DHCP_END" "DHCP_MESSAGE \<noteq> DHCP_OPTION_OVER"
  "DHCP_VENDOR \<noteq> DHCP_PADDING" "DHCP_VENDOR \<noteq> DHCP_END" "DHCP_VENDOR \<noteq> DHCP_OPTION_OVER"
  "DHCP_CLIENT_ID \<noteq> DHCP_PADDING" "DHCP_CLIENT_ID \<noteq> DHCP_END" "DHCP_CLIENT_ID \<noteq> DHCP_OPTION_OVER"
  by (simp_all add: opt_codes)

lemma simple_lengths [simp]:
  "simple_option_length DHCP_MESSAGE_TYPE = 1" "simple_option_length DHCP_SERVER_ID = 4"
  "simple_option_length DHCP_LEASE_TIME = 4" "simple_option_length DHCP_REQUESTED_IP = 4"
  "simple_option_length DHCP_SUBNET = 4"
  by (simp_all add: simple_option_length_def dhcp_options_def dhcp_opt_def opt_codes opt_types
    option_lengths_def)

definition simple_data :: "u8 \<Rightarrow> u32 \<Rightarrow> u8 list" where
  "simple_data code data = (if simple_option_length code = 1 then [ucast data]
     else if simple_option_length code = 2 then be16 (ucast data) else be32 data)"

lemma pkt_add_simple_eq:
  assumes "simple_option_length code \<in> {1, 2, 4}"
  shows "pkt_add_simple p code data
    = map_option snd (pkt_add p (enc_opt (code, simple_data code data)))"
  using assms
  by (cases "add_option_string (options p) (enc_opt (code, simple_data code data))")
    (auto simp: pkt_add_simple_def pkt_add_def add_simple_option_def simple_data_def)

lemma pkt_add_frame: "pkt_add p str = Some (n, p') \<Longrightarrow> p' = p\<lparr>options := options p'\<rparr>"
  by (auto simp: pkt_add_def bind_eq_Some_conv)

text \<open>Adding an option to a message in good form: it is appended, or dropped when it does not fit;
  the rest of the message is untouched.\<close>

lemma pkt_add_string_rep:
  assumes "pkt_rep p os" and "opt_ok (c, d)"
  shows "\<exists>n p' os'. pkt_add p (enc_opt (c, d)) = Some (n, p') \<and> pkt_rep p' os' \<and> p' = p\<lparr>options := options p'\<rparr>
    \<and> os' = os @ (if opt_fits os d then [(c, d)] else [])"
  using ps.add_fits [OF assms] ps.add_full [OF assms] assms(1) pkt_add_frame
  by (cases "opt_fits os d") fastforce+

lemma pkt_add_simple_rep:
  assumes "pkt_rep p os" and "simple_option_length c \<in> {1, 2, 4}" and "opt_ok (c, [])"
  shows "\<exists>p' os'. pkt_add_simple p c x = Some p' \<and> pkt_rep p' os' \<and> p' = p\<lparr>options := options p'\<rparr>
    \<and> os' = os @ (if opt_fits os (simple_data c x) then [(c, simple_data c x)] else [])"
proof -
  have "opt_ok (c, simple_data c x)" using assms(3) by (simp add: simple_data_def)
  then show ?thesis
    using pkt_add_string_rep [OF assms(1)] pkt_add_simple_eq [OF assms(2)] by fastforce
qed

text \<open>The part of a message that the option writers leave alone.\<close>

definition same_hdr :: "dhcpMessage \<Rightarrow> dhcpMessage \<Rightarrow> bool" where
  "same_hdr p q \<longleftrightarrow> op q = op p \<and> xid q = xid p \<and> flags q = flags p \<and> ciaddr q = ciaddr p \<and>
     yiaddr q = yiaddr p \<and> giaddr q = giaddr p \<and> chaddr q = chaddr p \<and> cookie q = cookie p"

lemma same_hdr_trans: "same_hdr p q \<Longrightarrow> same_hdr q r \<Longrightarrow> same_hdr p r"
  by (simp add: same_hdr_def)

lemma same_hdr_options: "p' = p\<lparr>options := options p'\<rparr> \<Longrightarrow> same_hdr p p'"
  unfolding same_hdr_def by (metis dhcpMessage.select_convs dhcpMessage.surjective dhcpMessage.update_convs(16))

section \<open>Properties\<close>

definition blank_pkt :: dhcpMessage where
  "blank_pkt = \<lparr>op = 1, htype = 1, hlen = 6, hops = 0, xid = 0, secs = 0, flags = 0, ciaddr = 0,
     yiaddr = 0, siaddr = 0, giaddr = 0, chaddr = replicate 16 0, sname = replicate 64 0,
     bfile = replicate 128 0, cookie = 0x63825363, options = DHCP_END # replicate 307 0\<rparr>"

lemma blank_pkt_rep: "pkt_rep blank_pkt []"
  by (simp add: pkt_rep_def opts_in_def wf_pkt_def blank_pkt_def)

text \<open>Claim C8: options written by \<^verbatim>\<open>add_option_string\<close> are read back by \<^verbatim>\<open>get_option\<close>. For a message whose
  option field holds options ended by \<^verbatim>\<open>DHCP_END\<close>, adding an option that fits and was not there makes
  the search find exactly its data, whatever memory lies behind the message, and changes the answer
  for no other code.\<close>

theorem option_roundtrip:
  assumes "pkt_rep p os" and "opt_ok (c, d)" and "opt_fits os d"
    and "opt_data (pkt_mem junk p) c = None"
  shows "\<exists>p'. pkt_add p (enc_opt (c, d)) = Some (length d + 2, p')
    \<and> opt_data (pkt_mem junk p') c = Some d
    \<and> (\<forall>c'. opt_ok (c', []) \<longrightarrow> c' \<noteq> c \<longrightarrow> opt_data (pkt_mem junk p') c' = opt_data (pkt_mem junk p) c')"
  using assms by (rule ps.get_added)

theorem option_roundtrip_witness:
  "\<exists>p'. pkt_add blank_pkt (enc_opt (DHCP_HOST_NAME, [0x61, 0x62])) = Some (4, p')
    \<and> opt_data (pkt_mem (\<lambda>_. 7) p') DHCP_HOST_NAME = Some [0x61, 0x62]"
proof -
  have "opt_data (pkt_mem (\<lambda>_. 7) blank_pkt) DHCP_HOST_NAME = None"
    using opt_data_opts [OF blank_pkt_rep, of DHCP_HOST_NAME] by (simp add: opt_codes)
  then show ?thesis
    using option_roundtrip [OF blank_pkt_rep, of DHCP_HOST_NAME "[0x61, 0x62]" "\<lambda>_. 7"]
    by (auto simp: opt_codes opt_fits_def)
qed

text \<open>Claim C30: \<^verbatim>\<open>get_option\<close> always ends, and a pointer it returns is sound for every message: the byte
  two before it is the code asked for, and the length byte before it keeps the data inside one of
  the three option fields.\<close>

theorem get_option_in_bounds:
  assumes "get_option m code = Some k"
  shows "m (k - 2) = code \<and> (\<exists>(p, n) \<in> {(OPTIONS_OFF, 308), (FILE_OFF, 128), (SNAME_OFF, 64)}.
    p + 2 \<le> k \<and> k + unat (m (k - 1)) \<le> p + n)"
  using assms unfolding get_option_def by (rule get_opt_loop_bounds) simp

theorem get_option_in_bounds_witness:
  "get_option (\<lambda>i. if i = 240 then 0x35 else if i = 241 then 1 else if i = 242 then 3 else 0xFF) DHCP_MESSAGE_TYPE = Some 242
   \<and> 242 + unat (1 :: u8) \<le> OPTIONS_OFF + 308"
proof -
  let ?m = "\<lambda>i. if i = 240 then 0x35 else if i = 241 then 1 else if i = 242 then 3 else (0xFF :: u8)"
  have "get_option ?m DHCP_MESSAGE_TYPE = Some 242"
    by (simp add: get_option_def get_opt_loop.simps opt_codes OPTIONS_OFF_def OPT_CODE_def OPT_LEN_def)
  with get_option_in_bounds [OF this] show ?thesis by (simp add: OPTIONS_OFF_def FILE_OFF_def SNAME_OFF_def)
qed

text \<open>Claim C29: \<^verbatim>\<open>attach_option\<close> keeps the configured option list in strictly ascending order of code with
  correct length bytes, and implements insertion: a new code is inserted at its place, data for a
  list-valued code is appended when the result fits 255 bytes, and is ignored otherwise.\<close>

theorem attach_option_refines:
  assumes "olist_ok os" and "o_code opt < 128" and "length buf < 256"
  shows "let os' = attach_spec os (o_code opt) (o_flags opt AND OPTION_LIST \<noteq> 0) buf in
    attach_option (map enc_opt os) opt buf = Some (map enc_opt os') \<and> olist_ok os'"
  using attach_refines [OF assms] by (simp add: Let_def)

theorem attach_option_refines_witness:
  "attach_option (map enc_opt [(0x01, [255, 255, 255, 0]), (0x06, [10, 0, 0, 1])])
     (dhcp_opt ''dns'' (OPTION_IP OR OPTION_LIST OR OPTION_REQ) 0x06) [10, 0, 0, 2]
   = Some [[0x01, 4, 255, 255, 255, 0], [0x06, 8, 10, 0, 0, 1, 10, 0, 0, 2]]"
  using attach_option_refines [of "[(0x01, [255, 255, 255, 0]), (0x06, [10, 0, 0, 1])]"
    "dhcp_opt ''dns'' (OPTION_IP OR OPTION_LIST OR OPTION_REQ) 0x06" "[10, 0, 0, 2]"]
  by (simp add: olist_ok_def dhcp_opt_def opt_types Let_def)

text \<open>The option-overload byte is read from the wrong place. In a message whose overload option
  says that the \<^verbatim>\<open>file\<close> field holds further options (RFC 2132, value 1), followed by a padding byte,
  \<^verbatim>\<open>get_option\<close> takes the padding byte for the value and misses the host name in the \<^verbatim>\<open>file\<close> field.\<close>

theorem overload_misread:
  "get_option (pkt_mem junk (blank_pkt\<lparr>
       options := [DHCP_OPTION_OVER, 1, 1, DHCP_PADDING, DHCP_END] @ replicate 303 0,
       bfile := [DHCP_HOST_NAME, 1, 0x61, DHCP_END] @ replicate 124 0\<rparr>)) DHCP_HOST_NAME = None"
proof -
  let ?p = "blank_pkt\<lparr>options := [DHCP_OPTION_OVER, 1, 1, DHCP_PADDING, DHCP_END] @ replicate 303 0,
       bfile := [DHCP_HOST_NAME, 1, 0x61, DHCP_END] @ replicate 124 0\<rparr>"
  have "wf_pkt ?p" by (simp add: wf_pkt_def blank_pkt_def)
  then have m: "pkt_mem junk ?p (240 + i) = ([DHCP_OPTION_OVER, 1, 1, DHCP_PADDING, DHCP_END] @ replicate 303 0) ! i"
    if "i < 308" for i
    using pkt_mem_options [of ?p i junk] that by (simp add: OPTIONS_OFF_def)
  have "pkt_mem junk ?p 240 = DHCP_OPTION_OVER" "pkt_mem junk ?p 241 = 1" "pkt_mem junk ?p 242 = 1"
    "pkt_mem junk ?p 243 = DHCP_PADDING" "pkt_mem junk ?p 244 = DHCP_END"
    using m [of 0] m [of 1] m [of 2] m [of 3] m [of 4] by simp_all
  then show ?thesis
    by (simp add: get_option_def get_opt_loop.simps opt_codes OPTIONS_OFF_def OPT_CODE_def OPT_LEN_def
      OPTION_FIELD_def FILE_FIELD_def)
qed

end
