(* ===== verification/Dhcp_Packet.thy ===== *)
theory Dhcp_Packet
  imports Dhcp_Options
begin

text \<open>
  Building, sending and receiving DHCP messages: \<^verbatim>\<open>udhcpcd/packet.c\<close> and the raw receiver
  \<^verbatim>\<open>get_raw_packet\<close> of \<^verbatim>\<open>udhcpcd/clientpacket.c\<close>. What the socket calls return is an argument; a
  send function returns its result and what it handed to the kernel. The IP and UDP headers are
  modelled byte by byte, with the checksum over the same bytes as the C code.
\<close>

unbundle bit_operations_syntax

definition SERVER_PORT :: u16 where "SERVER_PORT = 67"
definition CLIENT_PORT :: u16 where "CLIENT_PORT = 68"
definition DHCP_MAGIC :: u32 where "DHCP_MAGIC = 0x63825363"
definition BOOTREQUEST :: u8 where "BOOTREQUEST = 1"
definition BOOTREPLY :: u8 where "BOOTREPLY = 2"
definition ETH_10MB :: u8 where "ETH_10MB = 1"
definition ETH_10MB_LEN :: u8 where "ETH_10MB_LEN = 6"
definition BROADCAST_FLAG :: u16 where "BROADCAST_FLAG = 0x8000"

definition DHCPDISCOVER :: u8 where "DHCPDISCOVER = 1"
definition DHCPOFFER :: u8 where "DHCPOFFER = 2"
definition DHCPREQUEST :: u8 where "DHCPREQUEST = 3"
definition DHCPDECLINE :: u8 where "DHCPDECLINE = 4"
definition DHCPACK :: u8 where "DHCPACK = 5"
definition DHCPNAK :: u8 where "DHCPNAK = 6"
definition DHCPRELEASE :: u8 where "DHCPRELEASE = 7"
definition DHCPINFORM :: u8 where "DHCPINFORM = 8"

lemmas msg_types = DHCPDISCOVER_def DHCPOFFER_def DHCPREQUEST_def DHCPDECLINE_def DHCPACK_def
  DHCPNAK_def DHCPRELEASE_def DHCPINFORM_def

section \<open>Building a message\<close>

definition INADDR_BROADCAST :: u32 where "INADDR_BROADCAST = 0xFFFFFFFF"
definition MAC_BCAST_ADDR :: "u8 list" where "MAC_BCAST_ADDR = replicate 6 0xFF"

definition zero_pkt :: dhcpMessage where
  "zero_pkt = \<lparr>op = 0, htype = 0, hlen = 0, hops = 0, xid = 0, secs = 0, flags = 0, ciaddr = 0,
     yiaddr = 0, siaddr = 0, giaddr = 0, chaddr = replicate 16 0, sname = replicate 64 0,
     bfile = replicate 128 0, cookie = 0, options = replicate 308 0\<rparr>"

definition init_header :: "u8 \<Rightarrow> dhcpMessage option" where
  "init_header type =
     (let p = zero_pkt;
        p = (if type \<in> {DHCPDISCOVER, DHCPREQUEST, DHCPRELEASE, DHCPINFORM} then p\<lparr>op := BOOTREQUEST\<rparr>
             else if type \<in> {DHCPOFFER, DHCPACK, DHCPNAK} then p\<lparr>op := BOOTREPLY\<rparr> else p);
        p = p\<lparr>htype := ETH_10MB, hlen := ETH_10MB_LEN, cookie := htonl DHCP_MAGIC\<rparr>
      in do {
        buf \<leftarrow> wr (options p) 0 DHCP_END;
        pkt_add_simple (p\<lparr>options := buf\<rparr>) DHCP_MESSAGE_TYPE (ucast type) })"

section \<open>Receiving from a socket\<close>

definition pkt_of_bytes :: "u8 list \<Rightarrow> dhcpMessage" where
  "pkt_of_bytes b = (let w = (\<lambda>i. un_be32 (take 4 (drop i b))); h = (\<lambda>i. un_be16 (take 2 (drop i b))) in
     \<lparr>op = b ! 0, htype = b ! 1, hlen = b ! 2, hops = b ! 3, xid = w 4, secs = h 8, flags = h 10,
      ciaddr = w 12, yiaddr = w 16, siaddr = w 20, giaddr = w 24, chaddr = take 16 (drop 28 b),
      sname = take 64 (drop 44 b), bfile = take 128 (drop 108 b), cookie = w 236,
      options = take 308 (drop 240 b)\<rparr>)"

definition broken_vendors :: "u8 list list" where
  "broken_vendors = [[0x4d, 0x53, 0x46, 0x54, 0x20, 0x39, 0x38]]"

text \<open>\<open>rcv\<close> is what \<^verbatim>\<open>read\<close> delivers: \<open>None\<close> for an error, else at most 548 bytes that land at the
  start of the cleared message.\<close>

definition get_packet :: "mem \<Rightarrow> u8 list option \<Rightarrow> int \<times> dhcpMessage" where
  "get_packet junk rcv = (case rcv of
     None \<Rightarrow> (-1, zero_pkt)
   | Some b \<Rightarrow>
       let p = pkt_of_bytes (take 548 (b @ replicate 548 0)) in
       if ntohl (cookie p) \<noteq> DHCP_MAGIC then (-2, p)
       else
         let p' = (if op p = BOOTREQUEST then
             case get_option (pkt_mem junk p) DHCP_VENDOR of
               None \<Rightarrow> p
             | Some v \<Rightarrow> fold (\<lambda>bv q.
                 if pkt_mem junk p (v - 1) = word_of_nat (length bv)
                   \<and> map (pkt_mem junk p) [v..<v + length bv] = bv
                 then q\<lparr>flags := flags q OR htons BROADCAST_FLAG\<rparr> else q) broken_vendors p
           else p)
         in (int (length (take 548 b)), p'))"

section \<open>The Internet checksum\<close>

text \<open>The sum is an \<^verbatim>\<open>int32_t\<close>; over the at most 576 bytes it is used on it stays below
  \<open>2\<^sup>3\<^sup>1\<close>, so a natural number stands for it. The shift loop folds the carries back.\<close>

fun sum16 :: "u8 list \<Rightarrow> nat" where
  "sum16 (a # b # bs) = unat a * 256 + unat b + sum16 bs"
| "sum16 [a] = unat a * 256"
| "sum16 [] = 0"

function fold16 :: "nat \<Rightarrow> nat" where
  "fold16 s = (if s div 65536 \<noteq> 0 then fold16 (s mod 65536 + s div 65536) else s)"
  by pat_completeness auto
termination
proof (relation "measure id")
  fix s :: nat assume "s div 65536 \<noteq> 0"
  then have "s mod 65536 + s div 65536 < s mod 65536 + 65536 * (s div 65536)"
    by (intro add_strict_left_mono) simp
  also have "\<dots> = s" by (rule mod_mult_div_eq)
  finally show "(s mod 65536 + s div 65536, s) \<in> measure id" by simp
qed simp

declare fold16.simps [simp del]

definition checksum :: "u8 list \<Rightarrow> u16" where
  "checksum b = NOT (word_of_nat (fold16 (sum16 b)))"

section \<open>Raw packets\<close>

text \<open>The bytes of \<^verbatim>\<open>struct udp_dhcp_packet\<close>: \<^verbatim>\<open>iphdr\<close> (20), \<^verbatim>\<open>udphdr\<close> (8), the message (548).\<close>

record udp_dhcp_packet =
  ip_vihl :: u8
  ip_tos :: u8
  ip_tot_len :: u16
  ip_id :: u16
  ip_frag_off :: u16
  ip_ttl :: u8
  ip_protocol :: u8
  ip_check :: u16
  ip_saddr :: u32
  ip_daddr :: u32
  udp_source :: u16
  udp_dest :: u16
  udp_len :: u16
  udp_check :: u16
  udp_data :: "u8 list"

definition ip_bytes :: "udp_dhcp_packet \<Rightarrow> u8 list" where
  "ip_bytes k = [ip_vihl k, ip_tos k] @ be16 (ip_tot_len k) @ be16 (ip_id k) @ be16 (ip_frag_off k) @
     [ip_ttl k, ip_protocol k] @ be16 (ip_check k) @ be32 (ip_saddr k) @ be32 (ip_daddr k)"

definition udp_bytes :: "udp_dhcp_packet \<Rightarrow> u8 list" where
  "udp_bytes k = ip_bytes k @ be16 (udp_source k) @ be16 (udp_dest k) @ be16 (udp_len k) @
     be16 (udp_check k) @ udp_data k"

definition udp_of_bytes :: "u8 list \<Rightarrow> udp_dhcp_packet" where
  "udp_of_bytes b = (let w = (\<lambda>i. un_be32 (take 4 (drop i b))); h = (\<lambda>i. un_be16 (take 2 (drop i b))) in
     \<lparr>ip_vihl = b ! 0, ip_tos = b ! 1, ip_tot_len = h 2, ip_id = h 4, ip_frag_off = h 6,
      ip_ttl = b ! 8, ip_protocol = b ! 9, ip_check = h 10, ip_saddr = w 12, ip_daddr = w 16,
      udp_source = h 20, udp_dest = h 22, udp_len = h 24, udp_check = h 26,
      udp_data = take 548 (drop 28 b)\<rparr>)"

definition zero_udp :: udp_dhcp_packet where
  "zero_udp = \<lparr>ip_vihl = 0, ip_tos = 0, ip_tot_len = 0, ip_id = 0, ip_frag_off = 0, ip_ttl = 0,
     ip_protocol = 0, ip_check = 0, ip_saddr = 0, ip_daddr = 0, udp_source = 0, udp_dest = 0,
     udp_len = 0, udp_check = 0, udp_data = replicate 548 0\<rparr>"

definition IPPROTO_UDP :: u8 where "IPPROTO_UDP = 17"
definition IPVERSION :: u8 where "IPVERSION = 4"
definition IPDEFTTL :: u8 where "IPDEFTTL = 64"

definition raw_image :: "dhcpMessage \<Rightarrow> u32 \<Rightarrow> u16 \<Rightarrow> u32 \<Rightarrow> u16 \<Rightarrow> udp_dhcp_packet" where
  "raw_image payload source_ip source_port dest_ip dest_port =
     (let k = zero_udp\<lparr>ip_protocol := IPPROTO_UDP, ip_saddr := source_ip, ip_daddr := dest_ip,
            udp_source := htons source_port, udp_dest := htons dest_port, udp_len := htons (8 + 548)\<rparr>;
        k = k\<lparr>ip_tot_len := udp_len k\<rparr>;
        k = k\<lparr>udp_data := pkt_bytes payload\<rparr>;
        k = k\<lparr>udp_check := checksum (udp_bytes k)\<rparr>;
        k = k\<lparr>ip_tot_len := htons 576\<rparr>;
        k = k\<lparr>ip_vihl := push_bit 4 IPVERSION OR (20 div 4), ip_ttl := IPDEFTTL\<rparr>
      in k\<lparr>ip_check := checksum (ip_bytes k)\<rparr>)"

record raw_env =
  re_socket :: bool
  re_bind :: bool
  re_sendto :: int

record raw_frame =
  fr_ifindex :: int
  fr_arp :: "u8 list"
  fr_bytes :: "u8 list"

definition raw_packet :: "raw_env \<Rightarrow> dhcpMessage \<Rightarrow> u32 \<Rightarrow> u16 \<Rightarrow> u32 \<Rightarrow> u16 \<Rightarrow> u8 list \<Rightarrow> int \<Rightarrow> int \<times> raw_frame option" where
  "raw_packet e payload source_ip source_port dest_ip dest_port dest_arp ifindex =
     (if \<not> re_socket e then (-1, None)
      else if \<not> re_bind e then (-1, None)
      else (re_sendto e, Some \<lparr>fr_ifindex = ifindex, fr_arp = take 6 dest_arp,
        fr_bytes = udp_bytes (raw_image payload source_ip source_port dest_ip dest_port)\<rparr>))"

record kernel_env =
  ke_socket :: bool
  ke_setsockopt :: bool
  ke_bind :: bool
  ke_connect :: bool
  ke_write :: int

record kernel_dgram =
  kd_src :: "u32 \<times> u16"
  kd_dst :: "u32 \<times> u16"
  kd_bytes :: "u8 list"

definition kernel_packet :: "kernel_env \<Rightarrow> dhcpMessage \<Rightarrow> u32 \<Rightarrow> u16 \<Rightarrow> u32 \<Rightarrow> u16 \<Rightarrow> int \<times> kernel_dgram option" where
  "kernel_packet e payload source_ip source_port dest_ip dest_port =
     (if \<not> ke_socket e then (-1, None)
      else if \<not> ke_setsockopt e then (-1, None)
      else if \<not> ke_bind e then (-1, None)
      else if \<not> ke_connect e then (-1, None)
      else (ke_write e, Some \<lparr>kd_src = (source_ip, htons source_port),
        kd_dst = (dest_ip, htons dest_port), kd_bytes = pkt_bytes payload\<rparr>))"

section \<open>The raw receiver\<close>

text \<open>\<open>payload\<close> is the caller's message memory, of which only the received part is overwritten.
  \<open>None\<close> is a copy with a negative size.\<close>

definition get_raw_packet :: "u8 list option \<Rightarrow> u8 list \<Rightarrow> (int \<times> u8 list) option" where
  "get_raw_packet rcv payload = (case rcv of
     None \<Rightarrow> Some (-1, payload)
   | Some b \<Rightarrow>
       let k = udp_of_bytes (take 576 (b @ replicate 576 0)); bytes = int (length (take 576 b)) in
       if bytes < 20 + 8 then Some (-2, payload)
       else if bytes < int (unat (ntohs (ip_tot_len k))) then Some (-2, payload)
       else
         let bytes = int (unat (ntohs (ip_tot_len k))) in
         if ip_protocol k \<noteq> IPPROTO_UDP \<or> drop_bit 4 (ip_vihl k) \<noteq> IPVERSION
           \<or> ip_vihl k AND 0x0F \<noteq> 20 div 4 \<or> udp_dest k \<noteq> htons CLIENT_PORT
           \<or> bytes > 576 \<or> int (unat (ntohs (udp_len k))) \<noteq> sint (word_of_int (bytes - 20) :: u16)
         then Some (-2, payload)
         else
           let check = ip_check k; k = k\<lparr>ip_check := 0\<rparr> in
           if check \<noteq> checksum (ip_bytes k) then Some (-1, payload)
           else
             let source = ip_saddr k; dest = ip_daddr k; check = udp_check k;
               k = k\<lparr>udp_check := 0\<rparr>;
               k = k\<lparr>ip_vihl := 0, ip_tos := 0, ip_tot_len := 0, ip_id := 0, ip_frag_off := 0,
                 ip_ttl := 0, ip_protocol := 0, ip_check := 0, ip_saddr := 0, ip_daddr := 0\<rparr>;
               k = k\<lparr>ip_protocol := IPPROTO_UDP, ip_saddr := source, ip_daddr := dest,
                 ip_tot_len := udp_len k\<rparr> in
             if check \<noteq> 0 \<and> check \<noteq> checksum (take (nat bytes) (udp_bytes k)) then Some (-2, payload)
             else if bytes - (20 + 8) < 0 then None
             else do {
               payload \<leftarrow> wrn payload 0 (take (nat (bytes - (20 + 8))) (udp_data k));
               c \<leftarrow> rdn payload 236 4;
               if ntohl (un_be32 c) \<noteq> DHCP_MAGIC then Some (-2, payload)
               else Some (bytes - (20 + 8), payload) })"

section \<open>Messages in good form\<close>

lemma ucast_ucast_u8: "ucast (ucast x :: u32) = x" for x :: u8
  by (rule bit_word_eqI) (simp add: bit_simps)

lemma init_header_rep:
  "\<exists>p. init_header type = Some p \<and> pkt_rep p [(DHCP_MESSAGE_TYPE, [type])]
    \<and> p = zero_pkt\<lparr>op := op p, htype := ETH_10MB, hlen := ETH_10MB_LEN, cookie := DHCP_MAGIC, options := options p\<rparr>
    \<and> op p = (if type \<in> {DHCPDISCOVER, DHCPREQUEST, DHCPRELEASE, DHCPINFORM} then BOOTREQUEST
        else if type \<in> {DHCPOFFER, DHCPACK, DHCPNAK} then BOOTREPLY else 0)"
proof -
  define p where "p = zero_pkt\<lparr>op := (if type \<in> {DHCPDISCOVER, DHCPREQUEST, DHCPRELEASE, DHCPINFORM}
      then BOOTREQUEST else if type \<in> {DHCPOFFER, DHCPACK, DHCPNAK} then BOOTREPLY else 0),
    htype := ETH_10MB, hlen := ETH_10MB_LEN, cookie := DHCP_MAGIC, options := DHCP_END # replicate 307 0\<rparr>"
  have "pkt_rep p []" by (simp add: p_def pkt_rep_def wf_pkt_def zero_pkt_def opts_in_def)
  moreover have "opt_fits [] (simple_data DHCP_MESSAGE_TYPE (ucast type))"
    "simple_data DHCP_MESSAGE_TYPE (ucast type) = [type]"
    using ucast_ucast_u8 [of type] by (simp_all add: opt_fits_def simple_data_def)
  ultimately obtain p' where p': "pkt_add_simple p DHCP_MESSAGE_TYPE (ucast type) = Some p'"
      "pkt_rep p' [(DHCP_MESSAGE_TYPE, [type])]" "p' = p\<lparr>options := options p'\<rparr>"
    using pkt_add_simple_rep [of p "[]" DHCP_MESSAGE_TYPE "ucast type"] by auto
  have r: "replicate 308 (0 :: u8) = 0 # replicate 307 0" by (simp add: numeral_eq_Suc)
  have "init_header type = Some p'"
    using p'(1) by (auto simp: init_header_def Let_def zero_pkt_def wr_def r htonl_def p_def)
  moreover have "op p' = op p" by (subst p'(3)) simp
  moreover have "p' = zero_pkt\<lparr>op := op p', htype := ETH_10MB, hlen := ETH_10MB_LEN, cookie := DHCP_MAGIC,
      options := options p'\<rparr>"
    unfolding \<open>op p' = op p\<close> by (subst p'(3)) (simp add: p_def)
  ultimately show ?thesis using p'(2) by (simp add: p_def)
qed

lemma pkt_of_bytes_inverse: "wf_pkt p \<Longrightarrow> pkt_of_bytes (pkt_bytes p) = p"
  by (simp add: pkt_of_bytes_def pkt_bytes_def wf_pkt_def Let_def)

lemma udp_of_bytes_inverse: "length (udp_data k) = 548 \<Longrightarrow> udp_of_bytes (udp_bytes k) = k"
  by (simp add: udp_of_bytes_def udp_bytes_def ip_bytes_def Let_def nth_append)

lemma length_udp_bytes [simp]: "length (udp_bytes k) = 28 + length (udp_data k)"
  by (simp add: udp_bytes_def ip_bytes_def)

lemma pkt_bytes_cookie: "wf_pkt p \<Longrightarrow> take 4 (drop 236 (pkt_bytes p)) = be32 (cookie p)"
  by (simp add: pkt_bytes_def wf_pkt_def)

lemma raw_roundtrip:
  assumes p: "wf_pkt p" "cookie p = DHCP_MAGIC" and pl: "length pl = 548"
  shows "get_raw_packet (Some (udp_bytes (raw_image p src sport dst CLIENT_PORT))) pl = Some (548, pkt_bytes p)"
proof -
  let ?k = "raw_image p src sport dst CLIENT_PORT"
  have l: "length (pkt_bytes p) = 548" by (rule length_pkt_bytes [OF p(1)])
  have f: "ip_vihl ?k = 0x45" "ip_protocol ?k = IPPROTO_UDP" "ip_tot_len ?k = 576" "udp_len ?k = 556"
    "udp_dest ?k = CLIENT_PORT" "udp_data ?k = pkt_bytes p"
    by (simp_all add: raw_image_def Let_def htons_def IPVERSION_def)
  have c: "ip_check ?k = checksum (ip_bytes (?k\<lparr>ip_check := 0\<rparr>))"
    by (simp add: raw_image_def Let_def zero_udp_def)
  define k0 where "k0 = ?k\<lparr>udp_check := 0, ip_vihl := 0, ip_tos := 0, ip_tot_len := 556, ip_id := 0, ip_frag_off := 0,
     ip_ttl := 0, ip_protocol := IPPROTO_UDP, ip_check := 0\<rparr>"
  have u: "udp_check ?k = checksum (udp_bytes k0)"
    by (simp add: k0_def raw_image_def Let_def zero_udp_def htons_def)
  have inv: "udp_of_bytes (udp_bytes ?k) = ?k" by (rule udp_of_bytes_inverse) (simp add: f l)
  have t: "take 576 (udp_bytes ?k @ replicate 576 0) = udp_bytes ?k" "length (udp_bytes ?k) = 576"
    by (simp_all add: f l)
  have t0: "take 576 (udp_bytes k0) = udp_bytes k0" "udp_data k0 = pkt_bytes p"
    by (simp_all add: k0_def f l)
  have v: "drop_bit 4 (0x45 :: u8) = IPVERSION" "(0x45 :: u8) AND 0x0F = 5"
    by (simp_all add: IPVERSION_def)
  have w: "wrn pl 0 (pkt_bytes p) = Some (pkt_bytes p)" by (simp add: wrn_def l pl)
  have r: "rdn (pkt_bytes p) 236 4 = Some (be32 DHCP_MAGIC)"
    using pkt_bytes_cookie [OF p(1)] p(2) by (simp add: rdn_def l)
  have k0: "?k\<lparr>udp_check := 0, ip_vihl := 0, ip_tos := 0, ip_id := 0, ip_frag_off := 0, ip_ttl := 0,
      ip_check := 0, ip_protocol := IPPROTO_UDP, ip_tot_len := 556\<rparr> = k0"
    by (simp add: k0_def)
  show ?thesis
    unfolding get_raw_packet_def option.case Let_def t(1) inv
    by (simp add: f c [symmetric] u [symmetric] v t t0 l w r htons_def ntohs_def ntohl_def k0 IPVERSION_def)
qed

section \<open>The checksum verifies\<close>

lemma fold16_mod: "fold16 n mod 65535 = n mod 65535 \<and> fold16 n < 65536 \<and> (fold16 n = 0 \<longleftrightarrow> n = 0)"
proof (induction n rule: fold16.induct)
  case (1 n)
  show ?case
  proof (cases "n div 65536 = 0")
    case True
    then have "n < 65536" by (simp add: div_eq_0_iff)
    with True show ?thesis by (subst (1 2 3) fold16.simps) simp
  next
    case False
    let ?m = "n mod 65536 + n div 65536"
    have "n = 65535 * (n div 65536) + ?m" using div_mult_mod_eq [of n 65536] by simp
    then have "n mod 65535 = ?m mod 65535" by (metis mod_mult_self4)
    moreover have "fold16 n = fold16 ?m" using False by (subst fold16.simps) simp
    moreover have "?m \<noteq> 0" "n \<noteq> 0" using False by auto
    ultimately show ?thesis using "1.IH" [OF False] by simp
  qed
qed

lemma sum16_append: "even (length xs) \<Longrightarrow> sum16 (xs @ ys) = sum16 xs + sum16 ys"
  by (induction xs rule: sum16.induct) auto

lemma sum16_be16 [simp]: "sum16 (be16 x @ ys) = unat x + sum16 ys"
proof -
  have "unat x < 65536" using unsigned_less [of x, where 'a = nat] by simp
  then show ?thesis
    using nat_bytes2 [of "unat x"] unfolding be16_def append_Cons sum16.simps unat_byte_at
    by (subst unat_low_byte) simp
qed

lemma unat_checksum: "unat (checksum b) = 65535 - fold16 (sum16 b)"
proof -
  have f: "fold16 (sum16 b) < 65536" using fold16_mod by blast
  have "unat (NOT x) = 65535 - unat x" for x :: u16
  proof -
    have "NOT x = - 1 - x" by (simp add: not_eq_complement)
    then show ?thesis using unat_sub [of x "- 1"] by (simp add: unsigned_minus_1_eq_mask mask_eq_exp_minus_1)
  qed
  then show ?thesis using f by (simp add: checksum_def unat_of_nat)
qed

lemma checksum_slot:
  assumes "even (length xs)"
  shows "checksum (xs @ be16 (checksum (xs @ be16 0 @ ys)) @ ys) = 0"
proof -
  let ?S = "sum16 (xs @ be16 0 @ ys)" and ?T = "sum16 (xs @ be16 (checksum (xs @ be16 0 @ ys)) @ ys)"
  have f: "fold16 ?S mod 65535 = ?S mod 65535" "fold16 ?S < 65536" "fold16 ?S = 0 \<longleftrightarrow> ?S = 0"
    using fold16_mod by blast+
  have T: "?T = ?S + (65535 - fold16 ?S)"
    unfolding sum16_append [OF assms] sum16_be16 unat_checksum by simp
  have "(?T + fold16 ?S) mod 65535 = (0 + ?S) mod 65535" using f(2) T by simp
  then have "(?T + ?S) mod 65535 = (0 + ?S) mod 65535" using f(1) by (metis mod_add_right_eq)
  then have z: "?T mod 65535 = 0"
    using mod_eq_dvd_iff_nat [of ?S "?T + ?S" 65535] by (simp only: add_0 le_add2 add_diff_cancel_right' dvd_eq_mod_eq_0)
  have "?T \<noteq> 0" using T f(2,3) by (cases "?S = 0") auto
  then have "fold16 ?T mod 65535 = 0" "fold16 ?T \<noteq> 0" "fold16 ?T < 65536"
    using fold16_mod [of ?T] z by auto
  then have "fold16 ?T = 65535" by (cases "fold16 ?T < 65535") simp_all
  then show ?thesis by (metis unat_checksum diff_self_eq_0 unat_eq_zero)
qed

section \<open>Properties\<close>

text \<open>Claim C7: a message sent through \<^verbatim>\<open>raw_packet\<close> to the client port is accepted by \<^verbatim>\<open>get_raw_packet\<close>
  and delivered byte for byte: the header fields, the IP checksum and the UDP checksum over the
  pseudo header that the sender computes are those the receiver recomputes, for every message in
  good form with the DHCP cookie, every address pair and source port.\<close>

theorem raw_packet_roundtrip:
  assumes "wf_pkt p" and "cookie p = DHCP_MAGIC" and "length payload = 548"
    and "re_socket e" and "re_bind e"
  shows "\<exists>fr. raw_packet e p src sport dst CLIENT_PORT arp ifindex = (re_sendto e, Some fr)
    \<and> get_raw_packet (Some (fr_bytes fr)) payload = Some (548, pkt_bytes p)
    \<and> pkt_of_bytes (pkt_bytes p) = p"
  using raw_roundtrip [OF assms(1-3)] pkt_of_bytes_inverse [OF assms(1)] assms(4,5)
  by (simp add: raw_packet_def)

theorem raw_packet_roundtrip_witness:
  "\<exists>fr. raw_packet \<lparr>re_socket = True, re_bind = True, re_sendto = 576\<rparr> blank_pkt 0x0A000001 SERVER_PORT
      0xFFFFFFFF CLIENT_PORT (replicate 6 0xFF) 2 = (576, Some fr)
    \<and> get_raw_packet (Some (fr_bytes fr)) (replicate 548 0) = Some (548, pkt_bytes blank_pkt)"
proof -
  have "wf_pkt blank_pkt" "cookie blank_pkt = DHCP_MAGIC"
    by (simp_all add: wf_pkt_def blank_pkt_def DHCP_MAGIC_def)
  from raw_packet_roundtrip [OF this, of "replicate 548 0" "\<lparr>re_socket = True, re_bind = True, re_sendto = 576\<rparr>"
      "0x0A000001" SERVER_PORT "0xFFFFFFFF" "replicate 6 0xFF" 2]
  show ?thesis by auto
qed



text \<open>\<^verbatim>\<open>init_header\<close> never writes outside the message and leaves exactly the message type in its
  option field; the operation is a request or a reply for every type in its switch, but
  \<^verbatim>\<open>DHCPDECLINE\<close> is missing there, and a decline goes out with operation 0.\<close>

theorem init_header_form:
  "\<exists>p. init_header type = Some p \<and> pkt_rep p [(DHCP_MESSAGE_TYPE, [type])]
    \<and> cookie p = DHCP_MAGIC \<and> xid p = 0 \<and> chaddr p = replicate 16 0
    \<and> op p = (if type \<in> {DHCPDISCOVER, DHCPREQUEST, DHCPRELEASE, DHCPINFORM} then BOOTREQUEST
        else if type \<in> {DHCPOFFER, DHCPACK, DHCPNAK} then BOOTREPLY else 0)"
proof -
  obtain p where p: "init_header type = Some p" "pkt_rep p [(DHCP_MESSAGE_TYPE, [type])]"
    "p = zero_pkt\<lparr>op := op p, htype := ETH_10MB, hlen := ETH_10MB_LEN, cookie := DHCP_MAGIC, options := options p\<rparr>"
    "op p = (if type \<in> {DHCPDISCOVER, DHCPREQUEST, DHCPRELEASE, DHCPINFORM} then BOOTREQUEST
        else if type \<in> {DHCPOFFER, DHCPACK, DHCPNAK} then BOOTREPLY else 0)"
    using init_header_rep [of type] by blast
  have "cookie p = DHCP_MAGIC" "xid p = 0" "chaddr p = replicate 16 0"
    by (subst p(3), simp add: zero_pkt_def)+
  with p(1,2,4) show ?thesis by blast
qed

text \<open>\<^verbatim>\<open>get_raw_packet\<close> does not reject a datagram whose IP length leaves less than a UDP header: with
  an IP length of 20 to 27, a matching UDP length, a valid IP checksum and no UDP checksum, every
  check passes and the copy is called with a negative size.\<close>

theorem get_raw_packet_short:
  assumes n: "n < 8" and k: "ip_vihl k = 0x45" "ip_protocol k = IPPROTO_UDP" "ip_tot_len k = 20 + n"
      "udp_len k = n" "udp_dest k = CLIENT_PORT" "udp_check k = 0" "length (udp_data k) = 548"
    and c: "ip_check k = checksum (ip_bytes (k\<lparr>ip_check := 0\<rparr>))"
  shows "get_raw_packet (Some (udp_bytes k)) payload = None"
proof -
  have inv: "udp_of_bytes (udp_bytes k) = k" by (rule udp_of_bytes_inverse [OF k(7)])
  have t: "take 576 (udp_bytes k @ replicate 576 0) = udp_bytes k" "length (udp_bytes k) = 576"
    by (simp_all add: k(7))
  have n8: "unat n < 8" using n by (simp add: word_less_nat_alt)
  then have u: "unat (20 + n) = 20 + unat n" by (simp add: unat_word_ariths)
  have ui: "uint (20 + n) = 20 + uint n" using arg_cong [OF u, of int] by simp
  have un: "uint n < 8" using n by (simp add: word_less_def)
  have "- (2 ^ 15) \<le> uint n" by (rule order_trans [OF _ uint_ge_0]) simp
  moreover have "sint n = signed_take_bit 15 (uint n)" by (simp add: sint_uint)
  ultimately have s: "sint n = uint n" using signed_take_bit_int_eq_self [of 15 "uint n"] un by simp
  have v: "drop_bit 4 (0x45 :: u8) = 4" "(0x45 :: u8) AND 0x0F = 5" by simp_all
  show ?thesis
    unfolding get_raw_packet_def option.case Let_def t(1) inv
    using un by (simp add: k c [symmetric] v t(2) s ui ntohs_def htons_def IPVERSION_def)
qed

definition short_frame :: udp_dhcp_packet where
  "short_frame = (let k = zero_udp\<lparr>ip_vihl := 0x45, ip_protocol := IPPROTO_UDP, ip_tot_len := 24,
     udp_len := 4, udp_dest := CLIENT_PORT\<rparr> in k\<lparr>ip_check := checksum (ip_bytes k)\<rparr>)"

theorem get_raw_packet_short_witness:
  "get_raw_packet (Some (udp_bytes short_frame)) (replicate 548 0) = None"
  by (rule get_raw_packet_short [of 4]) (simp_all add: short_frame_def Let_def zero_udp_def)

end
