(* ===== verification/Arpping.thy ===== *)
theory Arpping
  imports Dhcp_Packet
begin

text \<open>
  The ARP probe of \<^verbatim>\<open>udhcpcd/arpping.c\<close>: it broadcasts a request for an address and waits two seconds for
  an answer. What the socket calls return, the frames received and the uptime read in every round are
  inputs; the rounds are a list, so that a probe whose list runs out is still waiting.
\<close>

record arpMsg =
  am_h_dest :: "u8 list"
  am_h_source :: "u8 list"
  am_h_proto :: u16
  am_htype :: u16
  am_ptype :: u16
  am_hlen :: u8
  am_plen :: u8
  am_operation :: u16
  am_sHaddr :: "u8 list"
  am_sInaddr :: "u8 list"
  am_tHaddr :: "u8 list"
  am_tInaddr :: "u8 list"
  am_pad :: "u8 list"

definition arp_bytes :: "arpMsg \<Rightarrow> u8 list" where
  "arp_bytes a = am_h_dest a @ am_h_source a @ be16 (am_h_proto a) @ be16 (am_htype a) @ be16 (am_ptype a) @
     [am_hlen a, am_plen a] @ be16 (am_operation a) @ am_sHaddr a @ am_sInaddr a @ am_tHaddr a @ am_tInaddr a @ am_pad a"

definition arp_of_bytes :: "u8 list \<Rightarrow> arpMsg" where
  "arp_of_bytes b = (let f = (\<lambda>i n. take n (drop i b)) in
     \<lparr>am_h_dest = f 0 6, am_h_source = f 6 6, am_h_proto = un_be16 (f 12 2), am_htype = un_be16 (f 14 2),
      am_ptype = un_be16 (f 16 2), am_hlen = b ! 18, am_plen = b ! 19, am_operation = un_be16 (f 20 2),
      am_sHaddr = f 22 6, am_sInaddr = f 28 4, am_tHaddr = f 32 6, am_tInaddr = f 38 4, am_pad = f 42 18\<rparr>)"

definition ETH_P_ARP :: u16 where "ETH_P_ARP = 0x0806"
definition ETH_P_IP :: u16 where "ETH_P_IP = 0x0800"
definition ARPHRD_ETHER :: u16 where "ARPHRD_ETHER = 1"
definition ARPOP_REQUEST :: u16 where "ARPOP_REQUEST = 1"
definition ARPOP_REPLY :: u16 where "ARPOP_REPLY = 2"

definition arp_request :: "u32 \<Rightarrow> u32 \<Rightarrow> u8 list \<Rightarrow> arpMsg" where
  "arp_request yi ip mac = \<lparr>am_h_dest = MAC_BCAST_ADDR, am_h_source = take 6 mac, am_h_proto = htons ETH_P_ARP,
     am_htype = htons ARPHRD_ETHER, am_ptype = htons ETH_P_IP, am_hlen = 6, am_plen = 4,
     am_operation = htons ARPOP_REQUEST, am_sHaddr = take 6 mac, am_sInaddr = be32 ip,
     am_tHaddr = replicate 6 0, am_tInaddr = be32 yi, am_pad = replicate 18 0\<rparr>"

text \<open>A round: \<^verbatim>\<open>select\<close> fails (with \<^verbatim>\<open>EINTR\<close> or not), delivers a frame (\<open>None\<close>: \<^verbatim>\<open>recv\<close> fails) or times out; then
  the uptime is read twice.\<close>

datatype arp_sel = ASelErr bool | ASelFrame "u8 list option" | ASelTimeout

record arp_round =
  ar_sel :: arp_sel
  ar_now :: int
  ar_prev :: int

record arp_env =
  ae_socket :: bool
  ae_setsockopt :: bool
  ae_sendto :: bool
  ae_uptime :: int
  ae_rounds :: "arp_round list"

datatype arp_res = ArpDone int | ArpWaiting | ArpOverflow

definition arp_match :: "u32 \<Rightarrow> u8 list \<Rightarrow> arpMsg \<Rightarrow> bool" where
  "arp_match yi mac a \<longleftrightarrow> am_operation a = htons ARPOP_REPLY \<and> am_tHaddr a = take 6 mac \<and> un_be32 (am_sInaddr a) = yi"

text \<open>A received frame overwrites the start of the message buffer; a failed \<^verbatim>\<open>recv\<close> leaves it alone, and the buffer
  is examined all the same.\<close>

definition arp_recv :: "u8 list option \<Rightarrow> arpMsg \<Rightarrow> arpMsg" where
  "arp_recv r a = (case r of None \<Rightarrow> a
     | Some b \<Rightarrow> arp_of_bytes (take 60 b @ drop (length (take 60 b)) (arp_bytes a)))"

fun arp_wait :: "u32 \<Rightarrow> u8 list \<Rightarrow> arpMsg \<Rightarrow> int \<Rightarrow> int \<Rightarrow> int \<Rightarrow> arp_round list \<Rightarrow> arp_res" where
  "arp_wait yi mac arp rv timeout prevTime rs =
     (if \<not> timeout > 0 then ArpDone rv else
      case rs of [] \<Rightarrow> ArpWaiting
      | r # rs \<Rightarrow>
        (case ar_sel r of
           ASelErr eintr \<Rightarrow>
             arp_wait yi mac arp (if \<not> eintr then 0 else rv) (timeout - (ar_now r - prevTime)) (ar_prev r) rs
         | ASelFrame f \<Rightarrow>
             let rv = (if f = None then 0 else rv); arp = arp_recv f arp in
             if arp_match yi mac arp then ArpDone 0
             else arp_wait yi mac arp rv (timeout - (ar_now r - prevTime)) (ar_prev r) rs
         | ASelTimeout \<Rightarrow> arp_wait yi mac arp rv (timeout - (ar_now r - prevTime)) (ar_prev r) rs))"

declare arp_wait.simps [simp del]

text \<open>\<^verbatim>\<open>strcpy\<close> copies the interface name into the 14 bytes of \<^verbatim>\<open>sa_data\<close>.\<close>

definition arpping :: "arp_env \<Rightarrow> u32 \<Rightarrow> u32 \<Rightarrow> u8 list \<Rightarrow> u8 list \<Rightarrow> arp_res" where
  "arpping e yi ip mac interface =
     (if \<not> ae_socket e then ArpDone (-1)
      else if \<not> ae_setsockopt e then ArpDone (-1)
      else if 14 \<le> length (cstr interface) then ArpOverflow
      else arp_wait yi mac (arp_request yi ip mac) (if ae_sendto e then 1 else 0) 2 (ae_uptime e) (ae_rounds e))"

section \<open>Lemmas\<close>

lemma arp_of_bytes_inverse:
  assumes "length (am_h_dest a) = 6" "length (am_h_source a) = 6" "length (am_sHaddr a) = 6" "length (am_sInaddr a) = 4"
    "length (am_tHaddr a) = 6" "length (am_tInaddr a) = 4" "length (am_pad a) = 18"
  shows "arp_of_bytes (arp_bytes a) = a" "length (arp_bytes a) = 60"
  using assms by (simp_all add: arp_of_bytes_def arp_bytes_def Let_def nth_append)

lemma arp_of_bytes_append: "length b = 60 \<Longrightarrow> arp_of_bytes (b @ c) = arp_of_bytes b"
  by (simp add: arp_of_bytes_def Let_def nth_append)

text \<open>A round that lets the probe go on, as far as the deadline allows.\<close>

definition no_match :: "u32 \<Rightarrow> u8 list \<Rightarrow> arp_round \<Rightarrow> bool" where
  "no_match yi mac r \<longleftrightarrow> (case ar_sel r of ASelFrame (Some b) \<Rightarrow> length b = 60 \<and> \<not> arp_match yi mac (arp_of_bytes b)
     | ASelFrame None \<Rightarrow> False | _ \<Rightarrow> True)"

fun elapsed :: "int \<Rightarrow> arp_round list \<Rightarrow> int" where
  "elapsed prev [] = 0"
| "elapsed prev (r # rs) = (ar_now r - prev) + elapsed (ar_prev r) rs"

definition in_time :: "int \<Rightarrow> int \<Rightarrow> arp_round list \<Rightarrow> bool" where
  "in_time timeout prev rs \<longleftrightarrow> (\<forall>n \<le> length rs. elapsed prev (take n rs) < timeout)"

lemma in_time_Cons:
  "in_time t prev (r # rs) \<Longrightarrow> 0 < t \<and> in_time (t - (ar_now r - prev)) (ar_prev r) rs"
  unfolding in_time_def
proof (intro conjI allI impI)
  assume a: "\<forall>n \<le> length (r # rs). elapsed prev (take n (r # rs)) < t"
  show "0 < t" using a [rule_format, of 0] by simp
  fix n assume "n \<le> length rs"
  then show "elapsed (ar_prev r) (take n rs) < t - (ar_now r - prev)"
    using a [rule_format, of "Suc n"] by simp
qed

lemma arp_wait_reply:
  assumes "list_all (no_match yi mac) rs" and "in_time t prev rs"
    and "length b = 60" and "arp_match yi mac (arp_of_bytes b)"
  shows "arp_wait yi mac arp rv t prev (rs @ \<lparr>ar_sel = ASelFrame (Some b), ar_now = n, ar_prev = p\<rparr> # rest) = ArpDone 0"
  using assms(1,2)
proof (induction rs arbitrary: arp rv t prev)
  case Nil
  then have "0 < t" by (simp add: in_time_def)
  then show ?case using assms(3,4)
    by (simp add: arp_wait.simps [of yi mac arp] arp_recv_def Let_def arp_of_bytes_append)
next
  case (Cons r rs)
  note t = in_time_Cons [OF Cons.prems(2)]
  have ih: "arp_wait yi mac arp' rv' (t - (ar_now r - prev)) (ar_prev r)
      (rs @ \<lparr>ar_sel = ASelFrame (Some b), ar_now = n, ar_prev = p\<rparr> # rest) = ArpDone 0" for arp' rv'
    using Cons.IH Cons.prems(1) t by simp
  show ?case using t ih Cons.prems(1)
    by (subst arp_wait.simps) (auto simp: Let_def split: arp_sel.split)
qed

lemma arp_wait_zero: "arp_wait yi mac arp 0 t prev rs = ArpDone r \<Longrightarrow> r = 0"
proof (induction rs arbitrary: arp t prev)
  case Nil
  then show ?case by (simp add: arp_wait.simps split: if_splits)
next
  case (Cons x rs)
  then show ?case by (subst (asm) arp_wait.simps) (auto simp: Let_def split: if_splits arp_sel.splits)
qed

text \<open>The probe ends as soon as the time is up.\<close>

lemma arp_wait_ends:
  "0 < t \<Longrightarrow> t \<le> elapsed prev rs \<Longrightarrow> \<exists>r. arp_wait yi mac arp rv t prev rs = ArpDone r"
proof (induction rs arbitrary: arp rv t prev)
  case (Cons x rs)
  have "\<exists>r. arp_wait yi mac arp' rv' (t - (ar_now x - prev)) (ar_prev x) rs = ArpDone r" for arp' rv'
  proof (cases "0 < t - (ar_now x - prev)")
    case True
    then show ?thesis using Cons.IH Cons.prems(2) by simp
  next
    case False
    then show ?thesis by (simp add: arp_wait.simps)
  qed
  then show ?case using Cons.prems(1) by (subst arp_wait.simps) (auto simp: Let_def split: arp_sel.split)
qed simp

section \<open>Properties\<close>


definition example_reply :: arpMsg where
  "example_reply = (arp_request 0x0A000001 0x0A000064 (replicate 6 9))\<lparr>am_operation := ARPOP_REPLY, am_tHaddr := replicate 6 1\<rparr>"


text \<open>A probe that could not be sent reports the address as used. When \<^verbatim>\<open>sendto\<close> fails, whatever
  happens afterwards, the value returned is 0 and not the -1 that the comment documents for errors; and a value is
  returned once the two seconds are over.\<close>

theorem arpping_send_error:
  assumes "ae_socket e" and "ae_setsockopt e" and "\<not> ae_sendto e" and "length (cstr interface) < 14"
    and "2 \<le> elapsed (ae_uptime e) (ae_rounds e)"
  shows "arpping e yi ip mac interface = ArpDone 0"
proof -
  obtain r where r: "arp_wait yi mac (arp_request yi ip mac) 0 2 (ae_uptime e) (ae_rounds e) = ArpDone r"
    using arp_wait_ends [OF _ assms(5)] by fastforce
  then show ?thesis using arp_wait_zero [OF r] assms(1-4) by (simp add: arpping_def)
qed

theorem arpping_send_error_witness:
  "arpping \<lparr>ae_socket = True, ae_setsockopt = True, ae_sendto = False, ae_uptime = 100,
      ae_rounds = [\<lparr>ar_sel = ASelTimeout, ar_now = 102, ar_prev = 102\<rparr>]\<rparr>
     0x0A000064 0 (replicate 6 1) [0x62, 0x72, 0x30] = ArpDone 0"
  by (rule arpping_send_error) (simp_all add: cstr_def)

end
