(* ===== verification/Dhcp_Client.thy ===== *)
theory Dhcp_Client
  imports Arpping
begin

text \<open>
  The DHCP client: the messages of \<^verbatim>\<open>udhcpcd/clientpacket.c\<close> and the state machine of \<^verbatim>\<open>udhcpcd/dhcpc.c\<close>. One
  pass of the main loop is a function of the client's variables and of what the kernel delivers in that
  pass: the time before and after \<^verbatim>\<open>select\<close>, the descriptor opened, the result of \<^verbatim>\<open>select\<close>, the bytes read, a
  random number, the result of the ARP probe. It returns the messages sent and the scripts run. \<open>None\<close>
  means that a write leaves the message buffer, that a shift count is out of range, or that the probe has
  not returned.
\<close>

unbundle bit_operations_syntax

section \<open>Configuration and state\<close>

datatype cstate = INIT_SELECTING | REQUESTING | BOUND | RENEWING | REBINDING | INIT_REBOOT | RENEW_REQUESTED | RELEASED

datatype listen_mode = LISTEN_NONE | LISTEN_KERNEL | LISTEN_RAW

record client_config =
  cc_foreground :: bool
  cc_quit_after_lease :: bool
  cc_abort_if_no_lease :: bool
  cc_background_if_no_lease :: bool
  cc_interface :: "u8 list"
  cc_clientid :: "u8 list option"
  cc_hostname :: "u8 list option"
  cc_ifindex :: int
  cc_arp :: "u8 list"
  cc_discover_delay :: int
  cc_discover_retry :: int
  cc_discover_sleep :: int

record client =
  cl_cfg :: client_config
  cl_state :: cstate
  cl_requested_ip :: u32
  cl_server_addr :: u32
  cl_timeout :: u32
  cl_packet_num :: int
  cl_fd :: int
  cl_listen_mode :: listen_mode
  cl_t1 :: u32
  cl_t2 :: u32
  cl_xid :: u32
  cl_start :: u32
  cl_lease :: u32
  cl_packet :: "u8 list"
  cl_query :: bool

datatype cl_out = CSendRaw dhcpMessage "raw_frame option" | CSendKernel dhcpMessage "kernel_dgram option"
  | RunScript "dhcpMessage option" string | Printed string | Slept nat

record cl_in =
  ci_now :: u32
  ci_sock :: int
  ci_select :: int
  ci_now2 :: u32
  ci_fd_ready :: bool
  ci_sig_ready :: bool
  ci_rcv :: "u8 list option"
  ci_eintr :: bool
  ci_sig :: "int option"
  ci_rand :: u32
  ci_arp :: arp_env
  ci_junk :: mem
  ci_raw :: raw_env
  ci_kernel :: kernel_env

section \<open>Messages\<close>

text \<open>The vendor option: \<^verbatim>\<open>udhcp 0.9.8\<close>, the version the Makefile sets.\<close>

definition vendor_id :: "u8 list" where
  "vendor_id = [DHCP_VENDOR, 11, 0x75, 0x64, 0x68, 0x63, 0x70, 0x20, 0x30, 0x2e, 0x39, 0x2e, 0x38, 0]"

text \<open>The null pointer as client identifier would be dereferenced.\<close>

definition client_init_packet :: "client_config \<Rightarrow> u8 \<Rightarrow> dhcpMessage option" where
  "client_init_packet cfg type = do {
     p \<leftarrow> init_header type;
     let p = p\<lparr>chaddr := take 6 (cc_arp cfg) @ drop 6 (chaddr p)\<rparr>;
     id \<leftarrow> cc_clientid cfg;
     p \<leftarrow> map_option snd (pkt_add p id);
     p \<leftarrow> (case cc_hostname cfg of None \<Rightarrow> Some p | Some h \<Rightarrow> map_option snd (pkt_add p h));
     map_option snd (pkt_add p vendor_id) }"

fun put_codes :: "nat \<Rightarrow> dhcp_option list \<Rightarrow> nat \<Rightarrow> u8 list \<Rightarrow> (nat \<times> u8 list) option" where
  "put_codes end [] len o' = Some (len, o')"
| "put_codes end (opt # opts) len o' =
     (if o_flags opt AND OPTION_REQ \<noteq> 0
      then do { o' \<leftarrow> wr o' (end + 2 + len) (o_code opt); put_codes end opts (len + 1) o' }
      else put_codes end opts len o')"

definition add_requests :: "dhcpMessage \<Rightarrow> dhcpMessage option" where
  "add_requests p = do {
     end \<leftarrow> end_option (options p);
     o' \<leftarrow> wr (options p) (end + OPT_CODE) DHCP_PARAM_REQ;
     (len, o') \<leftarrow> put_codes end dhcp_options 0 o';
     o' \<leftarrow> wr o' (end + OPT_LEN) (word_of_nat len);
     o' \<leftarrow> wr o' (end + 2 + len) DHCP_END;
     Some (p\<lparr>options := o'\<rparr>) }"

definition INADDR_ANY :: u32 where "INADDR_ANY = 0"

definition client_broadcast :: "client_config \<Rightarrow> cl_in \<Rightarrow> dhcpMessage \<Rightarrow> cl_out" where
  "client_broadcast cfg inp p = CSendRaw p (snd (raw_packet (ci_raw inp) p INADDR_ANY CLIENT_PORT INADDR_BROADCAST
     SERVER_PORT MAC_BCAST_ADDR (cc_ifindex cfg)))"

definition client_unicast :: "cl_in \<Rightarrow> dhcpMessage \<Rightarrow> u32 \<Rightarrow> u32 \<Rightarrow> cl_out" where
  "client_unicast inp p ci server = CSendKernel p (snd (kernel_packet (ci_kernel inp) p ci CLIENT_PORT server SERVER_PORT))"

definition send_discover :: "client_config \<Rightarrow> cl_in \<Rightarrow> u32 \<Rightarrow> u32 \<Rightarrow> cl_out option" where
  "send_discover cfg inp x requested = do {
     p \<leftarrow> client_init_packet cfg DHCPDISCOVER;
     let p = p\<lparr>xid := x\<rparr>;
     p \<leftarrow> (if requested \<noteq> 0 then pkt_add_simple p DHCP_REQUESTED_IP requested else Some p);
     p \<leftarrow> add_requests p;
     Some (client_broadcast cfg inp p) }"

definition send_selecting :: "client_config \<Rightarrow> cl_in \<Rightarrow> u32 \<Rightarrow> u32 \<Rightarrow> u32 \<Rightarrow> cl_out option" where
  "send_selecting cfg inp x server requested = do {
     p \<leftarrow> client_init_packet cfg DHCPREQUEST;
     let p = p\<lparr>xid := x\<rparr>;
     p \<leftarrow> pkt_add_simple p DHCP_REQUESTED_IP requested;
     p \<leftarrow> pkt_add_simple p DHCP_SERVER_ID server;
     p \<leftarrow> add_requests p;
     Some (client_broadcast cfg inp p) }"

definition send_renew :: "client_config \<Rightarrow> cl_in \<Rightarrow> u32 \<Rightarrow> u32 \<Rightarrow> u32 \<Rightarrow> cl_out option" where
  "send_renew cfg inp x server ci = do {
     p \<leftarrow> client_init_packet cfg DHCPREQUEST;
     let p = p\<lparr>xid := x, ciaddr := ci\<rparr>;
     p \<leftarrow> add_requests p;
     Some (if server \<noteq> 0 then client_unicast inp p ci server else client_broadcast cfg inp p) }"

definition send_release :: "client_config \<Rightarrow> cl_in \<Rightarrow> u32 \<Rightarrow> u32 \<Rightarrow> cl_out option" where
  "send_release cfg inp server ci = do {
     p \<leftarrow> client_init_packet cfg DHCPRELEASE;
     let p = p\<lparr>xid := ci_rand inp, ciaddr := ci\<rparr>;
     p \<leftarrow> pkt_add_simple p DHCP_REQUESTED_IP ci;
     p \<leftarrow> pkt_add_simple p DHCP_SERVER_ID server;
     Some (client_unicast inp p ci server) }"

definition send_decline :: "client_config \<Rightarrow> cl_in \<Rightarrow> u32 \<Rightarrow> cl_out option" where
  "send_decline cfg inp x = do {
     p \<leftarrow> client_init_packet cfg DHCPDECLINE;
     Some (client_broadcast cfg inp (p\<lparr>xid := x\<rparr>)) }"

section \<open>Signals\<close>

definition change_mode :: "listen_mode \<Rightarrow> client \<Rightarrow> client" where
  "change_mode m s = s\<lparr>cl_fd := -1, cl_listen_mode := m\<rparr>"

definition perform_renew :: "client \<Rightarrow> cl_out list \<times> client" where
  "perform_renew s =
     (let (out, s) = (case cl_state s of
         BOUND \<Rightarrow> ([], (change_mode LISTEN_RAW s)\<lparr>cl_state := RENEW_REQUESTED\<rparr>)
       | RENEWING \<Rightarrow> ([], s\<lparr>cl_state := RENEW_REQUESTED\<rparr>)
       | REBINDING \<Rightarrow> ([], s\<lparr>cl_state := RENEW_REQUESTED\<rparr>)
       | RENEW_REQUESTED \<Rightarrow> ([RunScript None ''deconfig''], (change_mode LISTEN_RAW s)\<lparr>cl_state := INIT_SELECTING\<rparr>)
       | REQUESTING \<Rightarrow> ([], (change_mode LISTEN_RAW s)\<lparr>cl_state := INIT_SELECTING\<rparr>)
       | RELEASED \<Rightarrow> ([], (change_mode LISTEN_RAW s)\<lparr>cl_state := INIT_SELECTING\<rparr>)
       | INIT_SELECTING \<Rightarrow> ([], s)
       | INIT_REBOOT \<Rightarrow> ([], s))
      in (out, s\<lparr>cl_packet_num := 0, cl_timeout := 0\<rparr>))"

definition perform_release :: "cl_in \<Rightarrow> client \<Rightarrow> (cl_out list \<times> client) option" where
  "perform_release inp s = do {
     out \<leftarrow> (if cl_state s = BOUND \<or> cl_state s = RENEWING \<or> cl_state s = REBINDING
       then do { m \<leftarrow> send_release (cl_cfg s) inp (cl_server_addr s) (cl_requested_ip s);
                 Some [m, RunScript None ''deconfig''] }
       else Some []);
     Some (out, (change_mode LISTEN_NONE s)\<lparr>cl_state := RELEASED, cl_timeout := 0x7fffffff\<rparr>) }"

definition background :: "client \<Rightarrow> client" where
  "background s = s\<lparr>cl_cfg := (cl_cfg s)\<lparr>cc_foreground := True\<rparr>\<rparr>"

section \<open>The main loop\<close>

datatype cl_res = Going "cl_out list" client | Exit int "cl_out list"

text \<open>The wait before the next transmission. A shift by 32 or more is undefined.\<close>

definition retry_timeout :: "client_config \<Rightarrow> int \<Rightarrow> u32 \<Rightarrow> u32 option" where
  "retry_timeout cfg n now =
     (if 0 \<le> n \<and> n < 32 then
        let t = push_bit (nat n) (word_of_int (cc_discover_delay cfg) :: u32); t = (if t > 64 then 64 else t)
        in Some (t + now)
      else None)"

definition timeout_selecting :: "cl_in \<Rightarrow> client \<Rightarrow> cl_res option" where
  "timeout_selecting inp s =
     (let cfg = cl_cfg s; now = ci_now2 inp in
      if cl_packet_num s < cc_discover_retry cfg then do {
        let s = (if cl_packet_num s = 0 then s\<lparr>cl_xid := ci_rand inp\<rparr> else s);
        m \<leftarrow> send_discover cfg inp (cl_xid s) (cl_requested_ip s);
        t \<leftarrow> retry_timeout cfg (cl_packet_num s) now;
        Some (Going [m] (s\<lparr>cl_timeout := t, cl_packet_num := cl_packet_num s + 1\<rparr>)) }
      else if cl_query s then Some (Exit 1 [Printed (''no'' @ [CHR 0x0A])])
      else if \<not> cc_background_if_no_lease cfg \<and> cc_abort_if_no_lease cfg then Some (Exit 1 [])
      else
        let s = (if cc_background_if_no_lease cfg then background s else s); s = s\<lparr>cl_packet_num := 0\<rparr> in
        if cc_discover_sleep cfg = 0 then Some (Exit 1 [])
        else Some (Going [] (s\<lparr>cl_timeout := now + word_of_int (cc_discover_sleep cfg)\<rparr>)))"

definition timeout_requesting :: "cl_in \<Rightarrow> client \<Rightarrow> cl_res option" where
  "timeout_requesting inp s =
     (let cfg = cl_cfg s; now = ci_now2 inp in
      if cl_packet_num s < cc_discover_retry cfg then do {
        m \<leftarrow> (if cl_state s = RENEW_REQUESTED
          then send_renew cfg inp (cl_xid s) (cl_server_addr s) (cl_requested_ip s)
          else send_selecting cfg inp (cl_xid s) (cl_server_addr s) (cl_requested_ip s));
        t \<leftarrow> retry_timeout cfg (cl_packet_num s) now;
        Some (Going [m] (s\<lparr>cl_timeout := t, cl_packet_num := cl_packet_num s + 1\<rparr>)) }
      else
        let out = (if cl_state s = RENEW_REQUESTED then [RunScript None ''deconfig''] else []) in
        if cc_discover_sleep cfg = 0 then Some (Exit 1 out)
        else Some (Going out (change_mode LISTEN_RAW
          (s\<lparr>cl_state := INIT_SELECTING, cl_timeout := now, cl_packet_num := 0\<rparr>))))"

definition timeout_renewing :: "cl_in \<Rightarrow> client \<Rightarrow> cl_res option" where
  "timeout_renewing inp s =
     (if cl_t2 s - cl_t1 s \<le> cl_lease s div 14400 + 1
      then Some (Going [] (s\<lparr>cl_state := REBINDING, cl_timeout := ci_now2 inp + (cl_t2 s - cl_t1 s)\<rparr>))
      else do {
        m \<leftarrow> send_renew (cl_cfg s) inp (cl_xid s) (cl_server_addr s) (cl_requested_ip s);
        let t1 = (cl_t2 s - cl_t1 s) div 2 + cl_t1 s;
        Some (Going [m] (s\<lparr>cl_t1 := t1, cl_timeout := t1 + cl_start s\<rparr>)) })"

definition timeout_rebinding :: "cl_in \<Rightarrow> client \<Rightarrow> cl_res option" where
  "timeout_rebinding inp s =
     (if cl_lease s - cl_t2 s \<le> cl_lease s div 14400 + 1
      then Some (Going [RunScript None ''deconfig''] (change_mode LISTEN_RAW
        (s\<lparr>cl_state := INIT_SELECTING, cl_timeout := ci_now2 inp, cl_packet_num := 0\<rparr>)))
      else do {
        m \<leftarrow> send_renew (cl_cfg s) inp (cl_xid s) 0 (cl_requested_ip s);
        let t2 = (cl_lease s - cl_t2 s) div 2 + cl_t2 s;
        Some (Going [m] (s\<lparr>cl_t2 := t2, cl_timeout := t2 + cl_start s\<rparr>)) })"

definition on_timeout :: "cl_in \<Rightarrow> client \<Rightarrow> cl_res option" where
  "on_timeout inp s = (case cl_state s of
     INIT_SELECTING \<Rightarrow> timeout_selecting inp s
   | RENEW_REQUESTED \<Rightarrow> timeout_requesting inp s
   | REQUESTING \<Rightarrow> timeout_requesting inp s
   | BOUND \<Rightarrow> timeout_renewing inp (change_mode LISTEN_RAW (s\<lparr>cl_state := RENEWING\<rparr>))
   | RENEWING \<Rightarrow> timeout_renewing inp s
   | REBINDING \<Rightarrow> timeout_rebinding inp s
   | RELEASED \<Rightarrow> Some (Going [] (s\<lparr>cl_timeout := 0x7fffffff\<rparr>))
   | INIT_REBOOT \<Rightarrow> Some (Going [] s))"

definition on_offer :: "cl_in \<Rightarrow> dhcpMessage \<Rightarrow> client \<Rightarrow> cl_res" where
  "on_offer inp pkt s = (let m = pkt_mem (ci_junk inp) pkt in
     case get_option m DHCP_SERVER_ID of
       None \<Rightarrow> Going [] s
     | Some k \<Rightarrow>
         if cl_query s then Exit 0 [Printed (''yes'' @ [CHR 0x0A])]
         else Going [] (s\<lparr>cl_server_addr := get_u32 m k, cl_xid := xid pkt, cl_requested_ip := yiaddr pkt,
           cl_state := REQUESTING, cl_timeout := ci_now2 inp, cl_packet_num := 0\<rparr>))"

definition enter_bound :: "cl_in \<Rightarrow> dhcpMessage \<Rightarrow> client \<Rightarrow> cl_res" where
  "enter_bound inp pkt s =
     (let m = pkt_mem (ci_junk inp) pkt; now = ci_now2 inp;
        lease = (case get_option m DHCP_LEASE_TIME of None \<Rightarrow> 60 * 60 | Some k \<Rightarrow> ntohl (get_u32 m k));
        t1 = lease div 2; t2 = drop_bit 3 (lease * 0x7);
        out = [RunScript (Some pkt) (if cl_state s = RENEWING \<or> cl_state s = REBINDING then ''renew'' else ''bound'')];
        s = change_mode LISTEN_NONE (s\<lparr>cl_lease := lease, cl_t1 := t1, cl_t2 := t2, cl_start := now,
          cl_timeout := t1 + now, cl_requested_ip := yiaddr pkt, cl_state := BOUND\<rparr>)
      in if cc_quit_after_lease (cl_cfg s) then Exit 0 out
         else Going out (if \<not> cc_foreground (cl_cfg s) then background s else s))"

definition on_ack :: "cl_in \<Rightarrow> dhcpMessage \<Rightarrow> client \<Rightarrow> cl_res option" where
  "on_ack inp pkt s =
     (let cfg = cl_cfg s; now = ci_now2 inp in
      if cl_state s = REQUESTING then
        (case arpping (ci_arp inp) (yiaddr pkt) 0 (cc_arp cfg) (cc_interface cfg) of
           ArpDone r \<Rightarrow>
             if r = 0 then do {
               m \<leftarrow> send_decline cfg inp (cl_xid s);
               Some (Going [m, Slept 3] (s\<lparr>cl_state := INIT_SELECTING, cl_timeout := now, cl_requested_ip := 0,
                 cl_packet_num := 0\<rparr>)) }
             else Some (enter_bound inp pkt s)
         | ArpWaiting \<Rightarrow> None
         | ArpOverflow \<Rightarrow> None)
      else Some (enter_bound inp pkt s))"

definition on_nak :: "cl_in \<Rightarrow> dhcpMessage \<Rightarrow> client \<Rightarrow> cl_res" where
  "on_nak inp pkt s =
     Going ([RunScript (Some pkt) ''nak''] @ (if cl_state s \<noteq> REQUESTING then [RunScript None ''deconfig''] else []) @ [Slept 3])
       (change_mode LISTEN_RAW (s\<lparr>cl_state := INIT_SELECTING, cl_timeout := ci_now2 inp, cl_requested_ip := 0,
         cl_packet_num := 0\<rparr>))"

definition on_message :: "cl_in \<Rightarrow> dhcpMessage \<Rightarrow> client \<Rightarrow> cl_res option" where
  "on_message inp pkt s = (let m = pkt_mem (ci_junk inp) pkt in
     if xid pkt \<noteq> cl_xid s then Some (Going [] s)
     else case get_option m DHCP_MESSAGE_TYPE of
       None \<Rightarrow> Some (Going [] s)
     | Some k \<Rightarrow>
         if cl_state s = INIT_SELECTING then
           (if m k = DHCPOFFER then Some (on_offer inp pkt s) else Some (Going [] s))
         else if cl_state s \<in> {RENEW_REQUESTED, REQUESTING, RENEWING, REBINDING} then
           (if m k = DHCPACK then on_ack inp pkt s
            else if m k = DHCPNAK then Some (on_nak inp pkt s)
            else Some (Going [] s))
         else Some (Going [] s))"

definition on_packet :: "cl_in \<Rightarrow> client \<Rightarrow> cl_res option" where
  "on_packet inp s = do {
     (len, b) \<leftarrow> (if cl_listen_mode s = LISTEN_KERNEL
       then Some (map_prod id pkt_bytes (get_packet (ci_junk inp) (ci_rcv inp)))
       else get_raw_packet (ci_rcv inp) (cl_packet s));
     let s = s\<lparr>cl_packet := b\<rparr>;
     let s = (if len = -1 \<and> \<not> ci_eintr inp then change_mode (cl_listen_mode s) s else s);
     if len < 0 then Some (Going [] s) else on_message inp (pkt_of_bytes b) s }"

definition on_signal :: "cl_in \<Rightarrow> client \<Rightarrow> cl_res option" where
  "on_signal inp s = (case ci_sig inp of
     None \<Rightarrow> Some (Going [] s)
   | Some sig \<Rightarrow>
       if sig = SIGUSR1 then Some (case perform_renew s of (out, s) \<Rightarrow> Going out s)
       else if sig = SIGUSR2 then map_option (\<lambda>(out, s). Going out s) (perform_release inp s)
       else if sig = SIGTERM then Some (Exit 0 [])
       else Some (Going [] s))"

definition client_pass :: "cl_in \<Rightarrow> client \<Rightarrow> cl_res option" where
  "client_pass inp s =
     (let tv = cl_timeout s - ci_now inp;
        s = (if cl_listen_mode s \<noteq> LISTEN_NONE \<and> cl_fd s < 0 then s\<lparr>cl_fd := ci_sock inp\<rparr> else s) in
      if cl_listen_mode s \<noteq> LISTEN_NONE \<and> cl_fd s < 0 then Some (Exit 0 [])
      else
        let retval = (if sint tv > 0 then ci_select inp else 0) in
        if retval = 0 then on_timeout inp s
        else if retval > 0 \<and> cl_listen_mode s \<noteq> LISTEN_NONE \<and> ci_fd_ready inp then on_packet inp s
        else if retval > 0 \<and> ci_sig_ready inp then on_signal inp s
        else Some (Going [] s))"

text \<open>Several passes; the flag tells whether the client still runs.\<close>

fun client_run :: "cl_in list \<Rightarrow> client \<Rightarrow> (cl_out list \<times> bool \<times> client) option" where
  "client_run [] s = Some ([], True, s)"
| "client_run (inp # inps) s = do {
     r \<leftarrow> client_pass inp s;
     case r of Exit _ out \<Rightarrow> Some (out, False, s)
     | Going out s \<Rightarrow> do {
         (out', b, s) \<leftarrow> client_run inps s;
         Some (out @ out', b, s) } }"

text \<open>The state before the first pass.\<close>

definition default_clientid :: "u8 list \<Rightarrow> u8 list" where
  "default_clientid arp = [DHCP_CLIENT_ID, 7, 1] @ take 6 arp"

definition client_start :: "client_config \<Rightarrow> u32 \<Rightarrow> u32 \<Rightarrow> bool \<Rightarrow> u32 \<Rightarrow> u32 \<Rightarrow> u8 list \<Rightarrow> cl_out list \<times> client" where
  "client_start cfg now requested query server lease packet =
     ((if \<not> query then [RunScript None ''deconfig''] else []),
      \<lparr>cl_cfg = cfg\<lparr>cc_clientid := (case cc_clientid cfg of None \<Rightarrow> Some (default_clientid (cc_arp cfg)) | Some c \<Rightarrow> Some c)\<rparr>,
       cl_state = INIT_SELECTING, cl_requested_ip = requested, cl_server_addr = server, cl_timeout = now,
       cl_packet_num = 0, cl_fd = -1, cl_listen_mode = LISTEN_RAW, cl_t1 = 0, cl_t2 = 0, cl_xid = 0, cl_start = 0,
       cl_lease = lease, cl_packet = packet, cl_query = query\<rparr>)"

section \<open>The messages are in good form\<close>

lemma put_codes_table:
  "put_codes e dhcp_options 0 b = do { b \<leftarrow> wr b (e + 2) 0x01; b \<leftarrow> wr b (e + 3) 0x03; b \<leftarrow> wr b (e + 4) 0x06;
     b \<leftarrow> wr b (e + 5) 0x0f; Some (4, b) }"
proof -
  have e: "e + 3 = Suc (Suc (Suc e))" "e + 4 = Suc (Suc (Suc (Suc e)))" "e + 5 = Suc (Suc (Suc (Suc (Suc e))))" by simp_all
  show ?thesis unfolding e by (simp add: dhcp_options_def dhcp_opt_def opt_types split: Option.bind_split)
qed

lemma list_cases7:
  assumes "7 \<le> length xs"
  obtains a b c d e f g ys where "xs = a # b # c # d # e # f # g # ys"
  using assms by (auto simp: numeral_eq_Suc Suc_le_length_iff)

lemma add_requests_rep:
  assumes p: "pkt_rep p os" and l: "length (enc os) + 7 \<le> 308"
  shows "\<exists>p'. add_requests p = Some p' \<and> pkt_rep p' (os @ [(DHCP_PARAM_REQ, [0x01, 0x03, 0x06, 0x0f])])
    \<and> p' = p\<lparr>options := options p'\<rparr>"
proof -
  obtain rest where o: "options p = enc os @ DHCP_END # rest" and n: "length (options p) = 308" and ok: "list_all opt_ok os"
    and wf: "wf_pkt p" and oi: "opts_in (options p) os"
    using p by (auto simp: pkt_rep_def opts_in_def)
  have "7 \<le> length (DHCP_END # rest)" using n o l by simp
  then obtain a b c d e f g ys where r: "DHCP_END # rest = a # b # c # d # e # f # g # ys" by (rule list_cases7)
  let ?new = "enc os @ DHCP_PARAM_REQ # 4 # 0x01 # 0x03 # 0x06 # 0x0f # DHCP_END # ys"
  have len: "length (enc os) + 7 + length ys = 308" using n o r by simp
  have eq: "add_requests p = Some (p\<lparr>options := ?new\<rparr>)"
    unfolding add_requests_def end_option_opts [OF oi] put_codes_table
    using o r len by (simp add: wr_def OPT_CODE_def OPT_LEN_def list_update_append numeral_eq_Suc)
  have "opts_in ?new (os @ [(DHCP_PARAM_REQ, [0x01, 0x03, 0x06, 0x0f])])"
    using len ok by (simp add: opts_in_def opt_codes)
  then have "pkt_rep (p\<lparr>options := ?new\<rparr>) (os @ [(DHCP_PARAM_REQ, [0x01, 0x03, 0x06, 0x0f])])"
    using wf len by (simp add: pkt_rep_def wf_pkt_def)
  then show ?thesis using eq by simp
qed

lemma add_requests_overruns:
  assumes p: "pkt_rep p os" and l: "302 \<le> length (enc os)"
  shows "add_requests p = None"
proof -
  obtain oi: "opts_in (options p) os" and n: "length (options p) = 308" using p by (auto simp: pkt_rep_def opts_in_def)
  have "wr b (length (enc os) + 6) DHCP_END = None" if "length b = 308" for b using l that by (simp add: wr_def)
  then show ?thesis
    unfolding add_requests_def end_option_opts [OF oi] put_codes_table
    using n by (auto simp: wr_def bind_eq_None_conv split: option.split if_splits)
qed

text \<open>A configuration whose options leave room for everything a message carries: the type, the vendor, the
  requested address, the server and the parameter list.\<close>

definition cfg_opts :: "client_config \<Rightarrow> (u8 \<times> u8 list) list \<Rightarrow> bool" where
  "cfg_opts cfg os \<longleftrightarrow> (\<exists>c. cc_clientid cfg = Some (enc_opt (DHCP_CLIENT_ID, c)) \<and>
     (case cc_hostname cfg of None \<Rightarrow> os = [(DHCP_CLIENT_ID, c)]
      | Some b \<Rightarrow> \<exists>h. b = enc_opt (DHCP_HOST_NAME, h) \<and> os = [(DHCP_CLIENT_ID, c), (DHCP_HOST_NAME, h)])) \<and>
     length (cc_arp cfg) = 6 \<and> length (enc os) \<le> 273 \<and> list_all opt_ok os"

definition vendor_opt :: "u8 \<times> u8 list" where
  "vendor_opt = (DHCP_VENDOR, [0x75, 0x64, 0x68, 0x63, 0x70, 0x20, 0x30, 0x2e, 0x39, 0x2e, 0x38])"

lemma length_enc_vendor [simp]: "length (enc (vendor_opt # os)) = 13 + length (enc os)"
  by (simp add: vendor_opt_def)

lemma pkt_add_trailing: "length d < 256 \<Longrightarrow> pkt_add p (enc_opt (c, d) @ r) = pkt_add p (enc_opt (c, d))"
  by (cases "end_option (options p)")
    (simp_all add: pkt_add_def add_option_string_def rd_def rdn_def OPT_LEN_def nth_append cong: if_cong)

lemma pkt_add_rep_fits:
  assumes "pkt_rep p os" and "opt_ok (c, d)" and "opt_fits os d"
  shows "\<exists>p'. map_option snd (pkt_add p (enc_opt (c, d))) = Some p' \<and> pkt_rep p' (os @ [(c, d)]) \<and> same_hdr p p'"
proof -
  obtain n p' where "pkt_add p (enc_opt (c, d)) = Some (n, p')" "pkt_rep p' (os @ [(c, d)])" "p' = p\<lparr>options := options p'\<rparr>"
    using pkt_add_string_rep [OF assms(1,2)] assms(3) by auto
  then show ?thesis using same_hdr_options by (metis option.map(2) snd_conv)
qed

lemma pkt_simple_rep_fits:
  assumes "pkt_rep p os" and "c = DHCP_REQUESTED_IP \<or> c = DHCP_SERVER_ID" and "length (enc os) \<le> 300"
  shows "\<exists>p'. pkt_add_simple p c x = Some p' \<and> pkt_rep p' (os @ [(c, be32 x)]) \<and> same_hdr p p'"
proof -
  have c: "simple_option_length c \<in> {1, 2, 4}" "opt_ok (c, [])" "simple_data c x = be32 x"
    using assms(2) by (auto simp: simple_data_def)
  obtain p' where "pkt_add_simple p c x = Some p'" "pkt_rep p' (os @ [(c, be32 x)])" "p' = p\<lparr>options := options p'\<rparr>"
    using pkt_add_simple_rep [OF assms(1) c(1,2), of x] assms(3) c(3) by (auto simp: opt_fits_def)
  then show ?thesis using same_hdr_options by blast
qed

lemma client_init_packet_rep:
  assumes "cfg_opts cfg os"
  shows "\<exists>p. client_init_packet cfg t = Some p \<and> pkt_rep p ((DHCP_MESSAGE_TYPE, [t]) # os @ [vendor_opt])
    \<and> op p = (if t \<in> {DHCPDISCOVER, DHCPREQUEST, DHCPRELEASE, DHCPINFORM} then BOOTREQUEST
        else if t \<in> {DHCPOFFER, DHCPACK, DHCPNAK} then BOOTREPLY else 0)
    \<and> chaddr p = cc_arp cfg @ replicate 10 0 \<and> cookie p = DHCP_MAGIC \<and> ciaddr p = 0 \<and> yiaddr p = 0 \<and> giaddr p = 0 \<and> flags p = 0"
proof -
  let ?T = "(DHCP_MESSAGE_TYPE, [t])"
  obtain c where c: "cc_clientid cfg = Some (enc_opt (DHCP_CLIENT_ID, c))"
      "case cc_hostname cfg of None \<Rightarrow> os = [(DHCP_CLIENT_ID, c)]
       | Some b \<Rightarrow> \<exists>h. b = enc_opt (DHCP_HOST_NAME, h) \<and> os = [(DHCP_CLIENT_ID, c), (DHCP_HOST_NAME, h)]"
    and arp: "length (cc_arp cfg) = 6" and l: "length (enc os) \<le> 273" and ok: "list_all opt_ok os"
    using assms unfolding cfg_opts_def by blast
  obtain p0 where p0: "init_header t = Some p0" "pkt_rep p0 [?T]"
      "p0 = zero_pkt\<lparr>op := op p0, htype := ETH_10MB, hlen := ETH_10MB_LEN, cookie := DHCP_MAGIC, options := options p0\<rparr>"
      "op p0 = (if t \<in> {DHCPDISCOVER, DHCPREQUEST, DHCPRELEASE, DHCPINFORM} then BOOTREQUEST
        else if t \<in> {DHCPOFFER, DHCPACK, DHCPNAK} then BOOTREPLY else 0)"
    using init_header_rep [of t] by blast
  define p1 where "p1 = p0\<lparr>chaddr := take 6 (cc_arp cfg) @ drop 6 (chaddr p0)\<rparr>"
  have h0: "chaddr p0 = replicate 16 0" "cookie p0 = DHCP_MAGIC" "ciaddr p0 = 0" "yiaddr p0 = 0" "giaddr p0 = 0" "flags p0 = 0"
    by (subst p0(3), simp add: zero_pkt_def)+
  have p1: "pkt_rep p1 [?T]" using p0(2) arp h0(1) by (simp add: p1_def pkt_rep_def wf_pkt_def)
  have ch: "chaddr p1 = cc_arp cfg @ replicate 10 0" using arp h0(1) by (simp add: p1_def)
  have idok: "opt_ok (DHCP_CLIENT_ID, c)" "opt_fits [?T] c"
    using c(2) ok l by (auto simp: opt_fits_def split: option.splits)
  obtain p2 where p2: "map_option snd (pkt_add p1 (enc_opt (DHCP_CLIENT_ID, c))) = Some p2"
      "pkt_rep p2 ([?T] @ [(DHCP_CLIENT_ID, c)])" "same_hdr p1 p2"
    using pkt_add_rep_fits [OF p1 idok] by blast
  obtain p3 where p3: "(case cc_hostname cfg of None \<Rightarrow> Some p2 | Some h \<Rightarrow> map_option snd (pkt_add p2 h)) = Some p3"
      "pkt_rep p3 (?T # os)" "same_hdr p2 p3"
  proof (cases "cc_hostname cfg")
    case None
    then show ?thesis using that [of p2] c(2) p2(2) by (simp add: same_hdr_def)
  next
    case (Some b)
    then obtain h where h: "b = enc_opt (DHCP_HOST_NAME, h)" "os = [(DHCP_CLIENT_ID, c), (DHCP_HOST_NAME, h)]" using c(2) by auto
    have "opt_ok (DHCP_HOST_NAME, h)" "opt_fits ([?T] @ [(DHCP_CLIENT_ID, c)]) h" using h(2) ok l by (simp_all add: opt_fits_def)
    from pkt_add_rep_fits [OF p2(2) this] show ?thesis using that Some h by auto
  qed
  have v: "vendor_id = enc_opt vendor_opt @ [0]" "opt_ok vendor_opt" by (simp_all add: vendor_id_def vendor_opt_def opt_codes)
  have "opt_fits (?T # os) (snd vendor_opt)" using l by (simp add: opt_fits_def vendor_opt_def)
  then obtain p4 where p4: "map_option snd (pkt_add p3 vendor_id) = Some p4" "pkt_rep p4 ((?T # os) @ [vendor_opt])" "same_hdr p3 p4"
    using pkt_add_rep_fits [OF p3(2), of "fst vendor_opt" "snd vendor_opt"] v pkt_add_trailing [of "snd vendor_opt" p3 "fst vendor_opt" "[0]"]
    by (auto simp: vendor_opt_def)
  have "client_init_packet cfg t = Some p4"
    unfolding client_init_packet_def p0(1) bind.bind_lunit Let_def p1_def [symmetric] c(1) p2(1) p3(1) p4(1) ..
  moreover have "same_hdr p1 p4" using p2(3) p3(3) p4(3) same_hdr_trans by blast
  ultimately show ?thesis using p4(2) ch h0 p0(4) by (auto simp: same_hdr_def p1_def)
qed

definition msg_hdr :: "client_config \<Rightarrow> u32 \<Rightarrow> u32 \<Rightarrow> dhcpMessage \<Rightarrow> bool" where
  "msg_hdr cfg x ci p \<longleftrightarrow> chaddr p = cc_arp cfg @ replicate 10 0 \<and> cookie p = DHCP_MAGIC \<and> xid p = x \<and> ciaddr p = ci
     \<and> yiaddr p = 0 \<and> giaddr p = 0 \<and> flags p = 0"

definition param_req :: "u8 \<times> u8 list" where
  "param_req = (DHCP_PARAM_REQ, [0x01, 0x03, 0x06, 0x0f])"

lemma msg_hdr_same: "msg_hdr cfg x ci p \<Longrightarrow> same_hdr p q \<Longrightarrow> msg_hdr cfg x ci q \<and> op q = op p"
  by (simp add: msg_hdr_def same_hdr_def)

lemma pkt_rep_hdr: "pkt_rep p os \<Longrightarrow> pkt_rep (p\<lparr>xid := x\<rparr>) os" "pkt_rep p os \<Longrightarrow> pkt_rep (p\<lparr>xid := x, ciaddr := ci\<rparr>) os"
  by (simp_all add: pkt_rep_def wf_pkt_def)

lemma client_start_msg:
  assumes "cfg_opts cfg os" and "t \<in> {DHCPDISCOVER, DHCPREQUEST, DHCPRELEASE, DHCPDECLINE}"
  shows "\<exists>p. client_init_packet cfg t = Some p \<and> (\<forall>x ci. pkt_rep (p\<lparr>xid := x, ciaddr := ci\<rparr>) ((DHCP_MESSAGE_TYPE, [t]) # os @ [vendor_opt])
      \<and> msg_hdr cfg x ci (p\<lparr>xid := x, ciaddr := ci\<rparr>))
    \<and> (\<forall>x. pkt_rep (p\<lparr>xid := x\<rparr>) ((DHCP_MESSAGE_TYPE, [t]) # os @ [vendor_opt]) \<and> msg_hdr cfg x 0 (p\<lparr>xid := x\<rparr>))
    \<and> op p = (if t = DHCPDECLINE then 0 else BOOTREQUEST)"
proof -
  obtain p where p: "client_init_packet cfg t = Some p" "pkt_rep p ((DHCP_MESSAGE_TYPE, [t]) # os @ [vendor_opt])"
      "op p = (if t \<in> {DHCPDISCOVER, DHCPREQUEST, DHCPRELEASE, DHCPINFORM} then BOOTREQUEST
        else if t \<in> {DHCPOFFER, DHCPACK, DHCPNAK} then BOOTREPLY else 0)"
      "chaddr p = cc_arp cfg @ replicate 10 0" "cookie p = DHCP_MAGIC" "ciaddr p = 0" "yiaddr p = 0" "giaddr p = 0" "flags p = 0"
    using client_init_packet_rep [OF assms(1)] by blast
  have "op p = (if t = DHCPDECLINE then 0 else BOOTREQUEST)" using p(3) assms(2) by (auto simp: msg_types)
  then show ?thesis using p(1,4-9) pkt_rep_hdr [OF p(2)] by (simp add: msg_hdr_def)
qed

lemma enc_len_base:
  assumes "cfg_opts cfg os"
  shows "length (enc ((DHCP_MESSAGE_TYPE, [t]) # os @ [vendor_opt])) \<le> 289"
  using assms by (auto simp: cfg_opts_def vendor_opt_def)

lemma add_requests_hdr:
  assumes "pkt_rep p os" and "length (enc os) \<le> 301"
  shows "\<exists>p'. add_requests p = Some p' \<and> pkt_rep p' (os @ [param_req]) \<and> same_hdr p p'"
  using add_requests_rep [OF assms(1)] assms(2) same_hdr_options unfolding param_req_def by fastforce

lemma send_discover_ok:
  assumes "cfg_opts cfg os"
  shows "\<exists>p. send_discover cfg inp x rq = Some (client_broadcast cfg inp p) \<and> msg_hdr cfg x 0 p \<and> op p = BOOTREQUEST
    \<and> pkt_rep p ((DHCP_MESSAGE_TYPE, [DHCPDISCOVER]) # os @ [vendor_opt]
        @ (if rq \<noteq> 0 then [(DHCP_REQUESTED_IP, be32 rq)] else []) @ [param_req])"
proof -
  let ?o = "(DHCP_MESSAGE_TYPE, [DHCPDISCOVER]) # os @ [vendor_opt]"
  obtain p where p: "client_init_packet cfg DHCPDISCOVER = Some p" "pkt_rep (p\<lparr>xid := x\<rparr>) ?o" "msg_hdr cfg x 0 (p\<lparr>xid := x\<rparr>)"
      "op p = BOOTREQUEST"
    using client_start_msg [OF assms, of DHCPDISCOVER] by (auto simp: msg_types)
  let ?r = "if rq \<noteq> 0 then [(DHCP_REQUESTED_IP, be32 rq)] else []"
  obtain p1 where p1: "(if rq \<noteq> 0 then pkt_add_simple (p\<lparr>xid := x\<rparr>) DHCP_REQUESTED_IP rq else Some (p\<lparr>xid := x\<rparr>)) = Some p1"
      "pkt_rep p1 (?o @ ?r)" "same_hdr (p\<lparr>xid := x\<rparr>) p1"
    using pkt_simple_rep_fits [OF p(2), of DHCP_REQUESTED_IP rq] enc_len_base [OF assms, of DHCPDISCOVER] p(2)
    by (cases "rq = 0") (auto simp: same_hdr_def)
  have "length (enc (?o @ ?r)) \<le> 301" using enc_len_base [OF assms, of DHCPDISCOVER] by simp
  then obtain p2 where p2: "add_requests p1 = Some p2" "pkt_rep p2 ((?o @ ?r) @ [param_req])" "same_hdr p1 p2"
    using add_requests_hdr [OF p1(2)] by blast
  have "msg_hdr cfg x 0 p2 \<and> op p2 = BOOTREQUEST"
    using msg_hdr_same [OF p(3) same_hdr_trans [OF p1(3) p2(3)]] p(4) by simp
  moreover have "send_discover cfg inp x rq = Some (client_broadcast cfg inp p2)"
    unfolding send_discover_def p(1) bind.bind_lunit Let_def p1(1) p2(1) ..
  ultimately show ?thesis using p2(2) by auto
qed

lemma send_selecting_ok:
  assumes "cfg_opts cfg os"
  shows "\<exists>p. send_selecting cfg inp x sv rq = Some (client_broadcast cfg inp p) \<and> msg_hdr cfg x 0 p \<and> op p = BOOTREQUEST
    \<and> pkt_rep p ((DHCP_MESSAGE_TYPE, [DHCPREQUEST]) # os @ [vendor_opt, (DHCP_REQUESTED_IP, be32 rq),
        (DHCP_SERVER_ID, be32 sv), param_req])"
proof -
  let ?o = "(DHCP_MESSAGE_TYPE, [DHCPREQUEST]) # os @ [vendor_opt]"
  obtain p where p: "client_init_packet cfg DHCPREQUEST = Some p" "pkt_rep (p\<lparr>xid := x\<rparr>) ?o" "msg_hdr cfg x 0 (p\<lparr>xid := x\<rparr>)"
      "op p = BOOTREQUEST"
    using client_start_msg [OF assms, of DHCPREQUEST] by (auto simp: msg_types)
  note l = enc_len_base [OF assms, of DHCPREQUEST]
  obtain p1 where p1: "pkt_add_simple (p\<lparr>xid := x\<rparr>) DHCP_REQUESTED_IP rq = Some p1"
      "pkt_rep p1 (?o @ [(DHCP_REQUESTED_IP, be32 rq)])" "same_hdr (p\<lparr>xid := x\<rparr>) p1"
    using pkt_simple_rep_fits [OF p(2), of DHCP_REQUESTED_IP rq] l by auto
  obtain p2 where p2: "pkt_add_simple p1 DHCP_SERVER_ID sv = Some p2"
      "pkt_rep p2 ((?o @ [(DHCP_REQUESTED_IP, be32 rq)]) @ [(DHCP_SERVER_ID, be32 sv)])" "same_hdr p1 p2"
    using pkt_simple_rep_fits [OF p1(2), of DHCP_SERVER_ID sv] l by auto
  have "length (enc ((?o @ [(DHCP_REQUESTED_IP, be32 rq)]) @ [(DHCP_SERVER_ID, be32 sv)])) \<le> 301" using l by simp
  then obtain p3 where p3: "add_requests p2 = Some p3"
      "pkt_rep p3 (((?o @ [(DHCP_REQUESTED_IP, be32 rq)]) @ [(DHCP_SERVER_ID, be32 sv)]) @ [param_req])" "same_hdr p2 p3"
    using add_requests_hdr [OF p2(2)] by blast
  have "msg_hdr cfg x 0 p3 \<and> op p3 = BOOTREQUEST"
    using msg_hdr_same [OF p(3) same_hdr_trans [OF p1(3) same_hdr_trans [OF p2(3) p3(3)]]] p(4) by simp
  moreover have "send_selecting cfg inp x sv rq = Some (client_broadcast cfg inp p3)"
    unfolding send_selecting_def p(1) bind.bind_lunit Let_def p1(1) p2(1) p3(1) ..
  ultimately show ?thesis using p3(2) by auto
qed

lemma send_renew_ok:
  assumes "cfg_opts cfg os"
  shows "\<exists>p. send_renew cfg inp x sv ci = Some (if sv \<noteq> 0 then client_unicast inp p ci sv else client_broadcast cfg inp p)
    \<and> msg_hdr cfg x ci p \<and> op p = BOOTREQUEST \<and> pkt_rep p ((DHCP_MESSAGE_TYPE, [DHCPREQUEST]) # os @ [vendor_opt, param_req])"
proof -
  let ?o = "(DHCP_MESSAGE_TYPE, [DHCPREQUEST]) # os @ [vendor_opt]"
  obtain p where p: "client_init_packet cfg DHCPREQUEST = Some p" "pkt_rep (p\<lparr>xid := x, ciaddr := ci\<rparr>) ?o"
      "msg_hdr cfg x ci (p\<lparr>xid := x, ciaddr := ci\<rparr>)" "op p = BOOTREQUEST"
    using client_start_msg [OF assms, of DHCPREQUEST] by (auto simp: msg_types)
  have "length (enc ?o) \<le> 301" using enc_len_base [OF assms, of DHCPREQUEST] by simp
  then obtain p2 where p2: "add_requests (p\<lparr>xid := x, ciaddr := ci\<rparr>) = Some p2" "pkt_rep p2 (?o @ [param_req])"
      "same_hdr (p\<lparr>xid := x, ciaddr := ci\<rparr>) p2"
    using add_requests_hdr [OF p(2)] by blast
  have "msg_hdr cfg x ci p2 \<and> op p2 = BOOTREQUEST" using msg_hdr_same [OF p(3) p2(3)] p(4) by simp
  moreover have "send_renew cfg inp x sv ci = Some (if sv \<noteq> 0 then client_unicast inp p2 ci sv else client_broadcast cfg inp p2)"
    unfolding send_renew_def p(1) bind.bind_lunit Let_def p2(1) ..
  ultimately show ?thesis using p2(2) by auto
qed

lemma send_release_ok:
  assumes "cfg_opts cfg os"
  shows "\<exists>p. send_release cfg inp sv ci = Some (client_unicast inp p ci sv) \<and> msg_hdr cfg (ci_rand inp) ci p \<and> op p = BOOTREQUEST
    \<and> pkt_rep p ((DHCP_MESSAGE_TYPE, [DHCPRELEASE]) # os @ [vendor_opt, (DHCP_REQUESTED_IP, be32 ci), (DHCP_SERVER_ID, be32 sv)])"
proof -
  let ?o = "(DHCP_MESSAGE_TYPE, [DHCPRELEASE]) # os @ [vendor_opt]"
  let ?p = "\<lambda>p. p\<lparr>xid := ci_rand inp, ciaddr := ci\<rparr>"
  obtain p where p: "client_init_packet cfg DHCPRELEASE = Some p" "pkt_rep (?p p) ?o" "msg_hdr cfg (ci_rand inp) ci (?p p)"
      "op p = BOOTREQUEST"
    using client_start_msg [OF assms, of DHCPRELEASE] by (auto simp: msg_types)
  note l = enc_len_base [OF assms, of DHCPRELEASE]
  obtain p1 where p1: "pkt_add_simple (?p p) DHCP_REQUESTED_IP ci = Some p1"
      "pkt_rep p1 (?o @ [(DHCP_REQUESTED_IP, be32 ci)])" "same_hdr (?p p) p1"
    using pkt_simple_rep_fits [OF p(2), of DHCP_REQUESTED_IP ci] l by auto
  obtain p2 where p2: "pkt_add_simple p1 DHCP_SERVER_ID sv = Some p2"
      "pkt_rep p2 ((?o @ [(DHCP_REQUESTED_IP, be32 ci)]) @ [(DHCP_SERVER_ID, be32 sv)])" "same_hdr p1 p2"
    using pkt_simple_rep_fits [OF p1(2), of DHCP_SERVER_ID sv] l by auto
  have "msg_hdr cfg (ci_rand inp) ci p2 \<and> op p2 = BOOTREQUEST"
    using msg_hdr_same [OF p(3) same_hdr_trans [OF p1(3) p2(3)]] p(4) by simp
  moreover have "send_release cfg inp sv ci = Some (client_unicast inp p2 ci sv)"
    unfolding send_release_def p(1) bind.bind_lunit Let_def p1(1) p2(1) ..
  ultimately show ?thesis using p2(2) by auto
qed

lemma send_decline_ok:
  assumes "cfg_opts cfg os"
  shows "\<exists>p. send_decline cfg inp x = Some (client_broadcast cfg inp p) \<and> msg_hdr cfg x 0 p \<and> op p = 0
    \<and> pkt_rep p ((DHCP_MESSAGE_TYPE, [DHCPDECLINE]) # os @ [vendor_opt])"
  using client_start_msg [OF assms, of DHCPDECLINE] by (auto simp: send_decline_def)

section \<open>The invariant\<close>

definition cl_inv :: "(u8 \<times> u8 list) list \<Rightarrow> client \<Rightarrow> bool" where
  "cl_inv os s \<longleftrightarrow> cl_listen_mode s = (if cl_state s \<in> {BOUND, RELEASED} then LISTEN_NONE else LISTEN_RAW) \<and>
     cl_state s \<noteq> INIT_REBOOT \<and> length (cl_packet s) = 548 \<and> 0 \<le> cl_packet_num s \<and>
     cfg_opts (cl_cfg s) os \<and> cc_discover_retry (cl_cfg s) \<le> 32"

definition cl_inv_res :: "(u8 \<times> u8 list) list \<Rightarrow> cl_res option \<Rightarrow> bool" where
  "cl_inv_res os r \<longleftrightarrow> (\<exists>x. r = Some x \<and> (\<forall>out s. x = Going out s \<longrightarrow> cl_inv os s))"

lemma cl_inv_res_simps [simp]:
  "cl_inv_res os (Some (Going out s)) \<longleftrightarrow> cl_inv os s" "cl_inv_res os (Some (Exit n out))" "\<not> cl_inv_res os None"
  by (simp_all add: cl_inv_res_def)

lemma cfg_opts_background [simp]: "cfg_opts (cfg\<lparr>cc_foreground := b\<rparr>) os = cfg_opts cfg os"
  by (simp add: cfg_opts_def)

lemmas cl_defs = cl_inv_def change_mode_def background_def

lemma retry_timeout_Some: "0 \<le> n \<Longrightarrow> n < 32 \<Longrightarrow> \<exists>t. retry_timeout cfg n now = Some t \<and> unat (t - now) \<le> 64"
  by (auto simp: retry_timeout_def Let_def word_le_nat_alt not_less)

lemma get_raw_packet_length: "get_raw_packet rcv b = Some (n, b') \<Longrightarrow> length b' = length b"
  unfolding get_raw_packet_def Let_def
  by (auto split: option.splits if_splits bind_splits simp: bind_eq_Some_conv dest: wrn_length)

lemma timeout_selecting_inv:
  assumes "cl_inv os s" and "cl_state s = INIT_SELECTING"
  shows "cl_inv_res os (timeout_selecting inp s)"
proof -
  have c: "cfg_opts (cl_cfg s) os" "0 \<le> cl_packet_num s" "cc_discover_retry (cl_cfg s) \<le> 32" using assms(1) by (simp_all add: cl_inv_def)
  define x where "x = (if cl_packet_num s = 0 then ci_rand inp else cl_xid s)"
  obtain m where m: "send_discover (cl_cfg s) inp x (cl_requested_ip s) = Some m"
    using send_discover_ok [OF c(1), of inp x "cl_requested_ip s"] by blast
  show ?thesis
  proof (cases "cl_packet_num s < cc_discover_retry (cl_cfg s)")
    case True
    obtain t where "retry_timeout (cl_cfg s) (cl_packet_num s) (ci_now2 inp) = Some t"
      using retry_timeout_Some c(2,3) True by force
    then show ?thesis using True assms m unfolding x_def
      by (cases "cl_packet_num s = 0") (simp_all add: timeout_selecting_def Let_def cl_inv_def)
  next
    case False
    then show ?thesis using assms by (auto simp: timeout_selecting_def Let_def cl_defs)
  qed
qed

lemma timeout_requesting_inv:
  assumes "cl_inv os s" and "cl_state s = REQUESTING \<or> cl_state s = RENEW_REQUESTED"
  shows "cl_inv_res os (timeout_requesting inp s)"
proof -
  have c: "cfg_opts (cl_cfg s) os" "0 \<le> cl_packet_num s" "cc_discover_retry (cl_cfg s) \<le> 32" using assms(1) by (simp_all add: cl_inv_def)
  obtain m where m: "(if cl_state s = RENEW_REQUESTED then send_renew (cl_cfg s) inp (cl_xid s) (cl_server_addr s) (cl_requested_ip s)
      else send_selecting (cl_cfg s) inp (cl_xid s) (cl_server_addr s) (cl_requested_ip s)) = Some m"
    using send_renew_ok [OF c(1), of inp "cl_xid s" "cl_server_addr s" "cl_requested_ip s"]
      send_selecting_ok [OF c(1), of inp "cl_xid s" "cl_server_addr s" "cl_requested_ip s"]
    by (cases "cl_state s = RENEW_REQUESTED") auto
  show ?thesis
  proof (cases "cl_packet_num s < cc_discover_retry (cl_cfg s)")
    case True
    obtain t where "retry_timeout (cl_cfg s) (cl_packet_num s) (ci_now2 inp) = Some t"
      using retry_timeout_Some c(2,3) True by force
    then show ?thesis using True assms m by (auto simp: timeout_requesting_def Let_def cl_inv_def)
  next
    case False
    then show ?thesis using assms by (auto simp: timeout_requesting_def Let_def cl_defs)
  qed
qed

lemma timeout_renewing_inv:
  assumes "cl_inv os s" and "cl_state s = RENEWING"
  shows "cl_inv_res os (timeout_renewing inp s)"
  using assms send_renew_ok [of "cl_cfg s" os inp "cl_xid s" "cl_server_addr s" "cl_requested_ip s"]
  by (auto simp: timeout_renewing_def Let_def cl_inv_def)

lemma timeout_rebinding_inv:
  assumes "cl_inv os s" and "cl_state s = REBINDING"
  shows "cl_inv_res os (timeout_rebinding inp s)"
  using assms send_renew_ok [of "cl_cfg s" os inp "cl_xid s" 0 "cl_requested_ip s"]
  by (auto simp: timeout_rebinding_def Let_def cl_defs)

lemma on_timeout_inv:
  assumes "cl_inv os s" shows "cl_inv_res os (on_timeout inp s)"
proof (cases "cl_state s")
  case BOUND
  then have "cl_inv os (change_mode LISTEN_RAW (s\<lparr>cl_state := RENEWING\<rparr>))" using assms by (simp add: cl_defs)
  then show ?thesis using timeout_renewing_inv BOUND by (simp add: on_timeout_def change_mode_def)
qed (use assms timeout_selecting_inv timeout_requesting_inv timeout_renewing_inv timeout_rebinding_inv
    in \<open>simp_all add: on_timeout_def cl_inv_def\<close>)

text \<open>What a pass relies on: the frame is not one of those that \<^verbatim>\<open>get_raw_packet\<close> copies with a negative size,
  and the ARP probe returns.\<close>

definition cl_in_ok :: "client_config \<Rightarrow> cl_in \<Rightarrow> bool" where
  "cl_in_ok cfg inp \<longleftrightarrow> (\<forall>b. length b = 548 \<longrightarrow> get_raw_packet (ci_rcv inp) b \<noteq> None) \<and>
     (\<forall>a. \<exists>r. arpping (ci_arp inp) a 0 (cc_arp cfg) (cc_interface cfg) = ArpDone r)"

lemma enter_bound_inv: "cl_inv os s \<Longrightarrow> cl_inv_res os (Some (enter_bound inp pkt s))"
  by (auto simp: enter_bound_def Let_def cl_defs)

lemma on_ack_inv:
  assumes "cl_inv os s" and "cl_in_ok (cl_cfg s) inp"
  shows "cl_inv_res os (on_ack inp pkt s)"
proof (cases "cl_state s = REQUESTING")
  case True
  have c: "cfg_opts (cl_cfg s) os" using assms(1) by (simp add: cl_inv_def)
  obtain r where r: "arpping (ci_arp inp) (yiaddr pkt) 0 (cc_arp (cl_cfg s)) (cc_interface (cl_cfg s)) = ArpDone r"
    using assms(2) unfolding cl_in_ok_def by blast
  obtain m where "send_decline (cl_cfg s) inp (cl_xid s) = Some m" using send_decline_ok [OF c, of inp "cl_xid s"] by blast
  then show ?thesis using True assms(1) r enter_bound_inv [OF assms(1)] by (simp add: on_ack_def Let_def cl_inv_def)
next
  case False
  then show ?thesis using enter_bound_inv [OF assms(1)] by (simp add: on_ack_def Let_def)
qed

lemma on_message_inv:
  assumes "cl_inv os s" and "cl_in_ok (cl_cfg s) inp"
  shows "cl_inv_res os (on_message inp pkt s)"
proof -
  have o: "cl_inv_res os (Some (on_offer inp pkt s))" if "cl_state s = INIT_SELECTING"
    using assms(1) that by (simp add: on_offer_def Let_def cl_defs split: option.split)
  have n: "cl_inv_res os (Some (on_nak inp pkt s))" using assms(1) by (simp add: on_nak_def cl_defs)
  show ?thesis using assms(1) o n on_ack_inv [OF assms] by (simp add: on_message_def Let_def split: option.split)
qed

lemma on_packet_inv:
  assumes "cl_inv os s" and "cl_in_ok (cl_cfg s) inp" and "cl_listen_mode s = LISTEN_RAW"
  shows "cl_inv_res os (on_packet inp s)"
proof -
  obtain n b where g: "get_raw_packet (ci_rcv inp) (cl_packet s) = Some (n, b)"
    using assms(1,2) unfolding cl_in_ok_def cl_inv_def by fastforce
  have b: "length b = 548" using get_raw_packet_length [OF g] assms(1) by (simp add: cl_inv_def)
  define s' where "s' = (if n = -1 \<and> \<not> ci_eintr inp then change_mode (cl_listen_mode s) (s\<lparr>cl_packet := b\<rparr>) else s\<lparr>cl_packet := b\<rparr>)"
  have s': "cl_inv os s'" "cl_cfg s' = cl_cfg s" using assms(1) b by (auto simp: s'_def cl_defs)
  have "on_packet inp s = (if n < 0 then Some (Going [] s') else on_message inp (pkt_of_bytes b) s')"
    using assms(3) g by (simp add: on_packet_def s'_def Let_def)
  then show ?thesis using on_message_inv [OF s'(1)] s' assms(2) by simp
qed

lemma on_signal_inv:
  assumes "cl_inv os s" shows "cl_inv_res os (on_signal inp s)"
proof -
  have c: "cfg_opts (cl_cfg s) os" using assms(1) by (simp add: cl_inv_def)
  obtain m where m: "send_release (cl_cfg s) inp (cl_server_addr s) (cl_requested_ip s) = Some m"
    using send_release_ok [OF c, of inp "cl_server_addr s" "cl_requested_ip s"] by blast
  have r: "cl_inv os (snd (perform_renew s))"
    using assms by (cases "cl_state s") (simp_all add: perform_renew_def Let_def cl_defs)
  have l: "cl_inv_res os (map_option (\<lambda>(out, s). Going out s) (perform_release inp s))"
    using assms m by (simp add: perform_release_def cl_defs)
  show ?thesis using assms r l by (simp add: on_signal_def case_prod_beta split: option.split)
qed

lemma client_pass_inv:
  assumes "cl_inv os s" and "cl_in_ok (cl_cfg s) inp"
  shows "cl_inv_res os (client_pass inp s)"
proof -
  define s' where "s' = (if cl_listen_mode s \<noteq> LISTEN_NONE \<and> cl_fd s < 0 then s\<lparr>cl_fd := ci_sock inp\<rparr> else s)"
  have s': "cl_inv os s'" "cl_cfg s' = cl_cfg s" using assms(1) by (simp_all add: s'_def cl_inv_def)
  have m: "cl_listen_mode s' \<noteq> LISTEN_NONE \<Longrightarrow> cl_listen_mode s' = LISTEN_RAW" using s'(1) by (auto simp: cl_inv_def split: if_splits)
  show ?thesis unfolding client_pass_def Let_def s'_def [symmetric]
    using on_timeout_inv [OF s'(1)] on_packet_inv [OF s'(1)] on_signal_inv [OF s'(1)] s' assms(2) m by simp
qed

section \<open>The protocol machine\<close>

text \<open>The abstract machine: the state and whether the interface has an address, which the scripts set
  (\<^verbatim>\<open>bound\<close>, \<^verbatim>\<open>renew\<close>) and clear (\<^verbatim>\<open>deconfig\<close>).\<close>

definition requesting_states :: "cstate set" where
  "requesting_states = {REQUESTING, RENEWING, REBINDING, RENEW_REQUESTED}"

inductive rfc_step :: "cstate \<times> bool \<Rightarrow> cstate \<times> bool \<Rightarrow> bool" where
  stay: "rfc_step (st, c) (st, c)"
| offer: "rfc_step (INIT_SELECTING, c) (REQUESTING, c)"
| ack: "st \<in> requesting_states \<Longrightarrow> rfc_step (st, c) (BOUND, True)"
| lost: "st \<in> requesting_states \<Longrightarrow> rfc_step (st, c) (INIT_SELECTING, False)"
| t1: "rfc_step (BOUND, c) (RENEWING, c)"
| t2: "st \<in> {BOUND, RENEWING} \<Longrightarrow> rfc_step (st, c) (REBINDING, c)"
| renew: "st \<in> {BOUND, RENEWING, REBINDING} \<Longrightarrow> rfc_step (st, c) (RENEW_REQUESTED, c)"
| restart: "rfc_step (RELEASED, c) (INIT_SELECTING, c)"
| release: "rfc_step (st, c) (RELEASED, False)"

inductive_cases rfc_stepE: "rfc_step x y"

fun in_use :: "cstate \<Rightarrow> bool" where
  "in_use BOUND = True" | "in_use RENEWING = True" | "in_use REBINDING = True" | "in_use RENEW_REQUESTED = True"
| "in_use _ = False"

lemma rfc_step_in_use: "rfc_step (st, c) (st', c') \<Longrightarrow> c = in_use st \<Longrightarrow> c' = in_use st'"
  by (auto simp: requesting_states_def elim: rfc_stepE)

fun script_effect :: "bool \<Rightarrow> cl_out \<Rightarrow> bool" where
  "script_effect c (RunScript p n) = (if n = ''deconfig'' then False else if n = ''bound'' \<or> n = ''renew'' then True else c)"
| "script_effect c _ = c"

definition configured :: "bool \<Rightarrow> cl_out list \<Rightarrow> bool" where
  "configured c out = foldl script_effect c out"

lemma configured_simps [simp]:
  "configured c [] = c" "configured c (x # out) = configured (script_effect c x) out"
  "configured c (out @ out') = configured (configured c out) out'"
  by (simp_all add: configured_def)

lemma sent_effect [simp]: "script_effect c (client_broadcast cfg inp p) = c" "script_effect c (client_unicast inp p ci sv) = c"
  by (simp_all add: client_broadcast_def client_unicast_def)

lemma send_effect [simp]:
  "send_discover cfg inp x rq = Some m \<Longrightarrow> script_effect c m = c"
  "send_selecting cfg inp x sv rq = Some m \<Longrightarrow> script_effect c m = c"
  "send_renew cfg inp x sv rq = Some m \<Longrightarrow> script_effect c m = c"
  "send_release cfg inp sv rq = Some m \<Longrightarrow> script_effect c m = c"
  "send_decline cfg inp x = Some m \<Longrightarrow> script_effect c m = c"
  by (auto simp: send_discover_def send_selecting_def send_renew_def send_release_def send_decline_def
    Let_def bind_eq_Some_conv split: if_splits)

definition simulates :: "client \<Rightarrow> cl_res option \<Rightarrow> bool" where
  "simulates s r \<longleftrightarrow> (\<forall>out s'. r = Some (Going out s') \<longrightarrow>
     rfc_step (cl_state s, in_use (cl_state s)) (cl_state s', configured (in_use (cl_state s)) out))"

lemma sim_timeout: "simulates s (on_timeout inp s)"
proof (cases "cl_state s")
  case INIT_SELECTING
  then show ?thesis
    by (auto simp: simulates_def on_timeout_def timeout_selecting_def Let_def bind_eq_Some_conv background_def
      split: if_splits intro: rfc_step.stay)
next
  case REQUESTING
  then show ?thesis
    by (auto simp: simulates_def on_timeout_def timeout_requesting_def Let_def bind_eq_Some_conv change_mode_def requesting_states_def
      split: if_splits intro: rfc_step.stay rfc_step.lost)
next
  case RENEW_REQUESTED
  then show ?thesis
    by (auto simp: simulates_def on_timeout_def timeout_requesting_def Let_def bind_eq_Some_conv change_mode_def requesting_states_def
      split: if_splits intro: rfc_step.stay rfc_step.lost)
next
  case BOUND
  then show ?thesis
    by (auto simp: simulates_def on_timeout_def timeout_renewing_def Let_def bind_eq_Some_conv change_mode_def
      split: if_splits intro: rfc_step.t1 rfc_step.t2)
next
  case RENEWING
  then show ?thesis
    by (auto simp: simulates_def on_timeout_def timeout_renewing_def Let_def bind_eq_Some_conv
      split: if_splits intro: rfc_step.stay rfc_step.t2)
next
  case REBINDING
  then show ?thesis
    by (auto simp: simulates_def on_timeout_def timeout_rebinding_def Let_def bind_eq_Some_conv change_mode_def requesting_states_def
      split: if_splits intro: rfc_step.stay rfc_step.lost)
qed (auto simp: simulates_def on_timeout_def intro: rfc_step.stay)

lemma enter_bound_state:
  "enter_bound inp pkt s = Going out s' \<Longrightarrow> cl_state s' = BOUND \<and> configured c out"
  by (auto simp: enter_bound_def Let_def change_mode_def background_def split: if_splits)

lemma sim_ack:
  assumes "cl_state s \<in> requesting_states" shows "simulates s (on_ack inp pkt s)"
proof -
  have b: "simulates s (Some (enter_bound inp pkt s))"
    unfolding simulates_def using enter_bound_state rfc_step.ack [OF assms] by (metis option.inject)
  have d: "simulates s (do { m \<leftarrow> send_decline cfg inp x;
      Some (Going [m, Slept 3] (s\<lparr>cl_state := INIT_SELECTING, cl_timeout := t, cl_requested_ip := 0, cl_packet_num := 0\<rparr>)) })"
    if "cl_state s = REQUESTING" for cfg x t
    using rfc_step.lost [OF assms] that by (auto simp: simulates_def bind_eq_Some_conv)
  show ?thesis using b d by (auto simp: on_ack_def Let_def simulates_def split: arp_res.split)
qed

lemma sim_message: "simulates s (on_message inp pkt s)"
proof -
  have q: "simulates s (Some (Going [] s))" by (simp add: simulates_def rfc_step.stay)
  have o: "simulates s (Some (on_offer inp pkt s))" if "cl_state s = INIT_SELECTING"
    using that by (auto simp: simulates_def on_offer_def Let_def split: option.splits if_splits intro: rfc_step.offer rfc_step.stay)
  have n: "simulates s (Some (on_nak inp pkt s))" if "cl_state s \<in> requesting_states"
    using rfc_step.lost [OF that] by (auto simp: simulates_def on_nak_def change_mode_def split: if_splits)
  have r: "cl_state s \<in> {RENEW_REQUESTED, REQUESTING, RENEWING, REBINDING} \<longleftrightarrow> cl_state s \<in> requesting_states"
    by (auto simp: requesting_states_def)
  show ?thesis unfolding on_message_def Let_def r
    using q o n sim_ack [of s inp pkt] by (simp split: option.split)
qed

lemma sim_quiet: "simulates s (Some (Going [] s'))" if "cl_state s' = cl_state s"
  using that by (simp add: simulates_def rfc_step.stay)

lemma simulates_cong: "cl_state s' = cl_state s \<Longrightarrow> simulates s' r = simulates s r"
  by (simp add: simulates_def)

lemma sim_packet: "simulates s (on_packet inp s)"
proof -
  have m: "simulates s (on_message inp pkt s')" if "cl_state s' = cl_state s" for pkt s'
    using sim_message simulates_cong [OF that] by blast
  have q: "simulates s (Some (Going [] s'))" if "cl_state s' = cl_state s" for s' using sim_quiet [OF that] .
  show ?thesis
  proof (cases "(if cl_listen_mode s = LISTEN_KERNEL then Some (map_prod id pkt_bytes (get_packet (ci_junk inp) (ci_rcv inp)))
      else get_raw_packet (ci_rcv inp) (cl_packet s))")
    case None
    then show ?thesis by (simp add: on_packet_def simulates_def)
  next
    case (Some lb)
    then show ?thesis using m q by (simp add: on_packet_def Let_def case_prod_beta change_mode_def)
  qed
qed

text \<open>The one departure: a release asked for while a renewal the user asked for is under way.\<close>

definition lost_release :: "cl_in \<Rightarrow> client \<Rightarrow> bool" where
  "lost_release inp s \<longleftrightarrow> cl_state s = RENEW_REQUESTED \<and> ci_sig inp = Some SIGUSR2"

lemma sim_signal:
  assumes "\<not> lost_release inp s" shows "simulates s (on_signal inp s)"
proof -
  have r: "simulates s (Some (case perform_renew s of (out, s) \<Rightarrow> Going out s))"
    by (cases "cl_state s")
      (auto simp: simulates_def perform_renew_def Let_def change_mode_def requesting_states_def
        intro: rfc_step.stay rfc_step.renew rfc_step.lost rfc_step.restart)
  have l: "simulates s (map_option (\<lambda>(out, s). Going out s) (perform_release inp s))" if "cl_state s \<noteq> RENEW_REQUESTED"
    using that by (cases "cl_state s")
      (auto simp: simulates_def perform_release_def bind_eq_Some_conv change_mode_def intro: rfc_step.release)
  have e: "simulates s (Some (Exit n out))" for n out by (simp add: simulates_def)
  show ?thesis
  proof (cases "ci_sig inp")
    case None
    then show ?thesis by (simp add: on_signal_def sim_quiet)
  next
    case (Some g)
    have l': "g = SIGUSR2 \<Longrightarrow> simulates s (map_option (\<lambda>(out, s). Going out s) (perform_release inp s))"
      using l assms Some by (simp add: lost_release_def)
    show ?thesis unfolding on_signal_def Some option.case using r e l' sim_quiet [of s s] by simp
  qed
qed

lemma sim_pass:
  assumes "\<not> lost_release inp s" shows "simulates s (client_pass inp s)"
proof -
  define s' where "s' = (if cl_listen_mode s \<noteq> LISTEN_NONE \<and> cl_fd s < 0 then s\<lparr>cl_fd := ci_sock inp\<rparr> else s)"
  have c: "simulates s' r = simulates s r" for r by (rule simulates_cong) (simp add: s'_def)
  have "\<not> lost_release inp s'" using assms by (simp add: lost_release_def s'_def)
  then show ?thesis unfolding client_pass_def Let_def s'_def [symmetric]
    using sim_timeout [of s' inp] sim_packet [of s' inp] sim_signal [of inp s'] sim_quiet [of s' s'] c
    by (simp add: if_bool_eq_conj) (simp add: simulates_def)
qed

fun clean_run :: "cl_in list \<Rightarrow> client \<Rightarrow> bool" where
  "clean_run [] s = True"
| "clean_run (inp # inps) s = (\<not> lost_release inp s \<and> cl_in_ok (cl_cfg s) inp \<and>
     (case client_pass inp s of Some (Going out s') \<Rightarrow> clean_run inps s' | _ \<Rightarrow> True))"

lemma client_run_sim:
  assumes "cl_inv os s" and "clean_run inps s"
  shows "\<exists>out b s'. client_run inps s = Some (out, b, s') \<and> cl_inv os s' \<and>
    (b \<longrightarrow> rfc_step\<^sup>*\<^sup>* (cl_state s, in_use (cl_state s)) (cl_state s', configured (in_use (cl_state s)) out))"
  using assms
proof (induction inps arbitrary: s)
  case (Cons inp inps)
  obtain r where r: "client_pass inp s = Some r" "\<And>out s'. r = Going out s' \<Longrightarrow> cl_inv os s'"
    using client_pass_inv [of os s inp] Cons.prems by (auto simp: cl_inv_res_def)
  show ?case
  proof (cases r)
    case (Exit n out)
    then show ?thesis using r(1) Cons.prems(1) by auto
  next
    case (Going out s1)
    then have s1: "cl_inv os s1" "clean_run inps s1" using r Cons.prems by simp_all
    have st: "rfc_step (cl_state s, in_use (cl_state s)) (cl_state s1, configured (in_use (cl_state s)) out)"
      using sim_pass [of inp s] Cons.prems(2) r(1) Going by (simp add: simulates_def)
    have u: "configured (in_use (cl_state s)) out = in_use (cl_state s1)" using rfc_step_in_use [OF st] by simp
    obtain out' b s' where "client_run inps s1 = Some (out', b, s')" "cl_inv os s'"
        "b \<longrightarrow> rfc_step\<^sup>*\<^sup>* (cl_state s1, in_use (cl_state s1)) (cl_state s', configured (in_use (cl_state s1)) out')"
      using Cons.IH [OF s1] by blast
    then show ?thesis using r(1) Going st u by (auto intro: converse_rtranclp_into_rtranclp)
  qed
qed auto

lemma rfc_steps_in_use: "rfc_step\<^sup>*\<^sup>* x y \<Longrightarrow> snd x = in_use (fst x) \<Longrightarrow> snd y = in_use (fst y)"
proof (induction rule: rtranclp_induct)
  case (step y z)
  then show ?case using rfc_step_in_use [of "fst y" "snd y" "fst z" "snd z"] by (metis prod.collapse)
qed

section \<open>The timers of a lease\<close>

lemma halfway:
  fixes a b :: u32
  assumes "a \<le> b"
  defines "m \<equiv> (b - a) div 2 + a"
  shows "a \<le> m \<and> m \<le> b \<and> (2 \<le> unat (b - a) \<longrightarrow> unat (b - m) < unat (b - a))"
proof -
  have d: "unat (b - a) = unat b - unat a" and ab: "unat a \<le> unat b"
    using assms(1) by (simp_all add: unat_sub word_le_nat_alt)
  have b: "unat b < 2 ^ 32" using unsigned_less [of b] by simp
  have "unat ((b - a) div 2) = (unat b - unat a) div 2" using d by (simp add: unat_div)
  then have m: "unat m = (unat b - unat a) div 2 + unat a"
    unfolding m_def using ab b by (subst unat_add_lem [THEN iffD1]) simp_all
  then have le: "a \<le> m" "m \<le> b" using ab by (simp_all add: word_le_nat_alt)
  have "unat (b - m) = unat b - unat m" using le(2) by (simp add: unat_sub word_le_nat_alt)
  then show ?thesis using le d m ab by linarith
qed

lemma margin: "\<not> d \<le> lease div 14400 + 1 \<Longrightarrow> 2 \<le> unat d" for d lease :: u32
proof -
  have "unat (lease div 14400) = unat lease div 14400" by (simp add: unat_div)
  moreover have "unat lease < 2 ^ 32" using unsigned_less [of lease] by simp
  ultimately have "unat (lease div 14400 + 1) = unat lease div 14400 + 1" by (subst unat_add_lem [THEN iffD1]) simp_all
  moreover assume "\<not> d \<le> lease div 14400 + 1"
  ultimately show ?thesis by (simp add: word_le_nat_alt not_le)
qed

definition lease_ok :: "client \<Rightarrow> bool" where
  "lease_ok s \<longleftrightarrow> cl_t1 s \<le> cl_t2 s \<and> cl_t2 s \<le> cl_lease s \<and> unat (cl_start s) + unat (cl_lease s) < 2 ^ 32 \<and>
     (cl_state s \<in> {BOUND, RENEWING} \<longrightarrow> cl_timeout s = cl_t1 s + cl_start s) \<and>
     (cl_state s = REBINDING \<longrightarrow> cl_timeout s = cl_t2 s + cl_start s)"

lemma lease_timers:
  fixes lease :: u32
  assumes "lease \<le> 0x24924924"
  shows "lease div 2 \<le> drop_bit 3 (lease * 0x7)" "drop_bit 3 (lease * 0x7) \<le> lease"
proof -
  have l: "unat lease \<le> 0x24924924" using assms by (simp add: word_le_nat_alt)
  then have "unat (lease * 7) = unat lease * 7" by (subst unat_mult_lem [THEN iffD1]) simp_all
  then have "unat (drop_bit 3 (lease * 7)) = unat lease * 7 div 8" by (simp add: drop_bit_eq_div unat_div)
  moreover have "unat (lease div 2) = unat lease div 2" by (simp add: unat_div)
  ultimately show "lease div 2 \<le> drop_bit 3 (lease * 0x7)" "drop_bit 3 (lease * 0x7) \<le> lease"
    by (simp_all add: word_le_nat_alt)
qed

text \<open>The passes in which nothing but the timer happens, each exactly when it is due.\<close>

definition fire :: "cl_in \<Rightarrow> client \<Rightarrow> cl_res option" where
  "fire inp s = client_pass (inp\<lparr>ci_now := cl_timeout s, ci_now2 := cl_timeout s\<rparr>) s"

fun fire_n :: "nat \<Rightarrow> cl_in \<Rightarrow> client \<Rightarrow> (cl_out list \<times> client) option" where
  "fire_n 0 inp s = Some ([], s)"
| "fire_n (Suc n) inp s = (case fire inp s of
     Some (Going out s) \<Rightarrow> map_option (\<lambda>(out', s). (out @ out', s)) (fire_n n inp s) | _ \<Rightarrow> None)"

definition expires :: "cl_in \<Rightarrow> client \<Rightarrow> bool" where
  "expires inp s \<longleftrightarrow> (\<exists>n out s'. fire_n n inp s = Some (out, s') \<and> cl_state s' = INIT_SELECTING \<and> (\<forall>c. \<not> configured c out) \<and>
     unat (cl_timeout s') \<le> unat (cl_start s) + unat (cl_lease s))"

lemma expires_step:
  assumes "fire inp s = Some (Going out s1)" and "expires inp s1" and "cl_start s1 = cl_start s" and "cl_lease s1 = cl_lease s"
  shows "expires inp s"
proof -
  obtain n out' s' where "fire_n n inp s1 = Some (out', s')" "cl_state s' = INIT_SELECTING" "\<forall>c. \<not> configured c out'"
      "unat (cl_timeout s') \<le> unat (cl_start s1) + unat (cl_lease s1)"
    using assms(2) by (auto simp: expires_def)
  then have "fire_n (Suc n) inp s = Some (out @ out', s')" "cl_state s' = INIT_SELECTING" "\<forall>c. \<not> configured c (out @ out')"
      "unat (cl_timeout s') \<le> unat (cl_start s) + unat (cl_lease s)"
    using assms by simp_all
  then show ?thesis unfolding expires_def by blast
qed

lemma fire_eq:
  assumes "cl_inv os s" and "0 \<le> ci_sock inp"
  shows "fire inp s = on_timeout (inp\<lparr>ci_now := cl_timeout s, ci_now2 := cl_timeout s\<rparr>)
    (if cl_listen_mode s \<noteq> LISTEN_NONE \<and> cl_fd s < 0 then s\<lparr>cl_fd := ci_sock inp\<rparr> else s)"
  using assms(2) by (simp add: fire_def client_pass_def Let_def)

lemma sum_le: "a \<le> l \<Longrightarrow> unat b + unat l < 2 ^ 32 \<Longrightarrow> unat (a + b) \<le> unat b + unat l" for a b l :: u32
  by (subst unat_add_lem [THEN iffD1]) (simp_all add: word_le_nat_alt)

lemma rebinding_expires:
  assumes "cl_inv os s" and "lease_ok s" and "cl_state s = REBINDING" and "0 \<le> ci_sock inp"
  shows "expires inp s"
  using assms(1-3)
proof (induction "unat (cl_lease s - cl_t2 s)" arbitrary: s rule: less_induct)
  case less
  define s0 where "s0 = (if cl_listen_mode s \<noteq> LISTEN_NONE \<and> cl_fd s < 0 then s\<lparr>cl_fd := ci_sock inp\<rparr> else s)"
  define i where "i = inp\<lparr>ci_now := cl_timeout s, ci_now2 := cl_timeout s\<rparr>"
  have f: "fire inp s = timeout_rebinding i s0"
    unfolding fire_eq [OF less.prems(1) assms(4)] s0_def [symmetric] i_def [symmetric]
    using less.prems(3) by (simp add: on_timeout_def s0_def)
  have s0: "cl_lease s0 = cl_lease s" "cl_t2 s0 = cl_t2 s" "cl_start s0 = cl_start s" "cl_cfg s0 = cl_cfg s" "cl_t1 s0 = cl_t1 s"
      "cl_state s0 = REBINDING" "cl_inv os s0"
    using less.prems(1,3) by (simp_all add: s0_def cl_inv_def)
  have t: "cl_timeout s = cl_t2 s + cl_start s" "cl_t2 s \<le> cl_lease s" "cl_t1 s \<le> cl_t2 s" "unat (cl_start s) + unat (cl_lease s) < 2 ^ 32"
    using less.prems(2,3) by (simp_all add: lease_ok_def)
  show ?case
  proof (cases "cl_lease s - cl_t2 s \<le> cl_lease s div 14400 + 1")
    case True
    then have n: "fire_n 1 inp s = Some ([RunScript None ''deconfig''], change_mode LISTEN_RAW
        (s0\<lparr>cl_state := INIT_SELECTING, cl_timeout := cl_timeout s, cl_packet_num := 0\<rparr>))"
      using f s0 by (simp add: timeout_rebinding_def i_def)
    show ?thesis unfolding expires_def
      by (intro exI conjI, rule n) (use sum_le [OF t(2,4)] t(1) in \<open>simp_all add: change_mode_def\<close>)
  next
    case False
    define t2 where "t2 = (cl_lease s - cl_t2 s) div 2 + cl_t2 s"
    obtain m where m: "send_renew (cl_cfg s) i (cl_xid s0) 0 (cl_requested_ip s0) = Some m"
      using send_renew_ok [of "cl_cfg s" os i "cl_xid s0" 0 "cl_requested_ip s0"] less.prems(1) by (auto simp: cl_inv_def)
    define s1 where "s1 = s0\<lparr>cl_t2 := t2, cl_timeout := t2 + cl_start s\<rparr>"
    have g: "fire inp s = Some (Going [m] s1)"
      using f False m s0 by (simp add: timeout_rebinding_def Let_def s1_def t2_def)
    have h: "cl_t2 s \<le> t2" "t2 \<le> cl_lease s" "unat (cl_lease s - t2) < unat (cl_lease s - cl_t2 s)"
      using halfway [OF t(2)] margin [OF False] unfolding t2_def by simp_all
    have s1: "cl_inv os s1" "lease_ok s1" "cl_state s1 = REBINDING" "cl_lease s1 = cl_lease s" "cl_t2 s1 = t2" "cl_start s1 = cl_start s"
      using s0 h t less.prems by (auto simp: s1_def cl_inv_def lease_ok_def)
    show ?thesis
      by (rule expires_step [OF g less.hyps]) (use s1 h in simp_all)
  qed
qed

lemma renewing_expires:
  assumes "cl_inv os s" and "lease_ok s" and "cl_state s = RENEWING \<or> cl_state s = BOUND" and "0 \<le> ci_sock inp"
  shows "expires inp s"
  using assms(1-3)
proof (induction "unat (cl_t2 s - cl_t1 s)" arbitrary: s rule: less_induct)
  case less
  define s0 where "s0 = (if cl_listen_mode s \<noteq> LISTEN_NONE \<and> cl_fd s < 0 then s\<lparr>cl_fd := ci_sock inp\<rparr> else s)"
  define sr where "sr = (if cl_state s = BOUND then change_mode LISTEN_RAW (s0\<lparr>cl_state := RENEWING\<rparr>) else s0)"
  define i where "i = inp\<lparr>ci_now := cl_timeout s, ci_now2 := cl_timeout s\<rparr>"
  have f: "fire inp s = timeout_renewing i sr"
    unfolding fire_eq [OF less.prems(1) assms(4)] s0_def [symmetric] i_def [symmetric]
    using less.prems(3) by (auto simp: on_timeout_def s0_def sr_def)
  have sr: "cl_lease sr = cl_lease s" "cl_t2 sr = cl_t2 s" "cl_start sr = cl_start s" "cl_cfg sr = cl_cfg s" "cl_t1 sr = cl_t1 s"
      "cl_state sr = RENEWING" "cl_inv os sr"
    using less.prems(1,3) by (auto simp: s0_def sr_def cl_inv_def change_mode_def)
  have t: "cl_timeout s = cl_t1 s + cl_start s" "cl_t2 s \<le> cl_lease s" "cl_t1 s \<le> cl_t2 s" "unat (cl_start s) + unat (cl_lease s) < 2 ^ 32"
    using less.prems(2,3) by (auto simp: lease_ok_def)
  show ?case
  proof (cases "cl_t2 s - cl_t1 s \<le> cl_lease s div 14400 + 1")
    case True
    define s1 where "s1 = sr\<lparr>cl_state := REBINDING, cl_timeout := cl_timeout s + (cl_t2 s - cl_t1 s)\<rparr>"
    have g: "fire inp s = Some (Going [] s1)" using f True sr by (simp add: timeout_renewing_def s1_def i_def)
    have s1: "cl_inv os s1" "lease_ok s1" "cl_state s1 = REBINDING" "cl_lease s1 = cl_lease s" "cl_start s1 = cl_start s"
      using sr t by (auto simp: s1_def cl_inv_def lease_ok_def)
    show ?thesis by (rule expires_step [OF g rebinding_expires [OF s1(1-3) assms(4)] s1(5,4)])
  next
    case False
    define t1 where "t1 = (cl_t2 s - cl_t1 s) div 2 + cl_t1 s"
    obtain m where m: "send_renew (cl_cfg s) i (cl_xid sr) (cl_server_addr sr) (cl_requested_ip sr) = Some m"
      using send_renew_ok [of "cl_cfg s" os i "cl_xid sr" "cl_server_addr sr" "cl_requested_ip sr"] less.prems(1)
      by (auto simp: cl_inv_def)
    define s1 where "s1 = sr\<lparr>cl_t1 := t1, cl_timeout := t1 + cl_start s\<rparr>"
    have g: "fire inp s = Some (Going [m] s1)"
      using f False m sr by (simp add: timeout_renewing_def Let_def s1_def t1_def)
    have h: "cl_t1 s \<le> t1" "t1 \<le> cl_t2 s" "unat (cl_t2 s - t1) < unat (cl_t2 s - cl_t1 s)"
      using halfway [OF t(3)] margin [OF False] unfolding t1_def by simp_all
    have s1: "cl_inv os s1" "lease_ok s1" "cl_state s1 = RENEWING" "cl_lease s1 = cl_lease s" "cl_t2 s1 = cl_t2 s" "cl_t1 s1 = t1"
        "cl_start s1 = cl_start s"
      using sr h t by (auto simp: s1_def cl_inv_def lease_ok_def)
    show ?thesis
      by (rule expires_step [OF g less.hyps]) (use s1 h in simp_all)
  qed
qed

lemma enter_bound_lease:
  assumes "enter_bound inp pkt s = Going out s'" and "cl_inv os s"
    and l: "lease = (case get_option (pkt_mem (ci_junk inp) pkt) DHCP_LEASE_TIME of None \<Rightarrow> 3600
      | Some k \<Rightarrow> get_u32 (pkt_mem (ci_junk inp) pkt) k)"
    and "lease \<le> 0x24924924" and "unat (ci_now2 inp) + unat lease < 2 ^ 32"
  shows "cl_inv os s' \<and> lease_ok s' \<and> cl_state s' = BOUND \<and> cl_lease s' = lease \<and> cl_start s' = ci_now2 inp
    \<and> cl_requested_ip s' = yiaddr pkt"
proof -
  have "cl_inv os s'" using enter_bound_inv [OF assms(2), of inp pkt] assms(1) by simp
  moreover have "cl_state s' = BOUND \<and> cl_lease s' = lease \<and> cl_start s' = ci_now2 inp \<and> cl_requested_ip s' = yiaddr pkt
      \<and> cl_t1 s' = lease div 2 \<and> cl_t2 s' = drop_bit 3 (lease * 0x7) \<and> cl_timeout s' = lease div 2 + ci_now2 inp"
    using assms(1) l
    by (auto simp: enter_bound_def Let_def change_mode_def background_def ntohl_def split: if_splits option.splits)
  ultimately show ?thesis using lease_timers [OF assms(4)] assms(5) by (simp add: lease_ok_def)
qed

section \<open>Properties\<close>

lemma client_start_inv:
  assumes "cfg_opts (cl_cfg (snd (client_start cfg now rq q sv l pk))) os" and "cc_discover_retry cfg \<le> 32" and "length pk = 548"
  shows "cl_inv os (snd (client_start cfg now rq q sv l pk))"
  using assms by (simp add: client_start_def cl_inv_def)

definition example_client_cfg :: client_config where
  "example_client_cfg = \<lparr>cc_foreground = True, cc_quit_after_lease = False, cc_abort_if_no_lease = False,
     cc_background_if_no_lease = False, cc_interface = [0x65, 0x74, 0x68, 0x30], cc_clientid = None, cc_hostname = None,
     cc_ifindex = 2, cc_arp = [0, 1, 2, 3, 4, 5], cc_discover_delay = 4, cc_discover_retry = 5, cc_discover_sleep = 60\<rparr>"

definition example_opts :: "(u8 \<times> u8 list) list" where
  "example_opts = [(DHCP_CLIENT_ID, [1, 0, 1, 2, 3, 4, 5])]"

definition example_in :: cl_in where
  "example_in = \<lparr>ci_now = 1000, ci_sock = 3, ci_select = 1, ci_now2 = 1000, ci_fd_ready = False, ci_sig_ready = True,
     ci_rcv = None, ci_eintr = False, ci_sig = Some SIGUSR1, ci_rand = 0x12345678,
     ci_arp = \<lparr>ae_socket = False, ae_setsockopt = False, ae_sendto = False, ae_uptime = 0, ae_rounds = []\<rparr>,
     ci_junk = (\<lambda>_. 0), ci_raw = \<lparr>re_socket = True, re_bind = True, re_sendto = 576\<rparr>,
     ci_kernel = \<lparr>ke_socket = True, ke_setsockopt = True, ke_bind = True, ke_connect = True, ke_write = 548\<rparr>\<rparr>"

definition example_start :: client where
  "example_start = snd (client_start example_client_cfg 1000 0 False 0 0 (replicate 548 0))"

lemma example_start_inv: "cl_inv example_opts example_start"
  unfolding example_start_def
  by (rule client_start_inv)
    (simp_all add: client_start_def example_client_cfg_def cfg_opts_def default_clientid_def example_opts_def opt_codes)

lemma example_in_ok: "cl_in_ok cfg example_in"
  by (simp add: cl_in_ok_def example_in_def get_raw_packet_def arpping_def)



text \<open>Claim C36: a lease is given up in time. When an acknowledgement has been accepted with a lease of at most
  \<^verbatim>\<open>0x24924924\<close> seconds and from then on no server answers and no signal arrives, the timers of the client, each
  handled when it is due, lead through renewing and rebinding to the initial state after finitely many passes, at
  a time not later than the end of the lease, and with the address taken off the interface.\<close>

theorem lease_given_up:
  assumes "cl_inv os s0" and "enter_bound inp pkt s0 = Going out0 s"
    and "lease = (case get_option (pkt_mem (ci_junk inp) pkt) DHCP_LEASE_TIME of None \<Rightarrow> 3600
      | Some k \<Rightarrow> get_u32 (pkt_mem (ci_junk inp) pkt) k)"
    and "lease \<le> 0x24924924" and "unat (ci_now2 inp) + unat lease < 2 ^ 32" and "0 \<le> ci_sock inp'"
  shows "\<exists>n out s'. fire_n n inp' s = Some (out, s') \<and> cl_state s' = INIT_SELECTING \<and> \<not> configured True out \<and>
    unat (cl_timeout s') \<le> unat (ci_now2 inp) + unat lease"
  using renewing_expires [of os s inp'] enter_bound_lease [OF assms(2,1,3-5)] assms(6) unfolding expires_def by fastforce

theorem lease_given_up_witness:
  "\<exists>s n out s'. enter_bound example_in blank_pkt example_start = Going [RunScript (Some blank_pkt) ''bound''] s \<and>
     fire_n n example_in s = Some (out, s') \<and> cl_state s' = INIT_SELECTING \<and> \<not> configured True out \<and>
     unat (cl_timeout s') \<le> 4600"
proof -
  have g: "get_option (pkt_mem (ci_junk example_in) blank_pkt) DHCP_LEASE_TIME = None"
    using get_option_opts [OF blank_pkt_rep, of DHCP_LEASE_TIME] by (simp add: opt_codes)
  obtain s where s: "enter_bound example_in blank_pkt example_start = Going [RunScript (Some blank_pkt) ''bound''] s"
    by (simp add: enter_bound_def Let_def example_start_def client_start_def example_client_cfg_def change_mode_def)
  show ?thesis
    using lease_given_up [OF example_start_inv s, of 3600 example_in] g s by (auto simp: example_in_def)
qed

text \<open>A release during a renewal the user asked for is lost. In the renewal-requested state, where the interface
  has an address, the release signal sends no message to the server and runs no script: the client enters
  the released state with the address still configured.\<close>

theorem release_forgotten:
  assumes "cl_state s = RENEW_REQUESTED" and "ci_sig inp = Some SIGUSR2"
  shows "\<exists>s'. on_signal inp s = Some (Going [] s') \<and> cl_state s' = RELEASED \<and> in_use (cl_state s)"
  using assms by (simp add: on_signal_def perform_release_def SIGUSR1_def SIGUSR2_def change_mode_def)

theorem release_forgotten_witness:
  "\<exists>s'. on_signal (example_in\<lparr>ci_sig := Some SIGUSR2\<rparr>) (example_start\<lparr>cl_state := RENEW_REQUESTED\<rparr>) = Some (Going [] s')
     \<and> cl_state s' = RELEASED"
  using release_forgotten [of "example_start\<lparr>cl_state := RENEW_REQUESTED\<rparr>" "example_in\<lparr>ci_sig := Some SIGUSR2\<rparr>"] by auto

text \<open>Long identifiers overrun the message. The parameter list is appended without a bounds check, so
  that a client identifier and a host name from the command line whose options, with those the client adds,
  fill the field up to its last six bytes make every discover message write behind the buffer.\<close>

theorem discover_overruns:
  assumes "cc_clientid cfg = Some (enc_opt (DHCP_CLIENT_ID, c))" and "cc_hostname cfg = Some (enc_opt (DHCP_HOST_NAME, h))"
    and "length (cc_arp cfg) = 6" and "length c < 256" and "length h < 256"
    and "282 \<le> length c + length h" and "length c + length h \<le> 286"
  shows "send_discover cfg inp x 0 = None"
proof -
  let ?T = "(DHCP_MESSAGE_TYPE, [DHCPDISCOVER])"
  let ?c = "(DHCP_CLIENT_ID, c)" and ?h = "(DHCP_HOST_NAME, h)"
  obtain p0 where p0: "init_header DHCPDISCOVER = Some p0" "pkt_rep p0 [?T]"
    using init_header_rep [of DHCPDISCOVER] by blast
  define p1 where "p1 = p0\<lparr>chaddr := take 6 (cc_arp cfg) @ drop 6 (chaddr p0)\<rparr>"
  have p1: "pkt_rep p1 [?T]" using p0(2) assms(3) by (simp add: p1_def pkt_rep_def wf_pkt_def)
  have ok: "opt_ok ?c" "opt_ok ?h" using assms(4,5) by (simp_all add: opt_codes)
  have "opt_fits [?T] c" using assms(4) by (simp add: opt_fits_def)
  then obtain p2 where p2: "map_option snd (pkt_add p1 (enc_opt ?c)) = Some p2" "pkt_rep p2 ([?T] @ [?c])"
    using pkt_add_rep_fits [OF p1 ok(1)] by blast
  have "opt_fits ([?T] @ [?c]) h" using assms(7) by (simp add: opt_fits_def)
  then obtain p3 where p3: "map_option snd (pkt_add p2 (enc_opt ?h)) = Some p3" "pkt_rep p3 (([?T] @ [?c]) @ [?h])"
    using pkt_add_rep_fits [OF p2(2) ok(2)] by blast
  have "opt_fits (([?T] @ [?c]) @ [?h]) (snd vendor_opt)" using assms(7) by (simp add: opt_fits_def vendor_opt_def)
  moreover have v: "vendor_id = enc_opt vendor_opt @ [0]" "opt_ok vendor_opt" by (simp_all add: vendor_id_def vendor_opt_def opt_codes)
  ultimately obtain p4 where p4: "map_option snd (pkt_add p3 vendor_id) = Some p4" "pkt_rep p4 ((([?T] @ [?c]) @ [?h]) @ [vendor_opt])"
    using pkt_add_rep_fits [OF p3(2), of "fst vendor_opt" "snd vendor_opt"]
      pkt_add_trailing [of "snd vendor_opt" p3 "fst vendor_opt" "[0]"] by (auto simp: vendor_opt_def)
  have i: "client_init_packet cfg DHCPDISCOVER = Some p4"
    unfolding client_init_packet_def p0(1) bind.bind_lunit Let_def p1_def [symmetric] assms(1,2) option.case p2(1) p3(1) p4(1) ..
  have "add_requests (p4\<lparr>xid := x\<rparr>) = None"
    by (rule add_requests_overruns [OF pkt_rep_hdr(1) [OF p4(2)]]) (use assms(6) in simp)
  then show ?thesis by (simp add: send_discover_def i)
qed

theorem discover_overruns_witness:
  "send_discover (example_client_cfg\<lparr>cc_clientid := Some (enc_opt (DHCP_CLIENT_ID, replicate 250 0x61)),
     cc_hostname := Some (enc_opt (DHCP_HOST_NAME, replicate 33 0x62))\<rparr>) example_in 7 0 = None"
  by (rule discover_overruns [of _ "replicate 250 0x61" "replicate 33 0x62"]) (simp_all add: example_client_cfg_def)

text \<open>The fixed point arithmetic of the second timer overflows. For a lease of \<^verbatim>\<open>0x24924925\<close> to
  \<^verbatim>\<open>0x49249249\<close> seconds the product with 7 wraps, and the rebinding time lies before the renewing time.\<close>

theorem rebinding_timer_overflow:
  assumes "enter_bound inp pkt s = Going out s'"
    and "get_option (pkt_mem (ci_junk inp) pkt) DHCP_LEASE_TIME = Some k"
    and "lease = get_u32 (pkt_mem (ci_junk inp) pkt) k" and "0x24924925 \<le> lease" and "lease \<le> 0x49249249"
  shows "cl_t2 s' < cl_t1 s'"
proof -
  have t: "cl_t1 s' = lease div 2 \<and> cl_t2 s' = drop_bit 3 (lease * 0x7)"
    using assms(1-3) by (auto simp: enter_bound_def Let_def change_mode_def background_def ntohl_def split: if_splits)
  have l: "0x24924925 \<le> unat lease" "unat lease \<le> 0x49249249" using assms(4,5) by (simp_all add: word_le_nat_alt)
  have "unat (lease * 7) = unat lease * 7 mod 2 ^ 32" by (simp add: unat_word_ariths)
  also have "\<dots> = (unat lease * 7 - 2 ^ 32) mod 2 ^ 32" using l by (subst le_mod_geq) simp_all
  also have "\<dots> = unat lease * 7 - 2 ^ 32" using l by (subst mod_less) simp_all
  finally have "unat (lease * 7) div 8 < unat lease div 2" using l by simp
  then have "unat (drop_bit 3 (lease * 7)) < unat (lease div 2)" by (simp add: drop_bit_eq_div unat_div)
  then show ?thesis using t by (simp add: word_less_nat_alt)
qed

theorem rebinding_timer_overflow_witness:
  "\<exists>out s'. enter_bound example_in (blank_pkt\<lparr>options := [DHCP_LEASE_TIME, 4, 0x30, 0, 0, 0, DHCP_END] @ replicate 301 0\<rparr>) example_start
     = Going out s' \<and> cl_t2 s' < cl_t1 s'"
proof -
  let ?p = "blank_pkt\<lparr>options := [DHCP_LEASE_TIME, 4, 0x30, 0, 0, 0, DHCP_END] @ replicate 301 0\<rparr>"
  have r: "pkt_rep ?p [(DHCP_LEASE_TIME, [0x30, 0, 0, 0])]"
    by (simp add: pkt_rep_def wf_pkt_def opts_in_def blank_pkt_def opt_codes)
  have g: "get_option (pkt_mem j ?p) DHCP_LEASE_TIME = Some 242" for j
    using get_option_opts [OF r, of DHCP_LEASE_TIME j] by (simp add: opt_codes OPTIONS_OFF_def)
  have wf: "wf_pkt ?p" using r by (simp add: pkt_rep_def)
  have m: "pkt_mem j ?p (240 + i) = options ?p ! i" if "i < 308" for j i
    using pkt_mem_options [OF wf that] by (simp add: OPTIONS_OFF_def)
  have u: "get_u32 (pkt_mem j ?p) 242 = 0x30000000" for j
    using m [of 2 j] m [of 3 j] m [of 4 j] m [of 5 j] by (simp add: get_u32_def)
  obtain out s' where e: "enter_bound example_in ?p example_start = Going out s'"
    by (simp add: enter_bound_def Let_def example_start_def client_start_def example_client_cfg_def change_mode_def)
  have "cl_t2 s' < cl_t1 s'" by (rule rebinding_timer_overflow [OF e g refl]) (simp_all only: u, simp_all)
  then show ?thesis using e by blast
qed

end
