(* ===== verification/C_Library.thy ===== *)
theory C_Library
  imports Prelude
begin

text \<open>
  The functions of the C library the configuration readers use, on strings of bytes without their
  terminator and, for \<^verbatim>\<open>strtok\<close>, on a buffer that holds the terminators. \<^verbatim>\<open>unsigned long\<close> has 32 bits.
\<close>

definition bs :: "string \<Rightarrow> u8 list" where
  "bs s = map of_char s"

definition c_isspace :: "u8 \<Rightarrow> bool" where
  "c_isspace c \<longleftrightarrow> c = 0x20 \<or> (0x09 \<le> c \<and> c \<le> 0x0D)"

definition c_isdigit :: "u8 \<Rightarrow> bool" where
  "c_isdigit c \<longleftrightarrow> 0x30 \<le> c \<and> c \<le> 0x39"

definition c_tolower :: "u8 \<Rightarrow> u8" where
  "c_tolower c = (if 0x41 \<le> c \<and> c \<le> 0x5A then c + 0x20 else c)"

definition strcasecmp_eq :: "u8 list \<Rightarrow> u8 list \<Rightarrow> bool" where
  "strcasecmp_eq a b \<longleftrightarrow> map c_tolower a = map c_tolower b"

definition strspn :: "u8 list \<Rightarrow> u8 list \<Rightarrow> nat" where
  "strspn s set' = length (takeWhile (\<lambda>c. c \<in> set set') s)"

definition strcspn :: "u8 list \<Rightarrow> u8 list \<Rightarrow> nat" where
  "strcspn s set' = length (takeWhile (\<lambda>c. c \<notin> set set') s)"

text \<open>The string at an offset of a buffer; \<open>None\<close> when it is not terminated inside the buffer.\<close>

definition str_at :: "u8 list \<Rightarrow> nat \<Rightarrow> u8 list option" where
  "str_at buf i = (if 0 \<in> set (drop i buf) then Some (cstr (drop i buf)) else None)"

text \<open>\<^verbatim>\<open>strtok\<close> from an offset: the offset of the token, the place where the next call goes on, and the buffer with
  the terminator written behind the token.\<close>

definition strtok :: "u8 list \<Rightarrow> nat \<Rightarrow> u8 list \<Rightarrow> (nat \<times> nat \<times> u8 list) option" where
  "strtok buf pos delim =
     (let s = cstr (drop pos buf); k = strspn s delim; n = strcspn (drop k s) delim in
      if drop k s = [] then None
      else if n = length (drop k s) then Some (pos + k, pos + k + n, buf)
      else Some (pos + k, pos + k + n + 1, buf[pos + k + n := 0]))"

definition digit_val :: "u8 \<Rightarrow> int" where
  "digit_val c = (if c_isdigit c then uint c - 0x30
     else if 0x61 \<le> c \<and> c \<le> 0x7A then uint c - 0x61 + 10
     else if 0x41 \<le> c \<and> c \<le> 0x5A then uint c - 0x41 + 10 else 36)"

definition digits :: "int \<Rightarrow> u8 list \<Rightarrow> u8 list" where
  "digits base s = takeWhile (\<lambda>c. digit_val c < base) s"

definition number :: "int \<Rightarrow> u8 list \<Rightarrow> int" where
  "number base ds = foldl (\<lambda>n c. n * base + digit_val c) 0 ds"

text \<open>A number without sign in base 0: the value and the rest behind its digits, if there are any.\<close>

definition scan_number :: "u8 list \<Rightarrow> (int \<times> u8 list) option" where
  "scan_number s =
     (let (base, t) = (if take 1 s = bs ''0'' \<and> (take 1 (drop 1 s) = bs ''x'' \<or> take 1 (drop 1 s) = bs ''X'')
            \<and> digits 16 (drop 2 s) \<noteq> [] then (16, drop 2 s)
          else if take 1 s = bs ''0'' then (8, s) else (10, s));
        ds = digits base t in
      if ds = [] then None else Some (number base ds, drop (length ds) t))"

definition scan_sign :: "u8 list \<Rightarrow> bool \<times> u8 list" where
  "scan_sign s = (let t = dropWhile c_isspace s in
     if take 1 t = bs ''-'' then (True, drop 1 t) else if take 1 t = bs ''+'' then (False, drop 1 t) else (False, t))"

definition strtoul :: "u8 list \<Rightarrow> u32 \<times> u8 list" where
  "strtoul s = (let (neg, t) = scan_sign s in
     case scan_number t of None \<Rightarrow> (0, s)
     | Some (n, r) \<Rightarrow> (if n \<ge> 2 ^ 32 then 0xFFFFFFFF else if neg then - word_of_int n else word_of_int n, r))"

definition strtol :: "u8 list \<Rightarrow> u32 \<times> u8 list" where
  "strtol s = (let (neg, t) = scan_sign s in
     case scan_number t of None \<Rightarrow> (0, s)
     | Some (n, r) \<Rightarrow> (if neg then (if n > 2 ^ 31 then 0x80000000 else - word_of_int n)
         else (if n \<ge> 2 ^ 31 then 0x7FFFFFFF else word_of_int n), r))"

text \<open>\<^verbatim>\<open>inet_aton\<close>: one to four numbers separated by dots, the last of which fills the rest of the address.\<close>

fun aton_parts :: "nat \<Rightarrow> u8 list \<Rightarrow> (int list \<times> u8 list) option" where
  "aton_parts n s = (if take 1 s = [] \<or> \<not> c_isdigit (hd s) then None else
     case scan_number s of None \<Rightarrow> None
     | Some (v, r) \<Rightarrow>
         if n > 1 \<and> take 1 r = bs ''.'' then
           map_option (\<lambda>(vs, r'). (v # vs, r')) (aton_parts (n - 1) (drop 1 r))
         else Some ([v], r))"

declare aton_parts.simps [simp del]

definition aton_value :: "int list \<Rightarrow> int option" where
  "aton_value vs = (let k = length vs; hi = butlast vs; lo = last vs in
     if list_all (\<lambda>v. v < 256) hi \<and> lo < 256 ^ (5 - k)
     then Some (foldl (\<lambda>a v. a * 256 + v) 0 hi * 256 ^ (5 - k) + lo) else None)"

definition inet_aton :: "u8 list \<Rightarrow> u32 option" where
  "inet_aton s = (case aton_parts 4 s of None \<Rightarrow> None
     | Some (vs, r) \<Rightarrow> if r = [] \<or> c_isspace (hd r) then map_option word_of_int (aton_value vs) else None)"

text \<open>\<^verbatim>\<open>fgets\<close>: at most \<open>n - 1\<close> bytes, up to and with a newline, and a terminator, at the start of the buffer.\<close>

definition fgets :: "u8 list \<Rightarrow> nat \<Rightarrow> u8 list \<Rightarrow> (u8 list \<times> u8 list) option" where
  "fgets buf n file = (if file = [] then None else
     let t = takeWhile (\<lambda>c. c \<noteq> 0x0A) file; line = take (n - 1) (t @ take 1 (drop (length t) file)) in
     Some (line @ [0] @ drop (length line + 1) buf, drop (length line) file))"

section \<open>Facts\<close>

lemma strtok_Some:
  assumes "strtok buf pos delim = Some (t, p, buf')"
  shows "pos \<le> t \<and> t < p \<and> p \<le> length buf \<and> length buf' = length buf"
proof -
  let ?s = "cstr (drop pos buf)"
  let ?k = "strspn ?s delim"
  let ?n = "strcspn (drop ?k ?s) delim"
  have ne: "drop ?k ?s \<noteq> []" using assms by (auto simp: strtok_def Let_def split: if_splits)
  have "hd (drop ?k ?s) \<notin> set delim"
    using ne unfolding strspn_def dropWhile_eq_drop [symmetric] by (rule hd_dropWhile)
  then have n: "0 < ?n" using ne by (cases "drop ?k ?s") (simp_all add: strcspn_def)
  have ls: "length ?s \<le> length buf - pos" unfolding cstr_def using length_takeWhile_le [of _ "drop pos buf"] by simp
  have kl: "?k < length ?s" using ne by simp
  have nl: "?n \<le> length ?s - ?k" unfolding strcspn_def using length_takeWhile_le [of _ "drop ?k ?s"] by simp
  have "?n = length (drop ?k ?s) \<or> ?n < length ?s - ?k" using nl by auto
  then show ?thesis using assms ne n ls kl nl by (auto simp: strtok_def Let_def split: if_splits)
qed

lemma fgets_less:
  assumes "fgets buf n inp = Some (buf', rest)" and "1 < n"
  shows "length rest < length inp"
proof -
  define t where "t = takeWhile (\<lambda>c. c \<noteq> 0x0A) inp"
  define line where "line = take (n - 1) (t @ take 1 (drop (length t) inp))"
  have f: "inp \<noteq> []" "rest = drop (length line) inp"
    using assms(1) by (auto simp: fgets_def Let_def t_def line_def split: if_splits)
  have "t @ take 1 (drop (length t) inp) \<noteq> []" using f(1) unfolding t_def by (cases inp) auto
  then have "0 < length line" using assms(2) by (simp add: line_def)
  then show ?thesis using f by simp
qed

lemma fgets_buffer:
  assumes "fgets buf n inp = Some (buf', rest)" and "0 < n" and "length buf = n"
  shows "length buf' = n \<and> 0 \<in> set buf'"
proof -
  define line where "line = take (n - 1) (takeWhile (\<lambda>c. c \<noteq> 0x0A) inp @ take 1 (drop (length (takeWhile (\<lambda>c. c \<noteq> 0x0A) inp)) inp))"
  have f: "buf' = line @ [0] @ drop (length line + 1) buf"
    using assms(1) by (auto simp: fgets_def Let_def line_def split: if_splits)
  have "length line \<le> n - 1" by (simp add: line_def)
  then show ?thesis using f assms(2,3) by simp
qed

text \<open>A token starts at the offset: with a delimiter behind it, or with the end of the string.\<close>

lemma cstr_append: "0 \<notin> set t \<Longrightarrow> cstr (t @ r) = t @ cstr r"
  by (induction t) (auto simp: cstr_def)

lemma cstr_Cons [simp]: "cstr (c # r) = (if c = 0 then [] else c # cstr r)"
  by (simp add: cstr_def)

lemma token_span:
  assumes "t \<noteq> []" and "set t \<inter> set delim = {}"
  shows "strspn (t @ r) delim = 0" and "r = [] \<or> hd r \<in> set delim \<Longrightarrow> strcspn (t @ r) delim = length t"
proof -
  show "strspn (t @ r) delim = 0" using assms by (cases t) (auto simp: strspn_def)
  assume "r = [] \<or> hd r \<in> set delim"
  then have "takeWhile (\<lambda>c. c \<notin> set delim) r = []" by (cases r) auto
  moreover have "takeWhile (\<lambda>c. c \<notin> set delim) (t @ r) = t @ takeWhile (\<lambda>c. c \<notin> set delim) r"
    using assms(2) by (intro takeWhile_append2) auto
  ultimately show "strcspn (t @ r) delim = length t" by (simp add: strcspn_def)
qed

lemma strtok_end:
  assumes "t \<noteq> []" and "set t \<inter> set delim = {}" and "0 \<notin> set t"
  shows "strtok (pre @ t @ 0 # post) (length pre) delim = Some (length pre, length pre + length t, pre @ t @ 0 # post)"
  using assms token_span [OF assms(1,2), of "[]"] by (simp add: strtok_def Let_def cstr_append)

lemma strtok_delim:
  assumes "t \<noteq> []" and "set t \<inter> set delim = {}" and "0 \<notin> set t" and "d \<in> set delim" and "d \<noteq> 0"
  shows "strtok (pre @ t @ d # post) (length pre) delim = Some (length pre, length pre + length t + 1, pre @ t @ 0 # post)"
proof -
  have c: "cstr (t @ d # post) = t @ d # cstr post" using assms(3,5) by (simp add: cstr_append)
  show ?thesis
    using assms(1,4) token_span [OF assms(1,2), of "d # cstr post"]
    by (simp add: strtok_def Let_def c list_update_append)
qed

end
