(* ===== verification/Dhcp_Leases.thy ===== *)
theory Dhcp_Leases
  imports Prelude
begin

text \<open>
  The lease table of the DHCP server, \<^verbatim>\<open>udhcpcd/leases.c\<close>. The table is the list of the
  \<^verbatim>\<open>max_leases\<close> records the server allocates, a pointer into it an index; the static table has
  \<^verbatim>\<open>MAX_STATIC_LEASES\<close> records and ends at the first one without an address. The current time is
  sampled once per operation, and \<open>answers\<close> says which addresses reply to an ARP probe
  (\<^verbatim>\<open>arpping\<close> returning 0). \<open>lt_ok\<close> is the invariant: no two records hold the same client or the
  same address. The locale \<open>lease_table\<close> is the contract the message handlers rely on.
\<close>

section \<open>Data\<close>

record lease =
  l_chaddr :: "u8 list"
  l_yiaddr :: u32
  l_expires :: u32
  l_ACKed :: u32
  l_hostname :: "u8 list"

definition blank_chaddr :: "u8 list" where "blank_chaddr = replicate 16 0"

definition blank_lease :: lease where
  "blank_lease = \<lparr>l_chaddr = blank_chaddr, l_yiaddr = 0, l_expires = 0, l_ACKed = 0,
     l_hostname = replicate 64 0\<rparr>"

definition MAX_STATIC_LEASES :: nat where "MAX_STATIC_LEASES = 32"
definition LEASE_TIME :: u32 where "LEASE_TIME = 60 * 60 * 24 * 10"

record server_config =
  sc_server :: u32
  sc_start :: u32
  sc_end :: u32
  sc_options :: "u8 list list"
  sc_interface :: "u8 list"
  sc_ifindex :: int
  sc_arp :: "u8 list"
  sc_lease :: u32
  sc_max_leases :: u32
  sc_remaining :: bool
  sc_auto_time :: u32
  sc_decline_time :: u32
  sc_conflict_time :: u32
  sc_offer_time :: u32
  sc_min_lease :: u32
  sc_lease_file :: "u8 list"
  sc_pidfile :: "u8 list"
  sc_notify_file :: "u8 list option"
  sc_siaddr :: u32
  sc_sname :: "u8 list option"
  sc_boot_file :: "u8 list option"

section \<open>Operations\<close>

text \<open>The index of the first element that satisfies a predicate: every search loop of the file.\<close>

fun find_idx :: "('a \<Rightarrow> bool) \<Rightarrow> 'a list \<Rightarrow> nat option" where
  "find_idx P [] = None"
| "find_idx P (x # xs) = (if P x then Some 0 else map_option Suc (find_idx P xs))"

definition clear_lease :: "u8 list \<Rightarrow> u32 \<Rightarrow> lease list \<Rightarrow> lease list" where
  "clear_lease ch yi ls = map (\<lambda>l.
     if ((\<exists>j < 16. ch ! j \<noteq> 0) \<and> take 16 (l_chaddr l) = take 16 ch) \<or> (yi \<noteq> 0 \<and> l_yiaddr l = yi)
     then blank_lease else l) ls"

fun oldest_expired_from :: "u32 \<Rightarrow> nat option \<Rightarrow> nat \<Rightarrow> lease list \<Rightarrow> nat option" where
  "oldest_expired_from oldest_lease oldest i [] = oldest"
| "oldest_expired_from oldest_lease oldest i (l # ls) =
     (if oldest_lease > l_expires l then oldest_expired_from (l_expires l) (Some i) (i + 1) ls
      else oldest_expired_from oldest_lease oldest (i + 1) ls)"

definition oldest_expired_lease :: "u32 \<Rightarrow> lease list \<Rightarrow> nat option" where
  "oldest_expired_lease now ls = oldest_expired_from now None 0 ls"

text \<open>\<open>hostname\<close> is the C string passed, or \<open>None\<close> for the null pointer.\<close>

definition set_hostname :: "u8 list option \<Rightarrow> u8 list \<Rightarrow> u8 list" where
  "set_hostname hostname old = (case hostname of None \<Rightarrow> old
     | Some h \<Rightarrow> (take 64 (cstr h @ replicate 64 0))[63 := 0])"

definition add_lease :: "u32 \<Rightarrow> u8 list \<Rightarrow> u32 \<Rightarrow> u32 \<Rightarrow> u8 list option \<Rightarrow> lease list \<Rightarrow> nat option \<times> lease list" where
  "add_lease now ch yi lease hostname ls =
     (let ls = clear_lease ch yi ls in
      case oldest_expired_lease now ls of
        None \<Rightarrow> (None, ls)
      | Some i \<Rightarrow> (Some i, ls[i := (ls ! i)\<lparr>l_chaddr := take 16 ch, l_yiaddr := yi,
          l_expires := now + lease, l_hostname := set_hostname hostname (l_hostname (ls ! i))\<rparr>]))"

definition lease_expired :: "u32 \<Rightarrow> lease \<Rightarrow> bool" where
  "lease_expired now l \<longleftrightarrow> l_expires l < now"

definition static_list :: "lease list \<Rightarrow> lease list" where
  "static_list st = takeWhile (\<lambda>l. l_yiaddr l \<noteq> 0) (take MAX_STATIC_LEASES st)"

definition find_static_lease_by_chaddr :: "u8 list \<Rightarrow> lease list \<Rightarrow> nat option" where
  "find_static_lease_by_chaddr ch st = find_idx (\<lambda>l. l_chaddr l = take 16 ch) (static_list st)"

definition find_static_lease_by_yiaddr :: "u32 \<Rightarrow> lease list \<Rightarrow> nat option" where
  "find_static_lease_by_yiaddr yi st = find_idx (\<lambda>l. l_yiaddr l = yi) (static_list st)"

definition find_lease_by_chaddr :: "u8 list \<Rightarrow> lease list \<Rightarrow> nat option" where
  "find_lease_by_chaddr ch ls = find_idx (\<lambda>l. take 16 (l_chaddr l) = take 16 ch) ls"

definition find_lease_by_yiaddr :: "u32 \<Rightarrow> lease list \<Rightarrow> nat option" where
  "find_lease_by_yiaddr yi ls = find_idx (\<lambda>l. l_yiaddr l = yi) ls"

definition check_ip :: "u32 \<Rightarrow> (u32 \<Rightarrow> bool) \<Rightarrow> server_config \<Rightarrow> u32 \<Rightarrow> lease list \<Rightarrow> bool \<times> lease list" where
  "check_ip now answers cfg addr ls =
     (if answers addr then (True, snd (add_lease now blank_chaddr addr (sc_conflict_time cfg) None ls))
      else (False, ls))"

text \<open>The candidate loop of \<^verbatim>\<open>find_address\<close>. The address is an unsigned 32 bit number, so that a range
  ending in 255.255.255.255 never lets the loop condition fail: then the loop may not end.\<close>

unbundle bit_operations_syntax

partial_function (option) find_address_from ::
    "u32 \<Rightarrow> (u32 \<Rightarrow> bool) \<Rightarrow> server_config \<Rightarrow> lease list \<Rightarrow> bool \<Rightarrow> u32 \<Rightarrow> lease list \<Rightarrow> (u32 \<times> lease list) option" where
  "find_address_from now answers cfg st check_expired addr ls =
     (if \<not> addr \<le> ntohl (sc_end cfg) then Some (0, ls)
      else if addr AND 0xFF = 0 then find_address_from now answers cfg st check_expired (addr + 1) ls
      else if addr AND 0xFF = 0xFF then find_address_from now answers cfg st check_expired (addr + 1) ls
      else if find_static_lease_by_yiaddr (htonl addr) st \<noteq> None
        then find_address_from now answers cfg st check_expired (addr + 1) ls
      else if (case find_lease_by_yiaddr (htonl addr) ls of None \<Rightarrow> True
          | Some i \<Rightarrow> check_expired \<and> lease_expired now (ls ! i))
        then (if fst (check_ip now answers cfg (htonl addr) ls)
          then find_address_from now answers cfg st check_expired (addr + 1)
            (snd (check_ip now answers cfg (htonl addr) ls))
          else Some (htonl addr, snd (check_ip now answers cfg (htonl addr) ls)))
      else find_address_from now answers cfg st check_expired (addr + 1) ls)"

definition find_address ::
    "u32 \<Rightarrow> (u32 \<Rightarrow> bool) \<Rightarrow> server_config \<Rightarrow> lease list \<Rightarrow> bool \<Rightarrow> lease list \<Rightarrow> (u32 \<times> lease list) option" where
  "find_address now answers cfg st check_expired ls =
     find_address_from now answers cfg st check_expired (ntohl (sc_start cfg)) ls"

section \<open>The invariant\<close>

definition wf_lease :: "lease \<Rightarrow> bool" where
  "wf_lease l \<longleftrightarrow> length (l_chaddr l) = 16 \<and> length (l_hostname l) = 64"

definition lt_ok :: "lease list \<Rightarrow> bool" where
  "lt_ok ls \<longleftrightarrow> list_all wf_lease ls \<and>
     (\<forall>i < length ls. \<forall>j < length ls. i \<noteq> j \<longrightarrow>
        (l_yiaddr (ls ! i) \<noteq> 0 \<longrightarrow> l_yiaddr (ls ! i) \<noteq> l_yiaddr (ls ! j)) \<and>
        (l_chaddr (ls ! i) \<noteq> blank_chaddr \<longrightarrow> l_chaddr (ls ! i) \<noteq> l_chaddr (ls ! j)))"

lemma find_idx_Some:
  "find_idx P xs = Some i \<Longrightarrow> i < length xs \<and> P (xs ! i) \<and> (\<forall>j < i. \<not> P (xs ! j))"
proof (induction xs arbitrary: i)
  case (Cons x xs)
  then show ?case by (auto simp: less_Suc_eq_0_disj split: if_splits)
qed simp

lemma find_idx_None: "find_idx P xs = None \<longleftrightarrow> (\<forall>x \<in> set xs. \<not> P x)"
  by (induction xs) auto

lemma find_idx_ex: "x \<in> set xs \<Longrightarrow> P x \<Longrightarrow> \<exists>i. find_idx P xs = Some i"
  using find_idx_None [of P xs] by (cases "find_idx P xs") auto

section \<open>Clearing and adding\<close>

lemma length_clear [simp]: "length (clear_lease ch yi ls) = length ls"
  by (simp add: clear_lease_def)

lemma length_add [simp]: "length (snd (add_lease now ch yi t h ls)) = length ls"
  by (simp add: add_lease_def Let_def split: option.split)

lemma blank_ch: "length ch = 16 \<Longrightarrow> (\<exists>j < 16. ch ! j \<noteq> 0) \<longleftrightarrow> ch \<noteq> blank_chaddr"
  by (auto simp: blank_chaddr_def list_eq_iff_nth_eq)

lemma clear_nth:
  assumes "i < length ls" and "length ch = 16" and "wf_lease (ls ! i)"
  shows "clear_lease ch yi ls ! i = (if (ch \<noteq> blank_chaddr \<and> l_chaddr (ls ! i) = ch)
      \<or> (yi \<noteq> 0 \<and> l_yiaddr (ls ! i) = yi) then blank_lease else ls ! i)"
  using assms by (simp add: clear_lease_def blank_ch wf_lease_def)

lemma wf_blank [simp]: "wf_lease blank_lease"
  by (simp add: wf_lease_def blank_lease_def blank_chaddr_def)

lemma lt_okI:
  assumes "\<And>i. i < length ls \<Longrightarrow> wf_lease (ls ! i)"
    and "\<And>i j. i < length ls \<Longrightarrow> j < length ls \<Longrightarrow> i \<noteq> j \<Longrightarrow>
      (l_yiaddr (ls ! i) \<noteq> 0 \<longrightarrow> l_yiaddr (ls ! i) \<noteq> l_yiaddr (ls ! j)) \<and>
      (l_chaddr (ls ! i) \<noteq> blank_chaddr \<longrightarrow> l_chaddr (ls ! i) \<noteq> l_chaddr (ls ! j))"
  shows "lt_ok ls"
  using assms by (simp add: lt_ok_def list_all_length)

lemma lt_okD:
  assumes "lt_ok ls" and "i < length ls"
  shows "wf_lease (ls ! i)"
    and "j < length ls \<Longrightarrow> i \<noteq> j \<Longrightarrow> l_yiaddr (ls ! i) \<noteq> 0 \<Longrightarrow> l_yiaddr (ls ! i) \<noteq> l_yiaddr (ls ! j)"
    and "j < length ls \<Longrightarrow> i \<noteq> j \<Longrightarrow> l_chaddr (ls ! i) \<noteq> blank_chaddr \<Longrightarrow> l_chaddr (ls ! i) \<noteq> l_chaddr (ls ! j)"
  using assms by (auto simp: lt_ok_def list_all_length)

lemma clear_ok:
  assumes ok: "lt_ok ls" and ch: "length ch = 16"
  shows "lt_ok (clear_lease ch yi ls)"
proof (rule lt_okI)
  fix i assume i: "i < length (clear_lease ch yi ls)"
  then show "wf_lease (clear_lease ch yi ls ! i)"
    using clear_nth [of i ls ch yi] lt_okD(1) [OF ok] ch by simp
  fix j assume j: "j < length (clear_lease ch yi ls)" and ij: "i \<noteq> j"
  have bl: "l_yiaddr blank_lease = 0" "l_chaddr blank_lease = blank_chaddr" by (simp_all add: blank_lease_def)
  have ij': "i < length ls" "j < length ls" using i j by simp_all
  have c: "clear_lease ch yi ls ! m = blank_lease \<or> clear_lease ch yi ls ! m = ls ! m" if "m < length ls" for m
    using clear_nth [OF that ch lt_okD(1) [OF ok that], of yi] by presburger
  from c [OF ij'(1)] c [OF ij'(2)]
  show "(l_yiaddr (clear_lease ch yi ls ! i) \<noteq> 0 \<longrightarrow> l_yiaddr (clear_lease ch yi ls ! i) \<noteq> l_yiaddr (clear_lease ch yi ls ! j)) \<and>
      (l_chaddr (clear_lease ch yi ls ! i) \<noteq> blank_chaddr \<longrightarrow> l_chaddr (clear_lease ch yi ls ! i) \<noteq> l_chaddr (clear_lease ch yi ls ! j))"
    using lt_okD(2,3) [OF ok ij'(1,2) ij] by (elim disjE) (simp_all add: bl)
qed

text \<open>After clearing, neither the client nor the address is in the table.\<close>

lemma clear_fresh:
  assumes ok: "lt_ok ls" and ch: "length ch = 16" and i: "i < length ls"
  shows "ch \<noteq> blank_chaddr \<Longrightarrow> l_chaddr (clear_lease ch yi ls ! i) \<noteq> ch"
    and "yi \<noteq> 0 \<Longrightarrow> l_yiaddr (clear_lease ch yi ls ! i) \<noteq> yi"
  using clear_nth [OF i ch lt_okD(1) [OF ok i], of yi] by (auto simp: blank_lease_def)

lemma oldest_from_Some:
  "oldest_expired_from t old i ls = Some k \<Longrightarrow>
   old = Some k \<or> (\<exists>m < length ls. k = i + m \<and> l_expires (ls ! m) < t)"
proof (induction ls arbitrary: t old i)
  case (Cons l ls)
  have step: "\<exists>m < length (l # ls). k = i + m \<and> l_expires ((l # ls) ! m) < t"
    if "m < length ls" "k = i + 1 + m" "l_expires (ls ! m) < t" for m
    using that by (intro exI [of _ "Suc m"]) simp
  show ?case
  proof (cases "t > l_expires l")
    case True
    then have "oldest_expired_from (l_expires l) (Some i) (i + 1) ls = Some k" using Cons.prems by simp
    then consider "k = i" | m where "m < length ls" "k = i + 1 + m" "l_expires (ls ! m) < l_expires l"
      using Cons.IH by (metis option.inject)
    then show ?thesis
    proof cases
      case 1
      then show ?thesis using True by (intro disjI2 exI [of _ 0]) simp
    next
      case 2
      then show ?thesis using step [OF 2(1,2)] less_trans [OF 2(3) True] by blast
    qed
  next
    case False
    then have "oldest_expired_from t old (i + 1) ls = Some k" using Cons.prems by simp
    then show ?thesis using Cons.IH step by blast
  qed
qed simp

lemma oldest_Some:
  "oldest_expired_lease now ls = Some k \<Longrightarrow> k < length ls \<and> l_expires (ls ! k) < now"
  using oldest_from_Some [of now None 0 ls k] by (auto simp: oldest_expired_lease_def)

lemma oldest_from_None:
  "oldest_expired_from t old i ls = None \<Longrightarrow> old = None \<and> (\<forall>l \<in> set ls. \<not> l_expires l < t)"
  by (induction ls arbitrary: t old i) (auto split: if_splits)

lemma add_lease_cases:
  obtains (full) "oldest_expired_lease now (clear_lease ch yi ls) = None"
      "add_lease now ch yi t h ls = (None, clear_lease ch yi ls)"
    | (added) k where "k < length ls" "l_expires (clear_lease ch yi ls ! k) < now"
      "add_lease now ch yi t h ls = (Some k, (clear_lease ch yi ls)[k := (clear_lease ch yi ls ! k)
        \<lparr>l_chaddr := take 16 ch, l_yiaddr := yi, l_expires := now + t,
         l_hostname := set_hostname h (l_hostname (clear_lease ch yi ls ! k))\<rparr>])"
  using oldest_Some [of now "clear_lease ch yi ls"]
  by (cases "oldest_expired_lease now (clear_lease ch yi ls)") (auto simp: add_lease_def Let_def)

lemma length_set_hostname [simp]: "length (set_hostname h old) = (if h = None then length old else 64)"
  by (cases h) (auto simp: set_hostname_def)

text \<open>\<^verbatim>\<open>add_lease\<close> keeps the invariant.\<close>

lemma add_ok:
  assumes ok: "lt_ok ls" and ch: "length ch = 16"
  shows "lt_ok (snd (add_lease now ch yi t h ls))"
proof (cases rule: add_lease_cases [of now ch yi ls t h])
  case full
  then show ?thesis using clear_ok [OF ok ch] by simp
next
  case (added k)
  define cl where "cl = clear_lease ch yi ls"
  define e where "e = (cl ! k)\<lparr>l_chaddr := take 16 ch, l_yiaddr := yi, l_expires := now + t,
         l_hostname := set_hostname h (l_hostname (cl ! k))\<rparr>"
  have cok: "lt_ok cl" "length cl = length ls" using clear_ok [OF ok ch] by (simp_all add: cl_def)
  have fr: "i < length ls \<Longrightarrow> ch \<noteq> blank_chaddr \<Longrightarrow> l_chaddr (cl ! i) \<noteq> ch"
    "i < length ls \<Longrightarrow> yi \<noteq> 0 \<Longrightarrow> l_yiaddr (cl ! i) \<noteq> yi" for i
    using clear_fresh [OF ok ch] by (simp_all add: cl_def)
  have e: "l_chaddr e = ch" "l_yiaddr e = yi" "wf_lease e"
    using ch lt_okD(1) [OF cok(1), of k] added(1) cok(2) unfolding e_def wf_lease_def by simp_all
  have "lt_ok (cl[k := e])"
  proof (rule lt_okI)
    fix i assume i: "i < length (cl[k := e])"
    show "wf_lease (cl[k := e] ! i)"
      using lt_okD(1) [OF cok(1), of i] e(3) i by (cases "i = k") auto
    fix j assume j: "j < length (cl[k := e])" and ij: "i \<noteq> j"
    show "(l_yiaddr (cl[k := e] ! i) \<noteq> 0 \<longrightarrow> l_yiaddr (cl[k := e] ! i) \<noteq> l_yiaddr (cl[k := e] ! j)) \<and>
      (l_chaddr (cl[k := e] ! i) \<noteq> blank_chaddr \<longrightarrow> l_chaddr (cl[k := e] ! i) \<noteq> l_chaddr (cl[k := e] ! j))"
    proof -
      have ij': "i < length ls" "j < length ls" using i j cok(2) by simp_all
      consider "i = k" "j \<noteq> k" | "i \<noteq> k" "j = k" | "i \<noteq> k" "j \<noteq> k" using ij by blast
      then show ?thesis
      proof cases
        case 1
        then show ?thesis using fr(1) [OF ij'(2)] fr(2) [OF ij'(2)] e(1,2) i by fastforce
      next
        case 2
        then show ?thesis using fr(1) [OF ij'(1)] fr(2) [OF ij'(1)] e(1,2) j by fastforce
      next
        case 3
        then show ?thesis using lt_okD(2,3) [OF cok(1), of i j] ij ij' cok(2) by simp
      qed
    qed
  qed
  then show ?thesis unfolding added(3) snd_conv cl_def e_def .
qed

text \<open>A lease that has not expired survives, unless the client or the address is being replaced.\<close>

definition keeps :: "u32 \<Rightarrow> (lease \<Rightarrow> bool) \<Rightarrow> lease list \<Rightarrow> lease list \<Rightarrow> bool" where
  "keeps now Q ls ls' \<longleftrightarrow> length ls' = length ls \<and>
     (\<forall>i < length ls. \<not> lease_expired now (ls ! i) \<longrightarrow> Q (ls ! i) \<longrightarrow> ls' ! i = ls ! i)"

lemma keeps_refl [simp]: "keeps now Q ls ls"
  by (simp add: keeps_def)

lemma keeps_trans: "keeps now Q ls ls' \<Longrightarrow> keeps now Q ls' ls'' \<Longrightarrow> keeps now Q ls ls''"
  by (simp add: keeps_def)

lemma keeps_mono: "keeps now Q ls ls' \<Longrightarrow> (\<And>l. Q' l \<Longrightarrow> Q l) \<Longrightarrow> keeps now Q' ls ls'"
  by (simp add: keeps_def)

lemma add_lease_keeps:
  assumes ok: "lt_ok ls" and ch: "length ch = 16"
  shows "keeps now (\<lambda>l. (ch \<noteq> blank_chaddr \<longrightarrow> l_chaddr l \<noteq> ch) \<and> (yi \<noteq> 0 \<longrightarrow> l_yiaddr l \<noteq> yi)) ls
    (snd (add_lease now ch yi t h ls))"
proof -
  have c: "clear_lease ch yi ls ! i = ls ! i"
    if "i < length ls" "ch \<noteq> blank_chaddr \<longrightarrow> l_chaddr (ls ! i) \<noteq> ch" "yi \<noteq> 0 \<longrightarrow> l_yiaddr (ls ! i) \<noteq> yi" for i
    using clear_nth [OF that(1) ch lt_okD(1) [OF ok that(1)], of yi] that(2,3) by auto
  show ?thesis
  proof (cases rule: add_lease_cases [of now ch yi ls t h])
    case full
    then show ?thesis using c by (simp add: keeps_def)
  next
    case (added k)
    show ?thesis
      unfolding added(3) snd_conv keeps_def
    proof (intro conjI allI impI)
      fix i assume i: "i < length ls" "\<not> lease_expired now (ls ! i)"
        "(ch \<noteq> blank_chaddr \<longrightarrow> l_chaddr (ls ! i) \<noteq> ch) \<and> (yi \<noteq> 0 \<longrightarrow> l_yiaddr (ls ! i) \<noteq> yi)"
      then have ci: "clear_lease ch yi ls ! i = ls ! i" using c by blast
      then have "k \<noteq> i" using added(2) i(2) by (auto simp: lease_expired_def)
      then show "(clear_lease ch yi ls)[k := (clear_lease ch yi ls ! k)
          \<lparr>l_chaddr := take 16 ch, l_yiaddr := yi, l_expires := now + t,
            l_hostname := set_hostname h (l_hostname (clear_lease ch yi ls ! k))\<rparr>] ! i = ls ! i"
        using ci by simp
    qed simp
  qed
qed

lemma add_found:
  assumes "add_lease now ch yi t h ls = (Some k, ls')" and "length ch = 16"
  shows "k < length ls' \<and> l_chaddr (ls' ! k) = ch \<and> l_yiaddr (ls' ! k) = yi \<and> l_expires (ls' ! k) = now + t"
  using assms by (cases rule: add_lease_cases [of now ch yi ls t h]) auto

section \<open>The contract of the table\<close>

definition held :: "lease list \<Rightarrow> u32 \<Rightarrow> u8 list \<Rightarrow> bool" where
  "held ls a c \<longleftrightarrow> (\<exists>i < length ls. l_yiaddr (ls ! i) = a \<and> l_chaddr (ls ! i) = c)"

locale lease_table =
  fixes inv :: "'t \<Rightarrow> bool"
    and holds :: "'t \<Rightarrow> u32 \<Rightarrow> u8 list \<Rightarrow> bool"
    and add :: "u8 list \<Rightarrow> u32 \<Rightarrow> 't \<Rightarrow> bool \<times> 't"
  assumes addr_unique: "inv t \<Longrightarrow> a \<noteq> 0 \<Longrightarrow> holds t a c \<Longrightarrow> holds t a c' \<Longrightarrow> c' = c"
    and client_unique: "inv t \<Longrightarrow> c \<noteq> blank_chaddr \<Longrightarrow> holds t a c \<Longrightarrow> holds t a' c \<Longrightarrow> a' = a"
    and add_inv: "inv t \<Longrightarrow> length c = 16 \<Longrightarrow> inv (snd (add c a t))"
    and add_holds: "inv t \<Longrightarrow> length c = 16 \<Longrightarrow> fst (add c a t) \<Longrightarrow> holds (snd (add c a t)) a c"
begin

text \<open>After a lease was added, the address belongs to the client alone and the client has no other.\<close>

lemma add_exclusive:
  assumes "inv t" and "length c = 16" and "a \<noteq> 0" and "c \<noteq> blank_chaddr" and "fst (add c a t)"
  shows "holds (snd (add c a t)) a c \<and> (\<forall>c'. holds (snd (add c a t)) a c' \<longrightarrow> c' = c)
    \<and> (\<forall>a'. holds (snd (add c a t)) a' c \<longrightarrow> a' = a)"
  using assms add_holds add_inv addr_unique client_unique by blast

end

definition add_to :: "u32 \<Rightarrow> u32 \<Rightarrow> u8 list option \<Rightarrow> u8 list \<Rightarrow> u32 \<Rightarrow> lease list \<Rightarrow> bool \<times> lease list" where
  "add_to now t h c a ls = (fst (add_lease now c a t h ls) \<noteq> None, snd (add_lease now c a t h ls))"

interpretation lt: lease_table lt_ok held "add_to now t h" for now t h
proof unfold_locales
  fix ls a c c' assume "lt_ok ls" "a \<noteq> 0" "held ls a c" "held ls a c'"
  then show "c' = c" unfolding held_def by (metis lt_okD(2))
next
  fix ls c a a' assume "lt_ok ls" "c \<noteq> blank_chaddr" "held ls a c" "held ls a' c"
  then show "a' = a" unfolding held_def by (metis lt_okD(3))
next
  fix ls and c :: "u8 list" and a assume ok: "lt_ok ls" and c: "length c = 16"
  then show "lt_ok (snd (add_to now t h c a ls))" by (simp add: add_to_def add_ok)
  assume "fst (add_to now t h c a ls)"
  then obtain k ls' where "add_lease now c a t h ls = (Some k, ls')"
    by (cases "add_lease now c a t h ls") (auto simp: add_to_def)
  with add_found [OF this c] show "held (snd (add_to now t h c a ls)) a c"
    by (auto simp: add_to_def held_def)
qed

section \<open>Finding an address\<close>

text \<open>What \<^verbatim>\<open>find_address\<close> may return: an address of the range, not the network or broadcast address of
  a 24 bit subnet, not reserved, silent on the network, and held by no lease, or by an expired one
  when expired leases are allowed.\<close>

definition assignable :: "u32 \<Rightarrow> (u32 \<Rightarrow> bool) \<Rightarrow> server_config \<Rightarrow> lease list \<Rightarrow> bool \<Rightarrow> lease list \<Rightarrow> u32 \<Rightarrow> bool" where
  "assignable now answers cfg st check_expired ls a \<longleftrightarrow>
     sc_start cfg \<le> a \<and> a \<le> sc_end cfg \<and> a AND 0xFF \<noteq> 0 \<and> a AND 0xFF \<noteq> 0xFF \<and>
     find_static_lease_by_yiaddr a st = None \<and> \<not> answers a \<and>
     (\<forall>l \<in> set ls. l_yiaddr l = a \<longrightarrow> check_expired \<and> lease_expired now l)"

lemma unleased:
  assumes ok: "lt_ok ls" and a: "a \<noteq> 0"
    and f: "case find_lease_by_yiaddr a ls of None \<Rightarrow> True | Some i \<Rightarrow> ce \<and> lease_expired now (ls ! i)"
    and l: "l \<in> set ls" "l_yiaddr l = a"
  shows "ce \<and> lease_expired now l"
proof -
  obtain i where i: "find_lease_by_yiaddr a ls = Some i"
    using find_idx_ex [of l ls "\<lambda>l. l_yiaddr l = a"] l by (auto simp: find_lease_by_yiaddr_def)
  then have "i < length ls" "l_yiaddr (ls ! i) = a"
    using find_idx_Some by (auto simp: find_lease_by_yiaddr_def)
  moreover obtain j where "j < length ls" "l = ls ! j" using l(1) by (metis in_set_conv_nth)
  ultimately have "l = ls ! i" using lt_okD(2) [OF ok, of i j] a l(2) by metis
  with f i show ?thesis by simp
qed

lemma check_ip_keeps:
  assumes ok: "lt_ok ls" and a: "a \<noteq> 0"
    and f: "case find_lease_by_yiaddr a ls of None \<Rightarrow> True | Some i \<Rightarrow> ce \<and> lease_expired now (ls ! i)"
  shows "lt_ok (snd (check_ip now answers cfg a ls)) \<and> keeps now (\<lambda>_. True) ls (snd (check_ip now answers cfg a ls))"
proof (cases "answers a")
  case True
  have bl: "length blank_chaddr = 16" by (simp add: blank_chaddr_def)
  have "keeps now (\<lambda>l. l_yiaddr l \<noteq> a) ls (snd (add_lease now blank_chaddr a (sc_conflict_time cfg) None ls))"
    using add_lease_keeps [OF ok bl, of now a] a by simp
  then have "keeps now (\<lambda>_. True) ls (snd (add_lease now blank_chaddr a (sc_conflict_time cfg) None ls))"
    using unleased [OF ok a f] by (auto simp: keeps_def)
  then show ?thesis using True add_ok [OF ok bl] by (simp add: check_ip_def)
qed (simp add: check_ip_def ok)

lemma find_address_from_total:
  assumes e: "sc_end cfg \<noteq> - 1"
  shows "lt_ok ls \<Longrightarrow> sc_start cfg \<le> addr \<Longrightarrow>
    \<exists>a ls'. find_address_from now answers cfg st ce addr ls = Some (a, ls')
      \<and> (a \<noteq> 0 \<longrightarrow> assignable now answers cfg st ce ls' a) \<and> lt_ok ls' \<and> keeps now (\<lambda>_. True) ls ls'"
proof (induction "unat (sc_end cfg) + 1 - unat addr" arbitrary: addr ls rule: less_induct)
  case less
  show ?case
  proof (cases "addr \<le> sc_end cfg")
    case False
    then show ?thesis using less.prems(1) by (subst find_address_from.simps) (simp add: ntohl_def)
  next
    case in_range: True
    have le: "unat addr \<le> unat (sc_end cfg)" using in_range by (simp add: word_le_nat_alt)
    have "addr \<noteq> - 1" using in_range e by (metis word_n1_ge antisym)
    then have suc: "unat (addr + 1) = unat addr + 1" by (metis Suc_eq_plus1 add.commute add_neg_numeral_special(7) add_eq_0_iff unatSuc)
    have dec: "unat (sc_end cfg) + 1 - unat (addr + 1) < unat (sc_end cfg) + 1 - unat addr" using le suc by simp
    have st: "sc_start cfg \<le> addr + 1"
      using less.prems(2) suc by (simp add: word_le_nat_alt)
    have rec: "\<exists>a ls''. find_address_from now answers cfg st ce (addr + 1) ls' = Some (a, ls'')
      \<and> (a \<noteq> 0 \<longrightarrow> assignable now answers cfg st ce ls'' a) \<and> lt_ok ls'' \<and> keeps now (\<lambda>_. True) ls ls''"
      if "lt_ok ls'" "keeps now (\<lambda>_. True) ls ls'" for ls'
      using less.hyps [OF dec that(1) st] keeps_trans [OF that(2)] by blast
    let ?skip = "addr AND 0xFF = 0 \<or> addr AND 0xFF = 0xFF \<or> find_static_lease_by_yiaddr addr st \<noteq> None"
    let ?free = "case find_lease_by_yiaddr addr ls of None \<Rightarrow> True | Some i \<Rightarrow> ce \<and> lease_expired now (ls ! i)"
    show ?thesis
    proof (cases "?skip \<or> \<not> ?free")
      case True
      then have "find_address_from now answers cfg st ce addr ls = find_address_from now answers cfg st ce (addr + 1) ls"
        using in_range by (subst find_address_from.simps) (auto simp: ntohl_def htonl_def)
      then show ?thesis using rec [OF less.prems(1)] by simp
    next
      case False
      then have a0: "addr \<noteq> 0" by auto
      have c: "lt_ok (snd (check_ip now answers cfg addr ls))"
          "keeps now (\<lambda>_. True) ls (snd (check_ip now answers cfg addr ls))"
        using check_ip_keeps [OF less.prems(1) a0, of ce] False by blast+
      have f: "find_address_from now answers cfg st ce addr ls =
          (if fst (check_ip now answers cfg addr ls)
           then find_address_from now answers cfg st ce (addr + 1) (snd (check_ip now answers cfg addr ls))
           else Some (addr, snd (check_ip now answers cfg addr ls)))"
        using False in_range by (subst find_address_from.simps) (auto simp: ntohl_def htonl_def)
      show ?thesis
      proof (cases "answers addr")
        case True
        then show ?thesis using rec [OF c] f by (simp add: check_ip_def)
      next
        case silent: False
        then have "assignable now answers cfg st ce ls addr"
          using False in_range less.prems unleased [OF less.prems(1) a0, of ce now]
          unfolding assignable_def by blast
        then show ?thesis using f silent less.prems(1) by (simp add: check_ip_def)
      qed
    qed
  qed
qed

lemma find_address_returns_silent:
  assumes "find_address_from now answers cfg st ce addr ls = Some r"
  shows "sc_end cfg = - 1 \<longrightarrow> \<not> answers (fst r)"
proof (rule find_address_from.raw_induct [where P = "\<lambda>now answers cfg st ce addr ls r.
    sc_end cfg = - 1 \<longrightarrow> \<not> answers (fst r)", OF _ assms], rule impI)
  fix f now answers st ce addr ls r and cfg :: server_config
  assume IH: "\<And>now answers cfg st ce addr ls r. f now answers cfg st ce addr ls = Some r \<Longrightarrow>
      sc_end (cfg :: server_config) = - 1 \<longrightarrow> \<not> answers (fst r)"
    and e: "sc_end cfg = - 1"
    and body: "(if \<not> addr \<le> ntohl (sc_end cfg) then Some (0, ls)
      else if addr AND 0xFF = 0 then f now answers cfg st ce (addr + 1) ls
      else if addr AND 0xFF = 0xFF then f now answers cfg st ce (addr + 1) ls
      else if find_static_lease_by_yiaddr (htonl addr) st \<noteq> None then f now answers cfg st ce (addr + 1) ls
      else if (case find_lease_by_yiaddr (htonl addr) ls of None \<Rightarrow> True | Some i \<Rightarrow> ce \<and> lease_expired now (ls ! i))
        then (if fst (check_ip now answers cfg (htonl addr) ls)
          then f now answers cfg st ce (addr + 1) (snd (check_ip now answers cfg (htonl addr) ls))
          else Some (htonl addr, snd (check_ip now answers cfg (htonl addr) ls)))
      else f now answers cfg st ce (addr + 1) ls) = Some r"
  have IH': "f now answers cfg st ce a l = Some r \<Longrightarrow> \<not> answers (fst r)" for a l using IH e by blast
  show "\<not> answers (fst r)"
    using body e by (auto simp: ntohl_def check_ip_def split: if_splits dest: IH')
qed

section \<open>Properties\<close>

definition example_cfg :: server_config where
  "example_cfg = \<lparr>sc_server = 0x0A000001, sc_start = 0x0A000064, sc_end = 0x0A000066,
     sc_options = [], sc_interface = [], sc_ifindex = 2, sc_arp = replicate 6 1, sc_lease = 864000,
     sc_max_leases = 3, sc_remaining = True, sc_auto_time = 7200, sc_decline_time = 3600,
     sc_conflict_time = 3600, sc_offer_time = 60, sc_min_lease = 60, sc_lease_file = [], sc_pidfile = [],
     sc_notify_file = None, sc_siaddr = 0, sc_sname = None, sc_boot_file = None\<rparr>"

lemma blank_table_ok: "lt_ok (replicate n blank_lease)"
  by (rule lt_okI) (simp_all add: blank_lease_def blank_chaddr_def wf_lease_def)

text \<open>Claim C10: \<^verbatim>\<open>find_address\<close> terminates for every range that does not end in 255.255.255.255, and is sound:
  an address it returns lies in the configured range, is not a network or broadcast address of a
  24 bit subnet, is not statically reserved, did not answer the ARP probe, and belongs to no lease
  (or only to an expired one, when it looks for expired ones). On the way it reserves addresses that
  answer, and in doing so keeps the table's invariant and disturbs no lease that has not expired.\<close>

theorem find_address_sound:
  assumes "lt_ok ls" and "sc_end cfg \<noteq> - 1"
  shows "\<exists>a ls'. find_address now answers cfg st check_expired ls = Some (a, ls')
    \<and> (a \<noteq> 0 \<longrightarrow> assignable now answers cfg st check_expired ls' a)
    \<and> lt_ok ls' \<and> keeps now (\<lambda>_. True) ls ls'"
  using find_address_from_total [OF assms(2,1)] unfolding find_address_def by (simp add: ntohl_def)

theorem find_address_sound_witness:
  "\<exists>a ls'. find_address 1000 (\<lambda>a. a = 0x0A000064) example_cfg [] False (replicate 3 blank_lease) = Some (a, ls')
    \<and> (a \<noteq> 0 \<longrightarrow> \<not> a = 0x0A000064)"
proof -
  have "sc_end example_cfg \<noteq> - 1" by (simp add: example_cfg_def)
  from find_address_sound [OF blank_table_ok [of 3] this, where now = 1000 and st = "[]" and
      answers = "\<lambda>a. a = 0x0A000064" and check_expired = False]
  show ?thesis unfolding assignable_def by blast
qed

text \<open>Claim C28: \<^verbatim>\<open>add_lease\<close> gives an address to one client only. In a table that satisfies the invariant,
  after it reports success the client holds the address, nobody else does, and the client holds no
  other address; the invariant is kept.\<close>

theorem add_lease_exclusive:
  assumes "lt_ok ls" and "length c = 16" and "a \<noteq> 0" and "c \<noteq> blank_chaddr"
    and "fst (add_lease now c a t h ls) \<noteq> None"
  shows "let ls' = snd (add_lease now c a t h ls) in lt_ok ls' \<and> held ls' a c
    \<and> (\<forall>c'. held ls' a c' \<longrightarrow> c' = c) \<and> (\<forall>a'. held ls' a' c \<longrightarrow> a' = a)"
  using lt.add_exclusive [OF assms(1-4), of now t h] lt.add_inv [OF assms(1,2), of now t h a] assms(5)
  by (simp add: add_to_def Let_def)

theorem add_lease_exclusive_witness:
  "fst (add_lease 1000 (replicate 16 7) 0x0A000064 60 None (replicate 3 blank_lease)) = Some 0
   \<and> held (snd (add_lease 1000 (replicate 16 7) 0x0A000064 60 None (replicate 3 blank_lease))) 0x0A000064 (replicate 16 7)"
proof -
  have 0: "fst (add_lease 1000 (replicate 16 7) 0x0A000064 60 None (replicate 3 blank_lease)) = Some 0"
    by (simp add: add_lease_def Let_def clear_lease_def oldest_expired_lease_def blank_lease_def numeral_3_eq_3)
  have "replicate 16 (7 :: u8) \<noteq> blank_chaddr" by (simp add: blank_chaddr_def)
  with add_lease_exclusive [OF blank_table_ok, of "replicate 16 7" "0x0A000064" 1000 60 None 3] 0
  show ?thesis by (simp add: Let_def)
qed

text \<open>Claim C34: with a range that ends in 255.255.255.255 the address search need not end: when every address
  answers the probe, the loop runs for ever, because its unsigned counter can never exceed the end.\<close>

theorem find_address_diverges:
  assumes "sc_end cfg = - 1" and "\<forall>a. answers a"
  shows "find_address now answers cfg st check_expired ls = None"
proof (cases "find_address now answers cfg st check_expired ls")
  case (Some r)
  then show ?thesis using find_address_returns_silent assms unfolding find_address_def by blast
qed

theorem find_address_diverges_witness:
  "find_address 1000 (\<lambda>_. True) (example_cfg\<lparr>sc_end := - 1\<rparr>) [] True (replicate 3 blank_lease) = None"
  by (rule find_address_diverges) simp_all

end
