(* ===== verification/Dhcp_Server.thy ===== *)
theory Dhcp_Server
  imports Dhcp_Packet Dhcp_Leases
begin

text \<open>
  The DHCP server: the replies of \<^verbatim>\<open>udhcpcd/serverpacket.c\<close> and the main loop of
  \<^verbatim>\<open>udhcpcd/dhcpd.c\<close>. A handler takes the configuration, the static leases, the environment of one
  message (the time, the ARP answers, the bytes behind the message, what the socket calls return)
  and the lease table; it returns the messages handed to the kernel and the new table. \<open>None\<close> means
  that \<^verbatim>\<open>find_address\<close> does not end or that an unchecked option writer leaves the message.
  The results: the table's invariant holds for every sequence of messages, no handler touches an
  unexpired lease of another client, and what is acknowledged is what the table says.
\<close>

section \<open>Replies\<close>

record srv_env =
  se_now :: u32
  se_answers :: "u32 \<Rightarrow> bool"
  se_junk :: mem
  se_raw :: raw_env
  se_kernel :: kernel_env

datatype srv_out = SendRelay dhcpMessage "kernel_dgram option" | SendClient dhcpMessage "raw_frame option" | WriteLeases

unbundle bit_operations_syntax

definition send_packet_to_relay :: "server_config \<Rightarrow> srv_env \<Rightarrow> dhcpMessage \<Rightarrow> int \<times> srv_out list" where
  "send_packet_to_relay cfg env payload =
     (let (r, d) = kernel_packet (se_kernel env) payload (sc_server cfg) SERVER_PORT (giaddr payload) SERVER_PORT
      in (r, [SendRelay payload d]))"

definition send_packet_to_client :: "server_config \<Rightarrow> srv_env \<Rightarrow> dhcpMessage \<Rightarrow> bool \<Rightarrow> int \<times> srv_out list" where
  "send_packet_to_client cfg env payload force_broadcast =
     (let (ci, ch) = (if force_broadcast then (INADDR_BROADCAST, MAC_BCAST_ADDR)
          else if ciaddr payload \<noteq> 0 then (ciaddr payload, chaddr payload)
          else if ntohs (flags payload) AND BROADCAST_FLAG \<noteq> 0 then (INADDR_BROADCAST, MAC_BCAST_ADDR)
          else (yiaddr payload, chaddr payload));
        (r, f) = raw_packet (se_raw env) payload (sc_server cfg) SERVER_PORT ci CLIENT_PORT ch (sc_ifindex cfg)
      in (r, [SendClient payload f]))"

definition send_packet :: "server_config \<Rightarrow> srv_env \<Rightarrow> dhcpMessage \<Rightarrow> bool \<Rightarrow> int \<times> srv_out list" where
  "send_packet cfg env payload force_broadcast =
     (if giaddr payload \<noteq> 0 then send_packet_to_relay cfg env payload
      else send_packet_to_client cfg env payload force_broadcast)"

definition init_packet :: "server_config \<Rightarrow> dhcpMessage \<Rightarrow> u8 \<Rightarrow> dhcpMessage option" where
  "init_packet cfg oldpacket type = do {
     p \<leftarrow> init_header type;
     pkt_add_simple (p\<lparr>xid := xid oldpacket, chaddr := chaddr oldpacket, flags := flags oldpacket,
       giaddr := giaddr oldpacket, ciaddr := ciaddr oldpacket\<rparr>) DHCP_SERVER_ID (sc_server cfg) }"

definition add_bootp_options :: "server_config \<Rightarrow> dhcpMessage \<Rightarrow> dhcpMessage option" where
  "add_bootp_options cfg p = do {
     let p = p\<lparr>siaddr := sc_siaddr cfg\<rparr>;
     p \<leftarrow> (case sc_sname cfg of None \<Rightarrow> Some p
        | Some n \<Rightarrow> do { b \<leftarrow> strncpy (sname p) n 63; Some (p\<lparr>sname := b\<rparr>) });
     (case sc_boot_file cfg of None \<Rightarrow> Some p
        | Some n \<Rightarrow> do { b \<leftarrow> strncpy (bfile p) n 127; Some (p\<lparr>bfile := b\<rparr>) }) }"

text \<open>The loop over the configured options, which all reply functions have.\<close>

fun add_config_options :: "u8 list list \<Rightarrow> dhcpMessage \<Rightarrow> dhcpMessage option" where
  "add_config_options [] p = Some p"
| "add_config_options (d # ds) p = do {
     c \<leftarrow> rd d OPT_CODE;
     p \<leftarrow> (if c \<noteq> DHCP_LEASE_TIME then map_option snd (pkt_add p d) else Some p);
     add_config_options ds p }"

text \<open>The copy of the host name option into a 256 byte buffer, terminated.\<close>

definition host_name_of :: "mem \<Rightarrow> u8 list option" where
  "host_name_of m = map_option (\<lambda>k. map m [k..<k + unat (m (k - 1))] @ [0]) (get_option m DHCP_HOST_NAME)"

text \<open>The three stages of an offer to a dynamic client: the address and time taken from the client's
  entry or its wish, the search of the pool, and the lease time.\<close>

definition offer_addr :: "server_config \<Rightarrow> lease list \<Rightarrow> srv_env \<Rightarrow> dhcpMessage \<Rightarrow> lease list \<Rightarrow> u32 \<times> u32" where
  "offer_addr cfg st env old ls = (case find_lease_by_chaddr (chaddr old) ls of
      Some i \<Rightarrow> (if \<not> lease_expired (se_now env) (ls ! i) then l_expires (ls ! i) - se_now env else sc_lease cfg,
        l_yiaddr (ls ! i))
    | None \<Rightarrow> (sc_lease cfg, (case get_option (pkt_mem (se_junk env) old) DHCP_REQUESTED_IP of
        None \<Rightarrow> 0
      | Some k \<Rightarrow> let req_align = get_u32 (pkt_mem (se_junk env) old) k in
          if ntohl req_align \<ge> ntohl (sc_start cfg) \<and> ntohl req_align \<le> ntohl (sc_end cfg)
            \<and> find_static_lease_by_yiaddr req_align st = None
            \<and> (case find_lease_by_yiaddr req_align ls of None \<Rightarrow> True
               | Some i \<Rightarrow> lease_expired (se_now env) (ls ! i))
          then req_align else 0)))"

definition offer_search :: "server_config \<Rightarrow> lease list \<Rightarrow> srv_env \<Rightarrow> u32 \<Rightarrow> lease list \<Rightarrow> (u32 \<times> lease list) option" where
  "offer_search cfg st env addr ls = (if addr \<noteq> 0 then Some (addr, ls) else do {
     (a, ls) \<leftarrow> find_address (se_now env) (se_answers env) cfg st False ls;
     if a = 0 then find_address (se_now env) (se_answers env) cfg st True ls else Some (a, ls) })"

definition offer_time :: "server_config \<Rightarrow> mem \<Rightarrow> u32 \<Rightarrow> u32" where
  "offer_time cfg m t =
     (let t = (case get_option m DHCP_LEASE_TIME of None \<Rightarrow> t
        | Some k \<Rightarrow> if ntohl (get_u32 m k) > sc_lease cfg then sc_lease cfg else ntohl (get_u32 m k))
      in if t < sc_min_lease cfg then sc_lease cfg else t)"

definition sendOffer :: "server_config \<Rightarrow> lease list \<Rightarrow> srv_env \<Rightarrow> dhcpMessage \<Rightarrow> lease list \<Rightarrow>
    (int \<times> srv_out list \<times> lease list) option" where
  "sendOffer cfg st env oldpacket ls = do {
     let m = pkt_mem (se_junk env) oldpacket;
     p \<leftarrow> init_packet cfg oldpacket DHCPOFFER;
     case find_static_lease_by_chaddr (chaddr oldpacket) st of
       Some k \<Rightarrow> do {
         p \<leftarrow> pkt_add_simple (p\<lparr>yiaddr := l_yiaddr (st ! k)\<rparr>) DHCP_LEASE_TIME 0xFFFFFFFF;
         p \<leftarrow> add_config_options (sc_options cfg) p;
         p \<leftarrow> add_bootp_options cfg p;
         let (r, out) = send_packet cfg env p False;
         Some (r, out, ls) }
     | None \<Rightarrow> do {
         let (lease_time_align, addr) = offer_addr cfg st env oldpacket ls;
         (yi, ls) \<leftarrow> offer_search cfg st env addr ls;
         if yi = 0 then Some (-1, [], ls) else do {
           let (r, ls) = add_lease (se_now env) (chaddr p) yi (sc_offer_time cfg) (host_name_of m) ls;
           if r = None then Some (-1, [], ls) else do {
             p \<leftarrow> pkt_add_simple (p\<lparr>yiaddr := yi\<rparr>) DHCP_LEASE_TIME (htonl (offer_time cfg m lease_time_align));
             p \<leftarrow> add_config_options (sc_options cfg) p;
             p \<leftarrow> add_bootp_options cfg p;
             let (r, out) = send_packet cfg env p False;
             Some (r, out, ls) } } } }"

definition sendNAK :: "server_config \<Rightarrow> srv_env \<Rightarrow> dhcpMessage \<Rightarrow> (int \<times> srv_out list) option" where
  "sendNAK cfg env oldpacket = do {
     p \<leftarrow> init_packet cfg oldpacket DHCPNAK;
     Some (send_packet cfg env p True) }"

definition ack_lease_time :: "server_config \<Rightarrow> mem \<Rightarrow> u32" where
  "ack_lease_time cfg m = (case get_option m DHCP_LEASE_TIME of
     None \<Rightarrow> sc_lease cfg
   | Some k \<Rightarrow> let t = ntohl (get_u32 m k) in
       if t \<noteq> 0xFFFFFFFF \<and> t > sc_lease cfg then sc_lease cfg
       else if t < sc_min_lease cfg then sc_lease cfg else t)"

definition sendACK :: "server_config \<Rightarrow> srv_env \<Rightarrow> dhcpMessage \<Rightarrow> u32 \<Rightarrow> lease list \<Rightarrow>
    (int \<times> srv_out list \<times> lease list) option" where
  "sendACK cfg env oldpacket yi ls = do {
     let m = pkt_mem (se_junk env) oldpacket;
     p \<leftarrow> init_packet cfg oldpacket DHCPACK;
     let lease_time_align = ack_lease_time cfg m;
     p \<leftarrow> pkt_add_simple (p\<lparr>yiaddr := yi\<rparr>) DHCP_LEASE_TIME (htonl lease_time_align);
     p \<leftarrow> add_config_options (sc_options cfg) p;
     p \<leftarrow> add_bootp_options cfg p;
     let (r, out) = send_packet cfg env p False;
     if r < 0 then Some (-1, out, ls)
     else if lease_time_align \<noteq> 0xFFFFFFFF then
       (let (k, ls) = add_lease (se_now env) (chaddr p) (yiaddr p) lease_time_align (host_name_of m) ls;
          ls = (case k of None \<Rightarrow> ls | Some i \<Rightarrow> ls[i := (ls ! i)\<lparr>l_ACKed := 1\<rparr>])
        in Some (0, out @ [WriteLeases], ls))
     else Some (0, out, ls) }"

definition send_inform :: "server_config \<Rightarrow> srv_env \<Rightarrow> dhcpMessage \<Rightarrow> (int \<times> srv_out list) option" where
  "send_inform cfg env oldpacket = do {
     p \<leftarrow> init_packet cfg oldpacket DHCPACK;
     p \<leftarrow> add_config_options (sc_options cfg) p;
     p \<leftarrow> add_bootp_options cfg p;
     Some (send_packet cfg env p False) }"

section \<open>Dispatch\<close>

text \<open>The loop drops the results of the reply functions.\<close>

definition nak :: "server_config \<Rightarrow> srv_env \<Rightarrow> dhcpMessage \<Rightarrow> lease list \<Rightarrow> (srv_out list \<times> lease list) option" where
  "nak cfg env pkt ls = map_option (\<lambda>(r, out). (out, ls)) (sendNAK cfg env pkt)"

definition ack :: "server_config \<Rightarrow> srv_env \<Rightarrow> dhcpMessage \<Rightarrow> u32 \<Rightarrow> lease list \<Rightarrow> (srv_out list \<times> lease list) option" where
  "ack cfg env pkt yi ls = map_option (\<lambda>(r, out, ls). (out, ls)) (sendACK cfg env pkt yi ls)"

definition handle_dynamic :: "server_config \<Rightarrow> lease list \<Rightarrow> srv_env \<Rightarrow> dhcpMessage \<Rightarrow> nat option \<Rightarrow> u32 option \<Rightarrow>
    u32 option \<Rightarrow> lease list \<Rightarrow> (srv_out list \<times> lease list) option" where
  "handle_dynamic cfg st env pkt lease requested server_id ls =
     (case lease of
        Some i \<Rightarrow>
          (case server_id of
             Some sid \<Rightarrow>
               if sid = sc_server cfg \<and> requested = Some (l_yiaddr (ls ! i))
               then ack cfg env pkt (l_yiaddr (ls ! i)) ls else Some ([], ls)
           | None \<Rightarrow>
               (case requested of
                  Some rq \<Rightarrow> if l_yiaddr (ls ! i) = rq then ack cfg env pkt (l_yiaddr (ls ! i)) ls
                    else nak cfg env pkt ls
                | None \<Rightarrow> if l_yiaddr (ls ! i) = ciaddr pkt then ack cfg env pkt (l_yiaddr (ls ! i)) ls
                    else nak cfg env pkt ls))
      | None \<Rightarrow>
          if server_id \<noteq> None then Some ([], ls)
          else (case requested of
              Some rq \<Rightarrow>
                if find_static_lease_by_yiaddr rq st \<noteq> None then nak cfg env pkt ls
                else (case find_lease_by_yiaddr rq ls of
                    Some i \<Rightarrow>
                      if lease_expired (se_now env) (ls ! i)
                      then Some ([], ls[i := (ls ! i)\<lparr>l_chaddr := blank_chaddr\<rparr>])
                      else nak cfg env pkt ls
                  | None \<Rightarrow>
                      if rq < sc_start cfg \<or> rq > sc_end cfg then nak cfg env pkt ls
                      else nak cfg env pkt ls)
            | None \<Rightarrow> if ciaddr pkt \<noteq> 0 then nak cfg env pkt ls else Some ([], ls)))"

definition handle_request :: "server_config \<Rightarrow> lease list \<Rightarrow> srv_env \<Rightarrow> dhcpMessage \<Rightarrow> nat option \<Rightarrow> lease list \<Rightarrow>
    (srv_out list \<times> lease list) option" where
  "handle_request cfg st env pkt lease ls =
     (let m = pkt_mem (se_junk env) pkt;
        requested = map_option (get_u32 m) (get_option m DHCP_REQUESTED_IP);
        server_id = map_option (get_u32 m) (get_option m DHCP_SERVER_ID) in
      case find_static_lease_by_chaddr (chaddr pkt) st of
        Some k \<Rightarrow>
          if server_id = Some (sc_server cfg) then
            (if requested = Some (l_yiaddr (st ! k)) then do {
               pkt \<leftarrow> pkt_add_simple pkt DHCP_LEASE_TIME 0xFFFFFFFF;
               ack cfg env pkt (l_yiaddr (st ! k)) ls }
             else nak cfg env pkt ls)
          else handle_dynamic cfg st env pkt lease requested server_id ls
      | None \<Rightarrow> handle_dynamic cfg st env pkt lease requested server_id ls)"

text \<open>The \<^verbatim>\<open>switch\<close> on the message type. A pointer to the record of the client, if it has one, is
  looked up first.\<close>

definition handle_packet :: "server_config \<Rightarrow> lease list \<Rightarrow> srv_env \<Rightarrow> dhcpMessage \<Rightarrow> lease list \<Rightarrow>
    (srv_out list \<times> lease list) option" where
  "handle_packet cfg st env pkt ls =
     (let m = pkt_mem (se_junk env) pkt in
      case get_option m DHCP_MESSAGE_TYPE of
        None \<Rightarrow> Some ([], ls)
      | Some k \<Rightarrow>
          let lease = find_lease_by_chaddr (chaddr pkt) ls in
          if m k = DHCPDISCOVER then
            map_option (\<lambda>(r, out, ls). (out, ls)) (sendOffer cfg st env pkt ls)
          else if m k = DHCPREQUEST then handle_request cfg st env pkt lease ls
          else if m k = DHCPDECLINE then
            Some ([], case lease of None \<Rightarrow> ls
              | Some i \<Rightarrow> ls[i := (ls ! i)\<lparr>l_chaddr := blank_chaddr, l_expires := se_now env + sc_decline_time cfg\<rparr>])
          else if m k = DHCPRELEASE then
            Some ([], case lease of None \<Rightarrow> ls
              | Some i \<Rightarrow> ls[i := (ls ! i)\<lparr>l_expires := se_now env\<rparr>])
          else if m k = DHCPINFORM then
            map_option (\<lambda>(r, out). (out, ls)) (send_inform cfg env pkt)
          else Some ([], ls))"

section \<open>The main loop\<close>

record dhcpd_state =
  ds_socket :: int
  ds_timeout_end :: u32
  ds_leases :: "lease list"

text \<open>What one pass of the loop receives from the kernel: \<open>in_eintr\<close> and \<open>in_rd_eintr\<close> say whether \<^verbatim>\<open>select\<close> and
  \<^verbatim>\<open>read\<close> failed with \<^verbatim>\<open>EINTR\<close>. \<open>in_sig\<close> is the state of the signal
  descriptor in the set \<^verbatim>\<open>select\<close> returns and the signal number read (\<open>None\<close>: the read failed).\<close>

record loop_in =
  in_env :: srv_env
  in_listen :: int
  in_select :: int
  in_eintr :: bool
  in_rd_eintr :: bool
  in_sig_ready :: bool
  in_sig :: "int option"
  in_rcv :: "u8 list option"

datatype dhcpd_res = Running dhcpd_state "srv_out list" | Exited int

definition reset_timeout :: "server_config \<Rightarrow> srv_env \<Rightarrow> dhcpd_state \<Rightarrow> dhcpd_state" where
  "reset_timeout cfg env s = s\<lparr>ds_timeout_end := se_now env + sc_auto_time cfg\<rparr>"

definition serve_packet :: "server_config \<Rightarrow> lease list \<Rightarrow> loop_in \<Rightarrow> dhcpd_state \<Rightarrow> dhcpd_res option" where
  "serve_packet cfg st inp s =
     (let env = in_env inp; (bytes, pkt) = get_packet (se_junk env) (in_rcv inp) in
      if bytes < 0 then
        Some (Running (if bytes = -1 \<and> \<not> in_rd_eintr inp then s\<lparr>ds_socket := -1\<rparr> else s) [])
      else do {
        (out, ls) \<leftarrow> handle_packet cfg st env pkt (ds_leases s);
        Some (Running (s\<lparr>ds_leases := ls\<rparr>) out) })"

definition dhcpd_iter :: "server_config \<Rightarrow> lease list \<Rightarrow> loop_in \<Rightarrow> dhcpd_state \<Rightarrow> dhcpd_res option" where
  "dhcpd_iter cfg st inp s =
     (let env = in_env inp;
        s = (if ds_socket s < 0 then s\<lparr>ds_socket := in_listen inp\<rparr> else s) in
      if ds_socket s < 0 then Some (Exited 0)
      else
        let tv = ds_timeout_end s - se_now env;
          retval = (if sc_auto_time cfg = 0 \<or> sint tv > 0 then in_select inp else 0) in
        if retval = 0 then Some (Running (reset_timeout cfg env s) [WriteLeases])
        else if retval < 0 \<and> \<not> in_eintr inp then Some (Running s [])
        else if in_sig_ready inp then
          (case in_sig inp of
             None \<Rightarrow> Some (Running s [])
           | Some sig \<Rightarrow>
               if sig = SIGUSR1 then Some (Running (reset_timeout cfg env s) [WriteLeases])
               else if sig = SIGTERM then Some (Exited 0)
               else serve_packet cfg st inp s)
        else serve_packet cfg st inp s)"

text \<open>The loop over the passes, as long as it runs.\<close>

fun dhcpd_loop :: "server_config \<Rightarrow> lease list \<Rightarrow> loop_in list \<Rightarrow> dhcpd_state \<Rightarrow> (srv_out list \<times> dhcpd_state) option" where
  "dhcpd_loop cfg st [] s = Some ([], s)"
| "dhcpd_loop cfg st (inp # inps) s = do {
     r \<leftarrow> dhcpd_iter cfg st inp s;
     case r of Exited _ \<Rightarrow> Some ([], s)
     | Running s out \<Rightarrow> do {
         (out', s) \<leftarrow> dhcpd_loop cfg st inps s;
         Some (out @ out', s) } }"

section \<open>Building a reply never fails\<close>

definition cfg_ok :: "server_config \<Rightarrow> bool" where
  "cfg_ok cfg \<longleftrightarrow> (\<exists>os. sc_options cfg = map enc_opt os \<and> list_all opt_ok os)"

lemma init_packet_rep:
  assumes "length (chaddr old) = 16"
  shows "\<exists>p. init_packet cfg old type = Some p
    \<and> pkt_rep p [(DHCP_MESSAGE_TYPE, [type]), (DHCP_SERVER_ID, be32 (sc_server cfg))]
    \<and> xid p = xid old \<and> chaddr p = chaddr old \<and> flags p = flags old \<and> giaddr p = giaddr old
    \<and> ciaddr p = ciaddr old \<and> cookie p = DHCP_MAGIC"
proof -
  obtain p where p: "init_header type = Some p" "pkt_rep p [(DHCP_MESSAGE_TYPE, [type])]"
    "p = zero_pkt\<lparr>op := op p, htype := ETH_10MB, hlen := ETH_10MB_LEN, cookie := DHCP_MAGIC, options := options p\<rparr>"
    using init_header_rep [of type] by blast
  define q where "q = p\<lparr>xid := xid old, chaddr := chaddr old, flags := flags old,
       giaddr := giaddr old, ciaddr := ciaddr old\<rparr>"
  have "pkt_rep q [(DHCP_MESSAGE_TYPE, [type])]"
    using p(2) assms by (simp add: q_def pkt_rep_def wf_pkt_def)
  moreover have "opt_fits [(DHCP_MESSAGE_TYPE, [type])] (simple_data DHCP_SERVER_ID (sc_server cfg))"
    "simple_data DHCP_SERVER_ID (sc_server cfg) = be32 (sc_server cfg)"
    by (simp_all add: opt_fits_def simple_data_def)
  ultimately obtain p' where p': "pkt_add_simple q DHCP_SERVER_ID (sc_server cfg) = Some p'"
      "pkt_rep p' [(DHCP_MESSAGE_TYPE, [type]), (DHCP_SERVER_ID, be32 (sc_server cfg))]"
      "p' = q\<lparr>options := options p'\<rparr>"
    using pkt_add_simple_rep [of q _ DHCP_SERVER_ID "sc_server cfg"] by fastforce
  have "cookie p = DHCP_MAGIC" by (subst p(3)) simp
  then show ?thesis
    using p(1) p'(1,2) same_hdr_options [OF p'(3)] by (simp add: init_packet_def q_def same_hdr_def)
qed

lemma add_config_options_rep:
  assumes "pkt_rep p os" and "list_all opt_ok cs"
  shows "\<exists>p' os'. add_config_options (map enc_opt cs) p = Some p' \<and> pkt_rep p' (os @ os') \<and> same_hdr p p'
    \<and> set os' \<subseteq> {x \<in> set cs. fst x \<noteq> DHCP_LEASE_TIME}"
  using assms
proof (induction cs arbitrary: p os)
  case Nil
  then show ?case by (auto simp: same_hdr_def intro: exI [of _ "[]"])
next
  case (Cons x cs)
  obtain c d where x: "x = (c, d)" by (cases x)
  have rdc: "rd (enc_opt x) OPT_CODE = Some c" by (simp add: x rd_def OPT_CODE_def)
  have ok: "opt_ok (c, d)" "list_all opt_ok cs" using Cons.prems(2) x by simp_all
  obtain p1 os1 where p1: "(if c \<noteq> DHCP_LEASE_TIME then map_option snd (pkt_add p (enc_opt x)) else Some p) = Some p1"
      "pkt_rep p1 (os @ os1)" "same_hdr p p1" "set os1 \<subseteq> {y. y = x \<and> fst y \<noteq> DHCP_LEASE_TIME}"
  proof (cases "c = DHCP_LEASE_TIME")
    case True
    then show ?thesis using that [of p "[]"] Cons.prems(1) by (simp add: same_hdr_def)
  next
    case False
    obtain n p' where n: "pkt_add p (enc_opt (c, d)) = Some (n, p')"
        "pkt_rep p' (os @ (if opt_fits os d then [(c, d)] else []))" and eq: "p' = p\<lparr>options := options p'\<rparr>"
      using pkt_add_string_rep [OF Cons.prems(1) ok(1)] by blast
    have "set (if opt_fits os d then [(c, d)] else []) \<subseteq> {y. y = x \<and> fst y \<noteq> DHCP_LEASE_TIME}"
      using False x by auto
    moreover have "(if c \<noteq> DHCP_LEASE_TIME then map_option snd (pkt_add p (enc_opt x)) else Some p) = Some p'"
      unfolding x n(1) using False by simp
    ultimately show ?thesis using that n(2) same_hdr_options [OF eq] by blast
  qed
  obtain p' os' where p': "add_config_options (map enc_opt cs) p1 = Some p'" "pkt_rep p' ((os @ os1) @ os')"
      "same_hdr p1 p'" "set os' \<subseteq> {x \<in> set cs. fst x \<noteq> DHCP_LEASE_TIME}"
    using Cons.IH [OF p1(2) ok(2)] by blast
  have "add_config_options (map enc_opt (x # cs)) p = Some p'" using rdc p1(1) p'(1) by simp
  moreover have "set (os1 @ os') \<subseteq> {y \<in> set (x # cs). fst y \<noteq> DHCP_LEASE_TIME}" using p1(4) p'(4) by auto
  moreover have "pkt_rep p' (os @ (os1 @ os'))" using p'(2) by simp
  ultimately show ?case using same_hdr_trans [OF p1(3) p'(3)] by blast
qed

lemma add_bootp_options_rep:
  assumes "pkt_rep p os"
  shows "\<exists>p'. add_bootp_options cfg p = Some p' \<and> pkt_rep p' os \<and> same_hdr p p'"
proof -
  have l: "length (sname p) = 64" "length (bfile p) = 128" using assms by (simp_all add: pkt_rep_def wf_pkt_def)
  define sn where "sn = (case sc_sname cfg of None \<Rightarrow> sname p | Some n \<Rightarrow> take 63 (cstr n @ replicate 63 0) @ drop 63 (sname p))"
  define bf where "bf = (case sc_boot_file cfg of None \<Rightarrow> bfile p | Some n \<Rightarrow> take 127 (cstr n @ replicate 127 0) @ drop 127 (bfile p))"
  have "add_bootp_options cfg p = Some (p\<lparr>siaddr := sc_siaddr cfg, sname := sn, bfile := bf\<rparr>)"
    using l by (auto simp: add_bootp_options_def Let_def sn_def bf_def strncpy_Some split: option.split)
  moreover have "length sn = 64" "length bf = 128" using l by (auto simp: sn_def bf_def split: option.split)
  ultimately show ?thesis using assms by (simp add: pkt_rep_def wf_pkt_def same_hdr_def)
qed

text \<open>The messages in an output.\<close>

fun sent_msgs :: "srv_out list \<Rightarrow> dhcpMessage list" where
  "sent_msgs [] = []"
| "sent_msgs (SendRelay p _ # out) = p # sent_msgs out"
| "sent_msgs (SendClient p _ # out) = p # sent_msgs out"
| "sent_msgs (WriteLeases # out) = sent_msgs out"

lemma sent_msgs_append [simp]: "sent_msgs (a @ b) = sent_msgs a @ sent_msgs b"
  by (induction a rule: sent_msgs.induct) auto

lemma send_packet_msgs [simp]: "sent_msgs (snd (send_packet cfg env p b)) = [p]"
  by (simp add: send_packet_def send_packet_to_relay_def send_packet_to_client_def Let_def split: prod.split)

text \<open>A reply in good form for a message: addressed to its sender, carrying type \<open>t\<close> and the
  server's identity.\<close>

definition reply_ok :: "server_config \<Rightarrow> dhcpMessage \<Rightarrow> u8 \<Rightarrow> dhcpMessage \<Rightarrow> bool" where
  "reply_ok cfg old t p \<longleftrightarrow> (\<exists>os. pkt_rep p os \<and> map_of os DHCP_MESSAGE_TYPE = Some [t] \<and>
     map_of os DHCP_SERVER_ID = Some (be32 (sc_server cfg))) \<and>
     xid p = xid old \<and> chaddr p = chaddr old \<and> flags p = flags old \<and> giaddr p = giaddr old \<and>
     ciaddr p = ciaddr old \<and> cookie p = DHCP_MAGIC"

lemma reply_ok_type: "reply_ok cfg old t p \<Longrightarrow> opt_data (pkt_mem junk p) DHCP_MESSAGE_TYPE = Some [t]"
  unfolding reply_ok_def using opt_data_opts [of p _ DHCP_MESSAGE_TYPE junk] by auto

text \<open>The three steps every offer and acknowledgement goes through.\<close>

lemma build_reply:
  assumes p: "pkt_rep p [(DHCP_MESSAGE_TYPE, [t]), (DHCP_SERVER_ID, be32 (sc_server cfg))]" and c: "cfg_ok cfg"
  shows "\<exists>p1 p2 p3. pkt_add_simple p DHCP_LEASE_TIME x = Some p1
    \<and> add_config_options (sc_options cfg) p1 = Some p2 \<and> add_bootp_options cfg p2 = Some p3
    \<and> same_hdr p p3 \<and> (\<exists>os. pkt_rep p3 os \<and> map_of os DHCP_MESSAGE_TYPE = Some [t]
      \<and> map_of os DHCP_SERVER_ID = Some (be32 (sc_server cfg)) \<and> map_of os DHCP_LEASE_TIME = Some (be32 x))"
proof -
  obtain cs where cs: "sc_options cfg = map enc_opt cs" "list_all opt_ok cs" using c by (auto simp: cfg_ok_def)
  let ?os = "[(DHCP_MESSAGE_TYPE, [t]), (DHCP_SERVER_ID, be32 (sc_server cfg)), (DHCP_LEASE_TIME, be32 x)]"
  have "opt_fits [(DHCP_MESSAGE_TYPE, [t]), (DHCP_SERVER_ID, be32 (sc_server cfg))] (simple_data DHCP_LEASE_TIME x)"
    "simple_data DHCP_LEASE_TIME x = be32 x"
    by (simp_all add: opt_fits_def simple_data_def)
  then obtain p1 where p1: "pkt_add_simple p DHCP_LEASE_TIME x = Some p1" "pkt_rep p1 ?os"
      "p1 = p\<lparr>options := options p1\<rparr>"
    using pkt_add_simple_rep [OF p, of DHCP_LEASE_TIME x] by fastforce
  obtain p2 os2 where p2: "add_config_options (sc_options cfg) p1 = Some p2" "pkt_rep p2 (?os @ os2)" "same_hdr p1 p2"
    using add_config_options_rep [OF p1(2) cs(2)] cs(1) by auto
  obtain p3 where p3: "add_bootp_options cfg p2 = Some p3" "pkt_rep p3 (?os @ os2)" "same_hdr p2 p3"
    using add_bootp_options_rep [OF p2(2)] by blast
  have "same_hdr p p3" using same_hdr_options [OF p1(3)] p2(3) p3(3) same_hdr_trans by blast
  moreover have "map_of (?os @ os2) DHCP_MESSAGE_TYPE = Some [t]"
    "map_of (?os @ os2) DHCP_SERVER_ID = Some (be32 (sc_server cfg))"
    "map_of (?os @ os2) DHCP_LEASE_TIME = Some (be32 x)"
    by (simp_all add: opt_codes)
  ultimately show ?thesis using p1(1) p2(1) p3(1,2) by blast
qed

lemma sendNAK_ok:
  assumes "length (chaddr old) = 16"
  shows "\<exists>r out p. sendNAK cfg env old = Some (r, out) \<and> sent_msgs out = [p] \<and> reply_ok cfg old DHCPNAK p"
proof -
  obtain p where p: "init_packet cfg old DHCPNAK = Some p"
      "pkt_rep p [(DHCP_MESSAGE_TYPE, [DHCPNAK]), (DHCP_SERVER_ID, be32 (sc_server cfg))]"
      "xid p = xid old \<and> chaddr p = chaddr old \<and> flags p = flags old \<and> giaddr p = giaddr old
       \<and> ciaddr p = ciaddr old \<and> cookie p = DHCP_MAGIC"
    using init_packet_rep [OF assms] by blast
  have "reply_ok cfg old DHCPNAK p"
    unfolding reply_ok_def using p(2,3) by (intro conjI exI) (assumption, simp_all add: opt_codes)
  moreover have "sendNAK cfg env old = Some (fst (send_packet cfg env p True), snd (send_packet cfg env p True))"
    by (simp add: sendNAK_def p(1))
  ultimately show ?thesis using send_packet_msgs by blast
qed

lemma send_inform_ok:
  assumes "length (chaddr old) = 16" and c: "cfg_ok cfg"
  shows "\<exists>r out p. send_inform cfg env old = Some (r, out) \<and> sent_msgs out = [p] \<and> reply_ok cfg old DHCPACK p"
proof -
  obtain cs where cs: "sc_options cfg = map enc_opt cs" "list_all opt_ok cs" using c by (auto simp: cfg_ok_def)
  let ?os = "[(DHCP_MESSAGE_TYPE, [DHCPACK]), (DHCP_SERVER_ID, be32 (sc_server cfg))]"
  obtain p where p: "init_packet cfg old DHCPACK = Some p" "pkt_rep p ?os"
      "xid p = xid old \<and> chaddr p = chaddr old \<and> flags p = flags old \<and> giaddr p = giaddr old
       \<and> ciaddr p = ciaddr old \<and> cookie p = DHCP_MAGIC"
    using init_packet_rep [OF assms(1)] by blast
  obtain p2 os2 where p2: "add_config_options (sc_options cfg) p = Some p2" "pkt_rep p2 (?os @ os2)" "same_hdr p p2"
    using add_config_options_rep [OF p(2) cs(2)] cs(1) by auto
  obtain p3 where p3: "add_bootp_options cfg p2 = Some p3" "pkt_rep p3 (?os @ os2)" "same_hdr p2 p3"
    using add_bootp_options_rep [OF p2(2)] by blast
  have "reply_ok cfg old DHCPACK p3"
    unfolding reply_ok_def
    using p3(2) same_hdr_trans [OF p2(3) p3(3)] p(3) unfolding same_hdr_def
    by (intro conjI exI [of _ "?os @ os2"]) (simp_all add: opt_codes)
  moreover have "send_inform cfg env old = Some (fst (send_packet cfg env p3 False), snd (send_packet cfg env p3 False))"
    by (simp add: send_inform_def p(1) p2(1) p3(1))
  ultimately show ?thesis using send_packet_msgs by blast
qed

section \<open>What the handlers do to the table\<close>

lemma length_ch_upd: "lt_ok ls \<Longrightarrow> i < length ls \<Longrightarrow> length (l_chaddr (ls ! i)) = 16"
  using lt_okD(1) by (auto simp: wf_lease_def)

text \<open>Writing a record that keeps its client and address, or blanks the client, keeps the invariant.\<close>

lemma lt_ok_update:
  assumes ok: "lt_ok ls" and i: "i < length ls"
    and e: "wf_lease e" "l_yiaddr e = l_yiaddr (ls ! i)" "l_chaddr e \<in> {l_chaddr (ls ! i), blank_chaddr}"
  shows "lt_ok (ls[i := e])"
proof (rule lt_okI)
  fix a assume a: "a < length (ls[i := e])"
  then show "wf_lease (ls[i := e] ! a)" using lt_okD(1) [OF ok] e(1) by (cases "a = i") auto
  fix b assume b: "b < length (ls[i := e])" and ab: "a \<noteq> b"
  have y: "l_yiaddr (ls[i := e] ! m) = l_yiaddr (ls ! m)" if "m < length ls" for m
    using that e(2) by (cases "m = i") auto
  have c: "l_chaddr (ls[i := e] ! m) = l_chaddr (ls ! m) \<or> l_chaddr (ls[i := e] ! m) = blank_chaddr"
    if "m < length ls" for m using that e(3) by (cases "m = i") auto
  have ab': "a < length ls" "b < length ls" using a b by simp_all
  show "(l_yiaddr (ls[i := e] ! a) \<noteq> 0 \<longrightarrow> l_yiaddr (ls[i := e] ! a) \<noteq> l_yiaddr (ls[i := e] ! b)) \<and>
      (l_chaddr (ls[i := e] ! a) \<noteq> blank_chaddr \<longrightarrow> l_chaddr (ls[i := e] ! a) \<noteq> l_chaddr (ls[i := e] ! b))"
    using lt_okD(2,3) [OF ok ab' ab] y [OF ab'(1)] y [OF ab'(2)] c [OF ab'(1)] c [OF ab'(2)] by metis
qed

lemma keeps_update:
  "i < length ls \<Longrightarrow> \<not> Q (ls ! i) \<or> lease_expired now (ls ! i) \<Longrightarrow> keeps now Q ls (ls[i := e])"
  by (auto simp: keeps_def nth_list_update)

text \<open>Adding a lease for a client on an address that only the client, or an expired lease, holds.\<close>

lemma add_keeps_others:
  assumes ok: "lt_ok ls" and ch: "length ch = 16" and Q: "\<And>l. Q l \<Longrightarrow> l_chaddr l \<noteq> ch"
    and own: "\<And>l. l \<in> set ls \<Longrightarrow> l_yiaddr l = yi \<Longrightarrow> yi \<noteq> 0 \<Longrightarrow> Q l \<Longrightarrow> lease_expired now l"
  shows "keeps now Q ls (snd (add_lease now ch yi t h ls))"
  using add_lease_keeps [OF ok ch, of now yi t h] Q own nth_mem unfolding keeps_def by blast

lemma own_address:
  assumes ok: "lt_ok ls" and i: "i < length ls" and l: "l \<in> set ls" "l_yiaddr l = l_yiaddr (ls ! i)" "l_yiaddr (ls ! i) \<noteq> 0"
  shows "l = ls ! i"
proof -
  obtain j where j: "j < length ls" "l = ls ! j" using l(1) by (metis in_set_conv_nth)
  then show ?thesis using lt_okD(2) [OF ok i j(1)] l(2,3) by metis
qed

lemma find_by_chaddr:
  assumes "find_lease_by_chaddr ch ls = Some i" and "lt_ok ls" and "length ch = 16"
  shows "i < length ls \<and> l_chaddr (ls ! i) = ch"
  using find_idx_Some [of _ ls i] assms length_ch_upd [OF assms(2)] unfolding find_lease_by_chaddr_def by fastforce

definition ack_table :: "srv_env \<Rightarrow> dhcpMessage \<Rightarrow> u32 \<Rightarrow> u32 \<Rightarrow> lease list \<Rightarrow> lease list" where
  "ack_table env old yi t ls =
     (case add_lease (se_now env) (chaddr old) yi t (host_name_of (pkt_mem (se_junk env) old)) ls of
        (None, ls1) \<Rightarrow> ls1 | (Some i, ls1) \<Rightarrow> ls1[i := (ls1 ! i)\<lparr>l_ACKed := 1\<rparr>])"

lemma sendACK_eq:
  assumes ch: "length (chaddr old) = 16" and c: "cfg_ok cfg"
    and t: "t = ack_lease_time cfg (pkt_mem (se_junk env) old)"
  shows "\<exists>(r :: int) out p. sent_msgs out = [p] \<and> reply_ok cfg old DHCPACK p \<and> yiaddr p = yi
    \<and> opt_data (pkt_mem junk p) DHCP_LEASE_TIME = Some (be32 t)
    \<and> (giaddr old = 0 \<longrightarrow> re_socket (se_raw env) \<longrightarrow> re_bind (se_raw env) \<longrightarrow> r = re_sendto (se_raw env))
    \<and> sendACK cfg env old yi ls = (if r < 0 then Some (-1, out, ls)
        else if t \<noteq> 0xFFFFFFFF then Some (0, out @ [WriteLeases], ack_table env old yi t ls)
        else Some (0, out, ls))"
proof -
  obtain p where p: "init_packet cfg old DHCPACK = Some p"
      "pkt_rep p [(DHCP_MESSAGE_TYPE, [DHCPACK]), (DHCP_SERVER_ID, be32 (sc_server cfg))]"
      "xid p = xid old \<and> chaddr p = chaddr old \<and> flags p = flags old \<and> giaddr p = giaddr old
       \<and> ciaddr p = ciaddr old \<and> cookie p = DHCP_MAGIC"
    using init_packet_rep [OF ch] by blast
  have py: "pkt_rep (p\<lparr>yiaddr := yi\<rparr>) [(DHCP_MESSAGE_TYPE, [DHCPACK]), (DHCP_SERVER_ID, be32 (sc_server cfg))]"
    using p(2) by (simp add: pkt_rep_def wf_pkt_def)
  obtain p1 p2 p3 os where b: "pkt_add_simple (p\<lparr>yiaddr := yi\<rparr>) DHCP_LEASE_TIME t = Some p1"
      "add_config_options (sc_options cfg) p1 = Some p2" "add_bootp_options cfg p2 = Some p3"
      "same_hdr (p\<lparr>yiaddr := yi\<rparr>) p3" "pkt_rep p3 os" "map_of os DHCP_MESSAGE_TYPE = Some [DHCPACK]"
      "map_of os DHCP_SERVER_ID = Some (be32 (sc_server cfg))" "map_of os DHCP_LEASE_TIME = Some (be32 t)"
    using build_reply [OF py c] by blast
  have p3: "reply_ok cfg old DHCPACK p3" "yiaddr p3 = yi" "chaddr p3 = chaddr old"
    using b(4-7) p(3) unfolding reply_ok_def same_hdr_def by auto
  have lt: "opt_data (pkt_mem junk p3) DHCP_LEASE_TIME = Some (be32 t)"
    using opt_data_opts [OF b(5), of DHCP_LEASE_TIME junk] b(8) by simp
  define r out where "r = fst (send_packet cfg env p3 False)" and "out = snd (send_packet cfg env p3 False)"
  have sp: "send_packet cfg env p3 False = (r, out)" "sent_msgs out = [p3]" by (simp_all add: r_def out_def)
  have "sendACK cfg env old yi ls = (if r < 0 then Some (-1, out, ls)
     else if t \<noteq> 0xFFFFFFFF then Some (0, out @ [WriteLeases], ack_table env old yi t ls)
     else Some (0, out, ls))"
    unfolding sendACK_def Let_def p(1) t [symmetric] htonl_def bind.bind_lunit b(1-3) sp(1) p3(2,3) ack_table_def
    by (simp split: option.split prod.split)
  moreover have "giaddr p3 = giaddr old" using p3(1) by (simp add: reply_ok_def)
  then have "giaddr old = 0 \<longrightarrow> re_socket (se_raw env) \<longrightarrow> re_bind (se_raw env) \<longrightarrow> r = re_sendto (se_raw env)"
    by (simp add: r_def send_packet_def send_packet_to_client_def raw_packet_def Let_def case_prod_beta)
  ultimately show ?thesis using p3 lt sp(2) by blast
qed

lemma ack_table_ok:
  assumes ok: "lt_ok ls" and ch: "length (chaddr old) = 16"
    and Q: "\<And>l. Q l \<Longrightarrow> l_chaddr l \<noteq> chaddr old"
    and own: "\<And>l. l \<in> set ls \<Longrightarrow> l_yiaddr l = yi \<Longrightarrow> yi \<noteq> 0 \<Longrightarrow> Q l \<Longrightarrow> lease_expired (se_now env) l"
  shows "lt_ok (ack_table env old yi t ls) \<and> keeps (se_now env) Q ls (ack_table env old yi t ls)"
proof -
  let ?h = "host_name_of (pkt_mem (se_junk env) old)"
  let ?ls = "snd (add_lease (se_now env) (chaddr old) yi t ?h ls)"
  have 1: "lt_ok ?ls" "keeps (se_now env) Q ls ?ls"
    using add_ok [OF ok ch] add_keeps_others [OF ok ch Q own] by blast+
  show ?thesis
  proof (cases "fst (add_lease (se_now env) (chaddr old) yi t ?h ls)")
    case None
    then have "add_lease (se_now env) (chaddr old) yi t ?h ls = (None, ?ls)" by (metis prod.collapse)
    then show ?thesis using 1 unfolding ack_table_def by (metis (no_types, lifting) old.prod.case option.case(1))
  next
    case (Some i)
    then have al: "add_lease (se_now env) (chaddr old) yi t ?h ls = (Some i, ?ls)" by (metis prod.collapse)
    have i: "i < length ?ls" "l_chaddr (?ls ! i) = chaddr old" using add_found [OF al ch] by simp_all
    have "lt_ok (?ls[i := (?ls ! i)\<lparr>l_ACKed := 1\<rparr>])"
      by (rule lt_ok_update [OF 1(1) i(1)]) (use lt_okD(1) [OF 1(1) i(1)] in \<open>simp_all add: wf_lease_def\<close>)
    moreover have "keeps (se_now env) Q ls (?ls[i := (?ls ! i)\<lparr>l_ACKed := 1\<rparr>])"
      using keeps_trans [OF 1(2) keeps_update [OF i(1)]] i(2) Q by blast
    ultimately show ?thesis unfolding ack_table_def by (subst (1 2) al) simp
  qed
qed

text \<open>The result every handler has: it keeps the invariant and every lease of another client.\<close>

definition handled :: "srv_env \<Rightarrow> (lease \<Rightarrow> bool) \<Rightarrow> lease list \<Rightarrow> (srv_out list \<times> lease list) option \<Rightarrow> bool" where
  "handled env Q ls r \<longleftrightarrow> (\<exists>out ls'. r = Some (out, ls') \<and> lt_ok ls' \<and> keeps (se_now env) Q ls ls')"

lemma nak_ok:
  assumes "lt_ok ls" and "length (chaddr pkt) = 16"
  shows "handled env Q ls (nak cfg env pkt ls)"
  using sendNAK_ok [OF assms(2), of cfg env] assms(1) by (auto simp: handled_def nak_def)

lemma ack_ok:
  assumes ok: "lt_ok ls" and ch: "length (chaddr pkt) = 16" and c: "cfg_ok cfg"
    and Q: "\<And>l. Q l \<Longrightarrow> l_chaddr l \<noteq> chaddr pkt"
    and own: "\<And>l. l \<in> set ls \<Longrightarrow> l_yiaddr l = yi \<Longrightarrow> yi \<noteq> 0 \<Longrightarrow> Q l \<Longrightarrow> lease_expired (se_now env) l"
  shows "handled env Q ls (ack cfg env pkt yi ls)"
proof -
  obtain r out where eq: "sendACK cfg env pkt yi ls = (if r < (0 :: int) then Some (-1, out, ls)
      else if ack_lease_time cfg (pkt_mem (se_junk env) pkt) \<noteq> 0xFFFFFFFF
        then Some (0, out @ [WriteLeases], ack_table env pkt yi (ack_lease_time cfg (pkt_mem (se_junk env) pkt)) ls)
      else Some (0, out, ls))"
    using sendACK_eq [OF ch c refl] by blast
  have a: "lt_ok (ack_table env pkt yi t ls) \<and> keeps (se_now env) Q ls (ack_table env pkt yi t ls)"
    for t by (rule ack_table_ok [OF ok ch Q own])
  show ?thesis unfolding handled_def ack_def eq using a ok by auto
qed

lemma ack_own_ok:
  assumes ok: "lt_ok ls" and ch: "length (chaddr pkt) = 16" and c: "cfg_ok cfg"
    and Q: "\<And>l. Q l \<Longrightarrow> l_chaddr l \<noteq> chaddr pkt" and i: "i < length ls" "l_chaddr (ls ! i) = chaddr pkt"
  shows "handled env Q ls (ack cfg env pkt (l_yiaddr (ls ! i)) ls)"
proof (rule ack_ok [OF ok ch c Q])
  fix l assume "l \<in> set ls" "l_yiaddr l = l_yiaddr (ls ! i)" "l_yiaddr (ls ! i) \<noteq> 0" "Q l"
  then show "lease_expired (se_now env) l" using own_address [OF ok i(1)] Q i(2) by blast
qed

lemma handle_dynamic_ok:
  assumes ok: "lt_ok ls" and ch: "length (chaddr pkt) = 16" and c: "cfg_ok cfg"
    and Q: "\<And>l. Q l \<Longrightarrow> l_chaddr l \<noteq> chaddr pkt"
    and l: "\<And>i. lease = Some i \<Longrightarrow> i < length ls \<and> l_chaddr (ls ! i) = chaddr pkt"
  shows "handled env Q ls (handle_dynamic cfg st env pkt lease requested server_id ls)"
proof (cases lease)
  case (Some i)
  have a: "handled env Q ls (ack cfg env pkt (l_yiaddr (ls ! i)) ls)"
    using ack_own_ok [OF ok ch c Q] l [OF Some] by blast
  have n: "handled env Q ls (nak cfg env pkt ls)" using nak_ok [OF ok ch] .
  have s: "handled env Q ls (Some ([], ls))" using ok by (simp add: handled_def)
  show ?thesis unfolding handle_dynamic_def Some option.case
    using a n s by (cases server_id; cases requested) auto
next
  case None
  have n: "handled env Q ls (nak cfg env pkt ls)" using nak_ok [OF ok ch] .
  have s: "handled env Q ls (Some ([], ls))" using ok by (simp add: handled_def)
  have d: "handled env Q ls (Some ([], ls[i := (ls ! i)\<lparr>l_chaddr := blank_chaddr\<rparr>]))"
    if "find_lease_by_yiaddr rq ls = Some i" "lease_expired (se_now env) (ls ! i)" for rq i
  proof -
    have i: "i < length ls" using find_idx_Some that(1) unfolding find_lease_by_yiaddr_def by blast
    have "lt_ok (ls[i := (ls ! i)\<lparr>l_chaddr := blank_chaddr\<rparr>])"
      by (rule lt_ok_update [OF ok i]) (use lt_okD(1) [OF ok i] in \<open>simp_all add: wf_lease_def blank_chaddr_def\<close>)
    then show ?thesis unfolding handled_def using keeps_update [OF i] that(2) by blast
  qed
  show ?thesis unfolding handle_dynamic_def None option.case
    using n s d by (cases server_id; cases requested) (auto split: option.split)
qed

text \<open>Appending to a received message is safe when its option field is terminated.\<close>

lemma end_option_from_less: "end_option_from p i = Some e \<Longrightarrow> e < length p"
proof (induction p i rule: end_option_from.induct)
  case (1 p i)
  show ?case using "1.prems" "1.IH"
    by (subst (asm) end_option_from.simps) (auto simp: rd_def split: if_splits option.splits)
qed

lemma add_simple_terminated:
  assumes e: "end_option (options p) = Some e" and l: "length (options p) = 308"
    and c: "simple_option_length c \<in> {1, 2, 4}"
  shows "\<exists>p'. pkt_add_simple p c x = Some p' \<and> same_hdr p p'"
proof -
  define d where "d = simple_data c x"
  have d: "length d < 256" by (simp add: d_def simple_data_def)
  have s: "rd (enc_opt (c, d)) OPT_LEN = Some (word_of_nat (length d))"
    "rdn (enc_opt (c, d)) 0 (length d + 2) = Some (enc_opt (c, d))"
    by (simp_all add: rd_def rdn_def OPT_LEN_def)
  have "\<exists>n b. add_option_string (options p) (enc_opt (c, d)) = Some (n, b)"
  proof (cases "e + length d + 3 \<ge> 308")
    case True
    then show ?thesis using e s d by (simp add: add_option_string_def)
  next
    case False
    then have "wrn (options p) e (enc_opt (c, d)) = Some (take e (options p) @ enc_opt (c, d) @ drop (e + length (enc_opt (c, d))) (options p))"
      using l by (simp add: wrn_def)
    then show ?thesis using e s d False l by (simp add: add_option_string_def wr_def del: enc_opt.simps)
  qed
  then obtain n p' where "pkt_add p (enc_opt (c, d)) = Some (n, p')" by (auto simp: pkt_add_def)
  then show ?thesis
    using pkt_add_simple_eq [OF c] same_hdr_options [OF pkt_add_frame] by (auto simp: d_def)
qed

lemma static_yiaddr:
  assumes "find_static_lease_by_chaddr ch st = Some k"
  shows "l_yiaddr (st ! k) \<noteq> 0 \<and> find_static_lease_by_yiaddr (l_yiaddr (st ! k)) st \<noteq> None"
proof -
  have k: "k < length (static_list st)"
    using find_idx_Some assms unfolding find_static_lease_by_chaddr_def by blast
  have "static_list st ! k = take MAX_STATIC_LEASES st ! k"
    using k unfolding static_list_def by (rule takeWhile_nth)
  moreover have "k < length (take MAX_STATIC_LEASES st)"
    using k length_takeWhile_le [of "\<lambda>l. l_yiaddr l \<noteq> 0" "take MAX_STATIC_LEASES st"] unfolding static_list_def by linarith
  ultimately have e: "static_list st ! k = st ! k" by simp
  have "st ! k \<in> set (static_list st)" using nth_mem [OF k] e by simp
  then show ?thesis
    unfolding find_static_lease_by_yiaddr_def find_idx_None
    by (auto simp: static_list_def dest: set_takeWhileD)
qed

lemma handle_request_ok:
  assumes ok: "lt_ok ls" and p: "wf_pkt pkt" "end_option (options pkt) \<noteq> None" and c: "cfg_ok cfg"
    and l: "lease = find_lease_by_chaddr (chaddr pkt) ls"
  shows "handled env (\<lambda>l. l_chaddr l \<noteq> chaddr pkt \<and> find_static_lease_by_yiaddr (l_yiaddr l) st = None) ls
    (handle_request cfg st env pkt lease ls)"
proof -
  let ?Q = "\<lambda>l. l_chaddr l \<noteq> chaddr pkt \<and> find_static_lease_by_yiaddr (l_yiaddr l) st = None"
  have ch: "length (chaddr pkt) = 16" using p(1) by (simp add: wf_pkt_def)
  have dyn: "handled env ?Q ls (handle_dynamic cfg st env pkt lease rq sid ls)" for rq sid
    by (rule handle_dynamic_ok [OF ok ch c]) (use find_by_chaddr [OF _ ok ch] l in auto)
  have n: "handled env ?Q ls (nak cfg env pkt ls)" using nak_ok [OF ok ch] .
  have st: "handled env ?Q ls (do { pkt \<leftarrow> pkt_add_simple pkt DHCP_LEASE_TIME 0xFFFFFFFF;
      ack cfg env pkt (l_yiaddr (st ! k)) ls })"
    if k: "find_static_lease_by_chaddr (chaddr pkt) st = Some k" for k
  proof -
    obtain e where "end_option (options pkt) = Some e" using p(2) by blast
    moreover have "length (options pkt) = 308" using p(1) by (simp add: wf_pkt_def)
    ultimately obtain pkt' where pkt': "pkt_add_simple pkt DHCP_LEASE_TIME 0xFFFFFFFF = Some pkt'" "same_hdr pkt pkt'"
      using add_simple_terminated [of pkt e DHCP_LEASE_TIME "0xFFFFFFFF"] by auto
    have c': "chaddr pkt' = chaddr pkt" using pkt'(2) by (simp add: same_hdr_def)
    have "handled env ?Q ls (ack cfg env pkt' (l_yiaddr (st ! k)) ls)"
      by (rule ack_ok [OF ok _ c]) (use ch c' static_yiaddr [OF k] in auto)
    then show ?thesis using pkt'(1) by simp
  qed
  show ?thesis unfolding handle_request_def Let_def
    using dyn n st by (simp split: option.split)
qed

section \<open>Offers\<close>

text \<open>Addresses a client may be offered: its own, or one that no unexpired lease holds and that is
  not reserved.\<close>

definition offerable :: "server_config \<Rightarrow> lease list \<Rightarrow> srv_env \<Rightarrow> dhcpMessage \<Rightarrow> lease list \<Rightarrow> u32 \<Rightarrow> bool" where
  "offerable cfg st env old ls a \<longleftrightarrow>
     (\<exists>i < length ls. l_chaddr (ls ! i) = chaddr old \<and> l_yiaddr (ls ! i) = a) \<or>
     (sc_start cfg \<le> a \<and> a \<le> sc_end cfg \<and> find_static_lease_by_yiaddr a st = None \<and>
      (\<forall>l \<in> set ls. l_yiaddr l = a \<longrightarrow> lease_expired (se_now env) l))"

lemma offer_addr_offerable:
  assumes ok: "lt_ok ls" and ch: "length (chaddr old) = 16" and a: "snd (offer_addr cfg st env old ls) \<noteq> 0"
  shows "offerable cfg st env old ls (snd (offer_addr cfg st env old ls))"
proof (cases "find_lease_by_chaddr (chaddr old) ls")
  case (Some i)
  then show ?thesis using find_by_chaddr [OF Some ok ch] by (auto simp: offer_addr_def offerable_def)
next
  case None
  then obtain k where k: "get_option (pkt_mem (se_junk env) old) DHCP_REQUESTED_IP = Some k"
    using a by (cases "get_option (pkt_mem (se_junk env) old) DHCP_REQUESTED_IP") (simp_all add: offer_addr_def)
  define rq where "rq = get_u32 (pkt_mem (se_junk env) old) k"
  have c: "sc_start cfg \<le> rq \<and> rq \<le> sc_end cfg \<and> find_static_lease_by_yiaddr rq st = None
      \<and> (case find_lease_by_yiaddr rq ls of None \<Rightarrow> True | Some i \<Rightarrow> lease_expired (se_now env) (ls ! i))"
    and r: "snd (offer_addr cfg st env old ls) = rq"
    using a None k by (auto simp: offer_addr_def rq_def Let_def ntohl_def split: if_splits)
  have "rq \<noteq> 0" using a r by simp
  then have "\<forall>l \<in> set ls. l_yiaddr l = rq \<longrightarrow> lease_expired (se_now env) l"
    using unleased [OF ok, of rq True "se_now env"] c by (simp split: option.splits)
  then show ?thesis using c r by (simp add: offerable_def)
qed

lemma offer_search_ok:
  assumes ok: "lt_ok ls" and e: "sc_end cfg \<noteq> - 1" and a: "a = 0 \<or> offerable cfg st env old ls a"
  shows "\<exists>yi ls'. offer_search cfg st env a ls = Some (yi, ls') \<and> lt_ok ls' \<and> keeps (se_now env) (\<lambda>_. True) ls ls'
    \<and> (yi = 0 \<or> offerable cfg st env old ls' yi)"
proof (cases "a = 0")
  case False
  then show ?thesis using ok a by (simp add: offer_search_def)
next
  case True
  have ass: "offerable cfg st env old ls' a'"
    if "assignable (se_now env) (se_answers env) cfg st ce ls' a'" for a' ls' ce
    using that by (auto simp: assignable_def offerable_def)
  have fa: "\<exists>a ls'. find_address (se_now env) (se_answers env) cfg st ce ls1 = Some (a, ls')
      \<and> (a \<noteq> 0 \<longrightarrow> assignable (se_now env) (se_answers env) cfg st ce ls' a) \<and> lt_ok ls'
      \<and> keeps (se_now env) (\<lambda>_. True) ls1 ls'" if "lt_ok ls1" for ls1 ce
    using find_address_from_total [OF e that] unfolding find_address_def by (simp add: ntohl_def)
  obtain a1 ls1 where 1: "find_address (se_now env) (se_answers env) cfg st False ls = Some (a1, ls1)"
      "a1 \<noteq> 0 \<longrightarrow> assignable (se_now env) (se_answers env) cfg st False ls1 a1" "lt_ok ls1"
      "keeps (se_now env) (\<lambda>_. True) ls ls1"
    using fa [OF ok] by blast
  obtain a2 ls2 where 2: "find_address (se_now env) (se_answers env) cfg st True ls1 = Some (a2, ls2)"
      "a2 \<noteq> 0 \<longrightarrow> assignable (se_now env) (se_answers env) cfg st True ls2 a2" "lt_ok ls2"
      "keeps (se_now env) (\<lambda>_. True) ls1 ls2"
    using fa [OF 1(3)] by blast
  show ?thesis
  proof (cases "a1 = 0")
    case a1: True
    then have "offer_search cfg st env a ls = Some (a2, ls2)" using True 1(1) 2(1) by (simp add: offer_search_def)
    then show ?thesis using 2 ass keeps_trans [OF 1(4) 2(4)] by blast
  next
    case False
    then have "offer_search cfg st env a ls = Some (a1, ls1)" using True 1(1) by (simp add: offer_search_def)
    then show ?thesis using 1 ass False by blast
  qed
qed

lemma offerable_own:
  assumes ok: "lt_ok ls'" and k: "keeps (se_now env) (\<lambda>_. True) ls ls'" and o: "offerable cfg st env old ls' yi"
    and yi: "yi \<noteq> 0" and l: "l \<in> set ls" "l_yiaddr l = yi" "\<not> lease_expired (se_now env) l"
  shows "l_chaddr l = chaddr old"
proof -
  obtain j where j: "j < length ls" "ls ! j = l" using l(1) by (metis in_set_conv_nth)
  then have l': "l \<in> set ls'" using k l(3) unfolding keeps_def by (metis nth_mem)
  from o show ?thesis unfolding offerable_def
  proof (elim disjE)
    assume "\<exists>i<length ls'. l_chaddr (ls' ! i) = chaddr old \<and> l_yiaddr (ls' ! i) = yi"
    then obtain i where i: "i < length ls'" "l_chaddr (ls' ! i) = chaddr old" "l_yiaddr (ls' ! i) = yi" by blast
    then show ?thesis using own_address [OF ok i(1) l'] l(2) yi by simp
  next
    assume "sc_start cfg \<le> yi \<and> yi \<le> sc_end cfg \<and> find_static_lease_by_yiaddr yi st = None
      \<and> (\<forall>l\<in>set ls'. l_yiaddr l = yi \<longrightarrow> lease_expired (se_now env) l)"
    then show ?thesis using l' l by blast
  qed
qed

definition offer_good :: "lease list \<Rightarrow> srv_env \<Rightarrow> dhcpMessage \<Rightarrow> lease list \<Rightarrow> lease list \<Rightarrow> u32 \<Rightarrow> bool" where
  "offer_good st env old ls ls' a \<longleftrightarrow>
     (case find_static_lease_by_chaddr (chaddr old) st of
        Some k \<Rightarrow> a = l_yiaddr (st ! k)
      | None \<Rightarrow> a \<noteq> 0 \<and> held ls' a (chaddr old) \<and>
          (\<forall>l \<in> set ls. l_yiaddr l = a \<longrightarrow> l_chaddr l = chaddr old \<or> lease_expired (se_now env) l))"

lemma offer_packet:
  assumes ch: "length (chaddr old) = 16" and c: "cfg_ok cfg"
  shows "\<exists>p p1 p2 p3. init_packet cfg old DHCPOFFER = Some p \<and> chaddr p = chaddr old
    \<and> pkt_add_simple (p\<lparr>yiaddr := yi\<rparr>) DHCP_LEASE_TIME t = Some p1
    \<and> add_config_options (sc_options cfg) p1 = Some p2 \<and> add_bootp_options cfg p2 = Some p3
    \<and> reply_ok cfg old DHCPOFFER p3 \<and> yiaddr p3 = yi"
proof -
  obtain p where p: "init_packet cfg old DHCPOFFER = Some p"
      "pkt_rep p [(DHCP_MESSAGE_TYPE, [DHCPOFFER]), (DHCP_SERVER_ID, be32 (sc_server cfg))]"
      "xid p = xid old \<and> chaddr p = chaddr old \<and> flags p = flags old \<and> giaddr p = giaddr old
       \<and> ciaddr p = ciaddr old \<and> cookie p = DHCP_MAGIC"
    using init_packet_rep [OF ch] by blast
  have py: "pkt_rep (p\<lparr>yiaddr := yi\<rparr>) [(DHCP_MESSAGE_TYPE, [DHCPOFFER]), (DHCP_SERVER_ID, be32 (sc_server cfg))]"
    using p(2) by (simp add: pkt_rep_def wf_pkt_def)
  obtain p1 p2 p3 os where b: "pkt_add_simple (p\<lparr>yiaddr := yi\<rparr>) DHCP_LEASE_TIME t = Some p1"
      "add_config_options (sc_options cfg) p1 = Some p2" "add_bootp_options cfg p2 = Some p3"
      "same_hdr (p\<lparr>yiaddr := yi\<rparr>) p3" "pkt_rep p3 os" "map_of os DHCP_MESSAGE_TYPE = Some [DHCPOFFER]"
      "map_of os DHCP_SERVER_ID = Some (be32 (sc_server cfg))"
    using build_reply [OF py c] by blast
  have "reply_ok cfg old DHCPOFFER p3" "yiaddr p3 = yi"
    using b(4-7) p(3) unfolding reply_ok_def same_hdr_def by auto
  then show ?thesis using p(1,3) b(1-3) by blast
qed

definition offered :: "server_config \<Rightarrow> lease list \<Rightarrow> srv_env \<Rightarrow> dhcpMessage \<Rightarrow> lease list \<Rightarrow>
    (int \<times> srv_out list \<times> lease list) option \<Rightarrow> bool" where
  "offered cfg st env old ls r \<longleftrightarrow> (\<exists>x out ls'. r = Some (x, out, ls') \<and> lt_ok ls'
     \<and> keeps (se_now env) (\<lambda>l. l_chaddr l \<noteq> chaddr old) ls ls'
     \<and> (\<forall>p \<in> set (sent_msgs out). reply_ok cfg old DHCPOFFER p \<and> offer_good st env old ls ls' (yiaddr p)))"

lemma sendOffer_ok:
  assumes ok: "lt_ok ls" and ch: "length (chaddr old) = 16" and c: "cfg_ok cfg" and e: "sc_end cfg \<noteq> - 1"
  shows "offered cfg st env old ls (sendOffer cfg st env old ls)"
proof (cases "find_static_lease_by_chaddr (chaddr old) st")
  case (Some k)
  obtain p p1 p2 p3 where p: "init_packet cfg old DHCPOFFER = Some p"
      "pkt_add_simple (p\<lparr>yiaddr := l_yiaddr (st ! k)\<rparr>) DHCP_LEASE_TIME 0xFFFFFFFF = Some p1"
      "add_config_options (sc_options cfg) p1 = Some p2" "add_bootp_options cfg p2 = Some p3"
      "reply_ok cfg old DHCPOFFER p3" "yiaddr p3 = l_yiaddr (st ! k)"
    using offer_packet [OF ch c, of "l_yiaddr (st ! k)" "0xFFFFFFFF"] by blast
  obtain r out where sp: "send_packet cfg env p3 False = (r, out)" by fastforce
  then have "sent_msgs out = [p3]" using send_packet_msgs by (metis snd_conv)
  moreover have "sendOffer cfg st env old ls = Some (r, out, ls)"
    by (simp add: sendOffer_def p(1-4) sp Some)
  ultimately show ?thesis unfolding offered_def using ok p(5,6) by (simp add: offer_good_def Some)
next
  case None
  obtain tm a where oa: "offer_addr cfg st env old ls = (tm, a)" by fastforce
  obtain yi ls1 where s: "offer_search cfg st env a ls = Some (yi, ls1)" "lt_ok ls1"
      "keeps (se_now env) (\<lambda>_. True) ls ls1" "yi = 0 \<or> offerable cfg st env old ls1 yi"
    using offer_search_ok [OF ok e, of a st env old] offer_addr_offerable [OF ok ch, of cfg st env] oa by auto
  let ?m = "pkt_mem (se_junk env) old"
  obtain p p1 p2 p3 where p: "init_packet cfg old DHCPOFFER = Some p" "chaddr p = chaddr old"
      "pkt_add_simple (p\<lparr>yiaddr := yi\<rparr>) DHCP_LEASE_TIME (offer_time cfg ?m tm) = Some p1"
      "add_config_options (sc_options cfg) p1 = Some p2" "add_bootp_options cfg p2 = Some p3"
      "reply_ok cfg old DHCPOFFER p3" "yiaddr p3 = yi"
    using offer_packet [OF ch c, of yi "offer_time cfg ?m tm"] by blast
  obtain r out where sp: "send_packet cfg env p3 False = (r, out)" by fastforce
  then have m: "sent_msgs out = [p3]" using send_packet_msgs by (metis snd_conv)
  obtain x ls2 where al: "add_lease (se_now env) (chaddr old) yi (sc_offer_time cfg) (host_name_of ?m) ls1 = (x, ls2)"
    by fastforce
  have eq: "sendOffer cfg st env old ls = (if yi = 0 then Some (-1, [], ls1)
      else if x = None then Some (-1, [], ls2) else Some (r, out, ls2))"
    by (simp add: sendOffer_def p(1-5) sp None oa s(1) al htonl_def)
  show ?thesis
  proof (cases "yi = 0")
    case True
    then show ?thesis unfolding offered_def eq using s(2,3) by (auto simp: keeps_def)
  next
    case False
    have own: "l_chaddr l = chaddr old \<or> lease_expired (se_now env) l" if "l \<in> set ls" "l_yiaddr l = yi" for l
      using offerable_own [OF s(2,3) _ False that] s(4) False by blast
    have own1: "l_chaddr l = chaddr old \<or> lease_expired (se_now env) l" if "l \<in> set ls1" "l_yiaddr l = yi" for l
      using offerable_own [OF s(2) keeps_refl _ False that] s(4) False by blast
    have "keeps (se_now env) (\<lambda>l. l_chaddr l \<noteq> chaddr old) ls1 ls2"
      using add_keeps_others [OF s(2) ch, of "\<lambda>l. l_chaddr l \<noteq> chaddr old" yi "se_now env" "sc_offer_time cfg" "host_name_of ?m"]
        own1 al by auto
    moreover have "keeps (se_now env) (\<lambda>l. l_chaddr l \<noteq> chaddr old) ls ls1" using s(3) by (simp add: keeps_def)
    ultimately have k: "keeps (se_now env) (\<lambda>l. l_chaddr l \<noteq> chaddr old) ls ls2" by (rule keeps_trans [rotated])
    have "lt_ok ls2" using add_ok [OF s(2) ch] al by (metis snd_conv)
    moreover have "held ls2 yi (chaddr old)" if "x = Some i" for i
      using add_found [OF al [unfolded that] ch] by (auto simp: held_def)
    ultimately show ?thesis unfolding offered_def eq using k m p(6,7) own False
      by (cases x) (simp_all add: offer_good_def None)
  qed
qed

section \<open>The dispatcher and the loop\<close>

lemma handle_packet_ok:
  assumes ok: "lt_ok ls" and p: "wf_pkt pkt" "end_option (options pkt) \<noteq> None" and c: "cfg_ok cfg"
    and e: "sc_end cfg \<noteq> - 1"
  shows "handled env (\<lambda>l. l_chaddr l \<noteq> chaddr pkt \<and> find_static_lease_by_yiaddr (l_yiaddr l) st = None) ls
    (handle_packet cfg st env pkt ls)"
proof -
  let ?Q = "\<lambda>l. l_chaddr l \<noteq> chaddr pkt \<and> find_static_lease_by_yiaddr (l_yiaddr l) st = None"
  let ?i = "find_lease_by_chaddr (chaddr pkt) ls"
  have ch: "length (chaddr pkt) = 16" using p(1) by (simp add: wf_pkt_def)
  have s: "handled env ?Q ls (Some ([], ls))" using ok by (simp add: handled_def)
  have o: "handled env ?Q ls (map_option (\<lambda>(r, out, ls). (out, ls)) (sendOffer cfg st env pkt ls))"
    using sendOffer_ok [OF ok ch c e, of st env] unfolding offered_def handled_def keeps_def by fastforce
  have r: "handled env ?Q ls (handle_request cfg st env pkt ?i ls)"
    using handle_request_ok [OF ok p c refl] .
  have f: "handled env ?Q ls (map_option (\<lambda>(r, out). (out, ls)) (send_inform cfg env pkt))"
    using send_inform_ok [OF ch c, of env] ok by (auto simp: handled_def)
  have u: "handled env ?Q ls (Some ([], case ?i of None \<Rightarrow> ls | Some i \<Rightarrow> ls[i := g (ls ! i)]))"
    if g: "\<And>l. wf_lease l \<Longrightarrow> wf_lease (g l)" "\<And>l. l_yiaddr (g l) = l_yiaddr l"
      "\<And>l. l_chaddr (g l) \<in> {l_chaddr l, blank_chaddr}" for g
  proof (cases ?i)
    case (Some i)
    note i = find_by_chaddr [OF Some ok ch]
    have "lt_ok (ls[i := g (ls ! i)])"
      by (rule lt_ok_update [OF ok]) (use i g(1,2) g(3) [of "ls ! i"] lt_okD(1) [OF ok] in simp_all)
    then show ?thesis using keeps_update [of i ls ?Q] i by (auto simp: handled_def Some)
  qed (use s in simp)
  have w: "wf_lease l \<Longrightarrow> wf_lease (l\<lparr>l_chaddr := blank_chaddr, l_expires := x\<rparr>)" "wf_lease l \<Longrightarrow> wf_lease (l\<lparr>l_expires := x\<rparr>)" for l x
    by (simp_all add: wf_lease_def blank_chaddr_def)
  show ?thesis unfolding handle_packet_def Let_def
    using s o r f u [of "\<lambda>l. l\<lparr>l_chaddr := blank_chaddr, l_expires := se_now env + sc_decline_time cfg\<rparr>"]
      u [of "\<lambda>l. l\<lparr>l_expires := se_now env\<rparr>"] w by (simp split: option.split)
qed

lemma wf_pkt_of_bytes: "length b = 548 \<Longrightarrow> wf_pkt (pkt_of_bytes b)"
  by (simp add: pkt_of_bytes_def wf_pkt_def Let_def)

text \<open>The vendor work-around of \<^verbatim>\<open>get_packet\<close> changes the flags only.\<close>

lemma get_packet_wf: "wf_pkt (snd (get_packet junk rcv))"
proof (cases rcv)
  case None
  then show ?thesis by (simp add: get_packet_def zero_pkt_def wf_pkt_def)
next
  case (Some b)
  have f: "wf_pkt (fold (\<lambda>bv q. if P bv then q\<lparr>flags := flags q OR x\<rparr> else q) bvs q)" if "wf_pkt q" for P x bvs q
    using that by (induction bvs arbitrary: q) (simp_all add: wf_pkt_def)
  define q where "q = pkt_of_bytes (take 548 (b @ replicate 548 0))"
  have "wf_pkt q" unfolding q_def by (rule wf_pkt_of_bytes) simp
  then show ?thesis unfolding get_packet_def Some option.case q_def [symmetric] Let_def
    by (auto intro: f split: option.split)
qed

definition terminated :: "loop_in \<Rightarrow> bool" where
  "terminated inp \<longleftrightarrow> end_option (options (snd (get_packet (se_junk (in_env inp)) (in_rcv inp)))) \<noteq> None"

lemma serve_packet_ok:
  assumes "lt_ok (ds_leases s)" and "terminated inp" and "cfg_ok cfg" and "sc_end cfg \<noteq> - 1"
  shows "\<exists>s' out. serve_packet cfg st inp s = Some (Running s' out) \<and> lt_ok (ds_leases s')
    \<and> length (ds_leases s') = length (ds_leases s)"
proof -
  obtain n pkt where g: "get_packet (se_junk (in_env inp)) (in_rcv inp) = (n, pkt)" by fastforce
  have "wf_pkt pkt" using get_packet_wf [of "se_junk (in_env inp)" "in_rcv inp"] g by simp
  moreover have "end_option (options pkt) \<noteq> None" using assms(2) g by (simp add: terminated_def)
  ultimately obtain out ls where h: "handle_packet cfg st (in_env inp) pkt (ds_leases s) = Some (out, ls)"
      "lt_ok ls" "length ls = length (ds_leases s)"
    using handle_packet_ok [OF assms(1) _ _ assms(3,4), of pkt "in_env inp" st] unfolding handled_def keeps_def by blast
  show ?thesis using assms(1) h by (simp add: serve_packet_def Let_def g)
qed

lemma dhcpd_iter_ok:
  assumes "lt_ok (ds_leases s)" and "terminated inp" and "cfg_ok cfg" and "sc_end cfg \<noteq> - 1"
  shows "\<exists>r. dhcpd_iter cfg st inp s = Some r \<and> (\<forall>s' out. r = Running s' out \<longrightarrow> lt_ok (ds_leases s')
    \<and> length (ds_leases s') = length (ds_leases s))"
proof -
  have v: "\<exists>r. serve_packet cfg st inp s' = Some r \<and> (\<forall>s'' out. r = Running s'' out \<longrightarrow> lt_ok (ds_leases s'')
      \<and> length (ds_leases s'') = length (ds_leases s))"
    if "ds_leases s' = ds_leases s" for s'
    using serve_packet_ok [OF _ assms(2-4), of s' st] assms(1) that by auto
  show ?thesis unfolding dhcpd_iter_def Let_def
    using v assms(1) by (simp add: reset_timeout_def split: option.split)
qed

lemma dhcpd_loop_ok:
  assumes "lt_ok (ds_leases s)" and "\<And>inp. inp \<in> set inps \<Longrightarrow> terminated inp" and c: "cfg_ok cfg" "sc_end cfg \<noteq> - 1"
  shows "\<exists>out s'. dhcpd_loop cfg st inps s = Some (out, s') \<and> lt_ok (ds_leases s')
    \<and> length (ds_leases s') = length (ds_leases s)"
  using assms(1,2)
proof (induction inps arbitrary: s)
  case (Cons inp inps)
  have t: "terminated inp" "\<And>x. x \<in> set inps \<Longrightarrow> terminated x" using Cons.prems(2) by simp_all
  obtain r where r: "dhcpd_iter cfg st inp s = Some r" "\<forall>s' out. r = Running s' out \<longrightarrow> lt_ok (ds_leases s')
      \<and> length (ds_leases s') = length (ds_leases s)"
    using dhcpd_iter_ok [OF Cons.prems(1) t(1) c] by blast
  show ?case
  proof (cases r)
    case (Running s1 out)
    then obtain out' s' where "dhcpd_loop cfg st inps s1 = Some (out', s')" "lt_ok (ds_leases s')"
        "length (ds_leases s') = length (ds_leases s1)"
      using Cons.IH [OF _ t(2), of s1] r(2) by blast
    then show ?thesis using r Running by simp
  next
    case (Exited n)
    then show ?thesis using r(1) Cons.prems(1) by simp
  qed
qed simp

section \<open>What a request is answered with\<close>

lemma ack_lease_time_bound: "ack_lease_time cfg m \<le> sc_lease cfg \<or> ack_lease_time cfg m = 0xFFFFFFFF"
  by (auto simp: ack_lease_time_def Let_def split: option.split)

definition answers_with :: "server_config \<Rightarrow> dhcpMessage \<Rightarrow> (u32 \<Rightarrow> bool) \<Rightarrow> (srv_out list \<times> lease list) option \<Rightarrow> bool" where
  "answers_with cfg pkt P r \<longleftrightarrow> (\<forall>out ls' p. r = Some (out, ls') \<longrightarrow> p \<in> set (sent_msgs out) \<longrightarrow>
     reply_ok cfg pkt DHCPNAK p \<or> reply_ok cfg pkt DHCPACK p \<and> P (yiaddr p) \<and>
       (\<exists>t. opt_data (pkt_mem (\<lambda>_. 0) p) DHCP_LEASE_TIME = Some (be32 t) \<and> (t \<le> sc_lease cfg \<or> t = 0xFFFFFFFF)))"

lemma nak_answers: "length (chaddr pkt) = 16 \<Longrightarrow> answers_with cfg pkt P (nak cfg env pkt ls)"
  using sendNAK_ok [of pkt cfg env] by (auto simp: answers_with_def nak_def)

lemma ack_answers:
  assumes "length (chaddr pkt) = 16" and "cfg_ok cfg" and "P yi"
  shows "answers_with cfg pkt P (ack cfg env pkt yi ls)"
proof -
  let ?t = "ack_lease_time cfg (pkt_mem (se_junk env) pkt)"
  obtain r out p where a: "sent_msgs out = [p]" "reply_ok cfg pkt DHCPACK p" "yiaddr p = yi"
      "opt_data (pkt_mem (\<lambda>_. 0) p) DHCP_LEASE_TIME = Some (be32 ?t)"
      "sendACK cfg env pkt yi ls = (if r < (0 :: int) then Some (-1, out, ls)
        else if ?t \<noteq> 0xFFFFFFFF then Some (0, out @ [WriteLeases], ack_table env pkt yi ?t ls)
        else Some (0, out, ls))"
    using sendACK_eq [OF assms(1,2) refl, where junk = "\<lambda>_. 0"] by blast
  have g: "p' = p" if "ack cfg env pkt yi ls = Some (out', ls')" "p' \<in> set (sent_msgs out')" for p' out' ls'
    using that a(1) unfolding ack_def a(5) by (auto split: if_splits)
  show ?thesis unfolding answers_with_def
  proof (intro allI impI disjI2 conjI)
    fix out' ls' p' assume "ack cfg env pkt yi ls = Some (out', ls')" "p' \<in> set (sent_msgs out')"
    then have p': "p' = p" by (rule g)
    show "reply_ok cfg pkt DHCPACK p'" "P (yiaddr p')" using a(2,3) assms(3) p' by simp_all
    show "\<exists>t. opt_data (pkt_mem (\<lambda>_. 0) p') DHCP_LEASE_TIME = Some (be32 t) \<and> (t \<le> sc_lease cfg \<or> t = 0xFFFFFFFF)"
      using a(4) ack_lease_time_bound p' by blast
  qed
qed

lemma answers_same_hdr: "same_hdr pkt pkt' \<Longrightarrow> answers_with cfg pkt' P r \<Longrightarrow> answers_with cfg pkt P r"
  by (simp add: answers_with_def reply_ok_def same_hdr_def)

lemma handle_dynamic_answers:
  assumes "length (chaddr pkt) = 16" and "cfg_ok cfg" and l: "\<And>i. lease = Some i \<Longrightarrow> P (l_yiaddr (ls ! i))"
  shows "answers_with cfg pkt P (handle_dynamic cfg st env pkt lease requested server_id ls)"
proof -
  have n: "answers_with cfg pkt P (nak cfg env pkt ls)" by (rule nak_answers [OF assms(1)])
  have s: "answers_with cfg pkt P (Some ([], x))" for x by (simp add: answers_with_def)
  show ?thesis
  proof (cases lease)
    case None
    then show ?thesis unfolding handle_dynamic_def
      using n s by (cases server_id; cases requested) (auto split: option.split)
  next
    case (Some i)
    have a: "answers_with cfg pkt P (ack cfg env pkt (l_yiaddr (ls ! i)) ls)"
      by (rule ack_answers [OF assms(1,2)]) (rule l [OF Some])
    show ?thesis unfolding handle_dynamic_def Some option.case
      using a n s by (cases server_id; cases requested) auto
  qed
qed

text \<open>The addresses a client may be acknowledged: the one the table records for it and its reserved
  one.\<close>

definition entitled :: "lease list \<Rightarrow> lease list \<Rightarrow> u8 list \<Rightarrow> u32 \<Rightarrow> bool" where
  "entitled st ls c a \<longleftrightarrow> held ls a c \<or> (\<exists>k. find_static_lease_by_chaddr c st = Some k \<and> a = l_yiaddr (st ! k))"

lemma handle_request_answers:
  assumes ok: "lt_ok ls" and ch: "length (chaddr pkt) = 16" and c: "cfg_ok cfg"
  shows "answers_with cfg pkt (entitled st ls (chaddr pkt))
    (handle_request cfg st env pkt (find_lease_by_chaddr (chaddr pkt) ls) ls)"
proof -
  let ?P = "entitled st ls (chaddr pkt)"
  have d: "answers_with cfg pkt ?P (handle_dynamic cfg st env pkt (find_lease_by_chaddr (chaddr pkt) ls) rq sid ls)" for rq sid
    by (rule handle_dynamic_answers [OF ch c]) (use find_by_chaddr [OF _ ok ch] in \<open>auto simp: held_def entitled_def\<close>)
  have n: "answers_with cfg pkt ?P (nak cfg env pkt ls)" by (rule nak_answers [OF ch])
  have s: "answers_with cfg pkt ?P (do { pkt \<leftarrow> pkt_add_simple pkt DHCP_LEASE_TIME 0xFFFFFFFF;
      ack cfg env pkt (l_yiaddr (st ! k)) ls })"
    if k: "find_static_lease_by_chaddr (chaddr pkt) st = Some k" for k
  proof (cases "pkt_add_simple pkt DHCP_LEASE_TIME 0xFFFFFFFF")
    case None
    then show ?thesis by (simp add: answers_with_def)
  next
    case (Some pkt')
    then have h: "same_hdr pkt pkt'"
      using pkt_add_simple_eq [of DHCP_LEASE_TIME pkt "0xFFFFFFFF"] same_hdr_options [OF pkt_add_frame] by auto
    then have "length (chaddr pkt') = 16" using ch by (simp add: same_hdr_def)
    then have "answers_with cfg pkt' ?P (ack cfg env pkt' (l_yiaddr (st ! k)) ls)"
      by (rule ack_answers [OF _ c]) (use k in \<open>simp add: entitled_def\<close>)
    then show ?thesis using answers_same_hdr [OF h] Some by simp
  qed
  show ?thesis unfolding handle_request_def Let_def using d n s by (simp split: option.split)
qed

lemma ack_table_records:
  assumes ok: "lt_ok ls" and ch: "length (chaddr old) = 16" and h: "held ls a (chaddr old)" "a \<noteq> 0" and now: "0 < se_now env"
  shows "\<exists>i < length (ack_table env old a t ls). l_yiaddr (ack_table env old a t ls ! i) = a
    \<and> l_chaddr (ack_table env old a t ls ! i) = chaddr old
    \<and> l_expires (ack_table env old a t ls ! i) = se_now env + t \<and> l_ACKed (ack_table env old a t ls ! i) = 1"
proof -
  let ?h = "host_name_of (pkt_mem (se_junk env) old)"
  obtain i where i: "i < length ls" "l_yiaddr (ls ! i) = a" using h(1) by (auto simp: held_def)
  have "clear_lease (chaddr old) a ls ! i = blank_lease"
    using clear_nth [OF i(1) ch lt_okD(1) [OF ok i(1)], of a] i(2) h(2) by simp
  then have "blank_lease \<in> set (clear_lease (chaddr old) a ls)"
    using i(1) by (metis length_clear nth_mem)
  moreover have "l_expires blank_lease < se_now env" using now by (simp add: blank_lease_def)
  ultimately have "oldest_expired_lease (se_now env) (clear_lease (chaddr old) a ls) \<noteq> None"
    using oldest_from_None unfolding oldest_expired_lease_def by blast
  then obtain k ls' where k: "add_lease (se_now env) (chaddr old) a t ?h ls = (Some k, ls')"
    by (auto simp: add_lease_def Let_def)
  show ?thesis using add_found [OF k ch] by (auto simp: ack_table_def k)
qed

section \<open>Properties\<close>

definition example_env :: srv_env where
  "example_env = \<lparr>se_now = 1000, se_answers = (\<lambda>_. False), se_junk = (\<lambda>_. 0),
     se_raw = \<lparr>re_socket = True, re_bind = True, re_sendto = 576\<rparr>,
     se_kernel = \<lparr>ke_socket = True, ke_setsockopt = True, ke_bind = True, ke_connect = True, ke_write = 548\<rparr>\<rparr>"

definition example_client :: lease where
  "example_client = blank_lease\<lparr>l_chaddr := replicate 16 7, l_yiaddr := 0x0A000064, l_expires := 1060\<rparr>"

lemma example_cfg_ok: "cfg_ok example_cfg" "sc_end example_cfg \<noteq> - 1"
  by (simp_all add: cfg_ok_def example_cfg_def)

lemma blank_pkt_ok: "wf_pkt blank_pkt" "end_option (options blank_pkt) \<noteq> None" "length (chaddr blank_pkt) = 16"
  using blank_pkt_rep end_option_opts [of "options blank_pkt" "[]"] by (auto simp: pkt_rep_def wf_pkt_def)

lemma example_table_ok: "lt_ok [example_client, blank_lease]"
  by (rule lt_okI) (auto simp: less_Suc_eq example_client_def blank_lease_def blank_chaddr_def wf_lease_def)





text \<open>Claim C3: an offer is exclusive. \<^verbatim>\<open>sendOffer\<close> returns, and the one message it may send is an offer
  addressed to the sender of the request. To a client with a reserved address it offers that address; to
  any other client an address that the table then records for it and that was held by nobody else, except
  by a lease that had expired.\<close>

theorem offer_exclusive:
  assumes "lt_ok ls" and "length (chaddr old) = 16" and "cfg_ok cfg" and "sc_end cfg \<noteq> - 1"
  shows "\<exists>r out ls'. sendOffer cfg st env old ls = Some (r, out, ls') \<and> lt_ok ls' \<and>
    (\<forall>p \<in> set (sent_msgs out). reply_ok cfg old DHCPOFFER p \<and>
      (case find_static_lease_by_chaddr (chaddr old) st of
         Some k \<Rightarrow> yiaddr p = l_yiaddr (st ! k)
       | None \<Rightarrow> yiaddr p \<noteq> 0 \<and> held ls' (yiaddr p) (chaddr old) \<and>
           (\<forall>l \<in> set ls. l_yiaddr l = yiaddr p \<longrightarrow> l_chaddr l = chaddr old \<or> lease_expired (se_now env) l)))"
  using sendOffer_ok [OF assms, of st env] unfolding offered_def offer_good_def by blast

theorem offer_exclusive_witness:
  "\<exists>r out ls'. sendOffer example_cfg [] example_env blank_pkt [example_client, blank_lease] = Some (r, out, ls')
    \<and> (\<forall>p \<in> set (sent_msgs out). yiaddr p \<noteq> 0x0A000064)"
proof -
  have "find_static_lease_by_chaddr x [] = None" for x
    by (simp add: find_static_lease_by_chaddr_def static_list_def)
  moreover have "l_chaddr example_client \<noteq> chaddr blank_pkt" "\<not> lease_expired (se_now example_env) example_client"
      "l_yiaddr example_client = 0x0A000064"
    by (simp_all add: example_client_def blank_pkt_def example_env_def lease_expired_def)
  ultimately show ?thesis
    using offer_exclusive [OF example_table_ok blank_pkt_ok(3) example_cfg_ok, of "[]" example_env] by fastforce
qed

text \<open>Claim C4: what a request may be acknowledged with. Every message sent in answer to a request is a refusal or an
  acknowledgement addressed to the sender; an acknowledgement carries the address the table records for
  the sender or the one reserved for it, and a lease time no longer than the configured one, or infinity.\<close>

theorem request_ack_sound:
  assumes "lt_ok ls" and "length (chaddr pkt) = 16" and "cfg_ok cfg"
    and "handle_request cfg st env pkt (find_lease_by_chaddr (chaddr pkt) ls) ls = Some (out, ls')"
    and "p \<in> set (sent_msgs out)"
  shows "reply_ok cfg pkt DHCPNAK p \<or> reply_ok cfg pkt DHCPACK p
    \<and> (held ls (yiaddr p) (chaddr pkt)
       \<or> (\<exists>k. find_static_lease_by_chaddr (chaddr pkt) st = Some k \<and> yiaddr p = l_yiaddr (st ! k)))
    \<and> (\<exists>t. opt_data (pkt_mem (\<lambda>_. 0) p) DHCP_LEASE_TIME = Some (be32 t) \<and> (t \<le> sc_lease cfg \<or> t = 0xFFFFFFFF))"
  using handle_request_answers [OF assms(1-3), of st env] assms(4,5) unfolding answers_with_def entitled_def by blast

lemma example_request:
  "handle_request example_cfg [] example_env (blank_pkt\<lparr>chaddr := replicate 16 7, ciaddr := 0x0A000064\<rparr>)
     (find_lease_by_chaddr (replicate 16 7) [example_client, blank_lease]) [example_client, blank_lease]
   = ack example_cfg example_env (blank_pkt\<lparr>chaddr := replicate 16 7, ciaddr := 0x0A000064\<rparr>) 0x0A000064 [example_client, blank_lease]"
proof -
  let ?p = "blank_pkt\<lparr>chaddr := replicate 16 7, ciaddr := 0x0A000064\<rparr>"
  have r: "pkt_rep ?p []" using blank_pkt_rep by (simp add: pkt_rep_def wf_pkt_def)
  have "get_option (pkt_mem j ?p) DHCP_REQUESTED_IP = None" "get_option (pkt_mem j ?p) DHCP_SERVER_ID = None" for j
    using get_option_opts [OF r, of DHCP_REQUESTED_IP] get_option_opts [OF r, of DHCP_SERVER_ID] by (simp_all add: opt_codes)
  moreover have "find_lease_by_chaddr (replicate 16 7) [example_client, blank_lease] = Some 0"
    by (simp add: find_lease_by_chaddr_def example_client_def)
  ultimately show ?thesis
    by (simp add: handle_request_def handle_dynamic_def find_static_lease_by_chaddr_def static_list_def example_client_def)
qed

theorem request_ack_sound_witness:
  "\<exists>out ls' p. handle_request example_cfg [] example_env (blank_pkt\<lparr>chaddr := replicate 16 7, ciaddr := 0x0A000064\<rparr>)
     (find_lease_by_chaddr (replicate 16 7) [example_client, blank_lease]) [example_client, blank_lease] = Some (out, ls')
   \<and> sent_msgs out = [p] \<and> (reply_ok example_cfg (blank_pkt\<lparr>chaddr := replicate 16 7, ciaddr := 0x0A000064\<rparr>) DHCPNAK p
     \<or> held [example_client, blank_lease] (yiaddr p) (replicate 16 7))"
proof -
  let ?p = "blank_pkt\<lparr>chaddr := replicate 16 7, ciaddr := 0x0A000064\<rparr>"
  have "\<exists>r out ls' q. sendACK example_cfg example_env ?p 0x0A000064 [example_client, blank_lease] = Some (r, out, ls')
      \<and> sent_msgs out = [q]"
    using sendACK_eq [OF _ example_cfg_ok(1) refl, of ?p "0x0A000064" "\<lambda>_. 0" example_env "[example_client, blank_lease]"]
    by fastforce
  then obtain out ls' q where o: "handle_request example_cfg [] example_env ?p
      (find_lease_by_chaddr (chaddr ?p) [example_client, blank_lease]) [example_client, blank_lease] = Some (out, ls')"
      "sent_msgs out = [q]"
    using example_request by (fastforce simp: ack_def)
  have "find_static_lease_by_chaddr x [] = None" for x
    by (simp add: find_static_lease_by_chaddr_def static_list_def)
  then show ?thesis
    using request_ack_sound [OF example_table_ok _ example_cfg_ok(1) o(1), of q] o by fastforce
qed



text \<open>A client that asks for an infinite lease gets it, whatever the configured maximum, and the table
  does not learn of it: after the acknowledgement the table still has the client's short-lived offer, so that
  the address is given to another client once the offer has expired.\<close>

theorem infinite_ack_unrecorded:
  assumes "length (chaddr pkt) = 16" and "cfg_ok cfg"
    and "get_option (pkt_mem (se_junk env) pkt) DHCP_LEASE_TIME = Some k"
    and "get_u32 (pkt_mem (se_junk env) pkt) k = 0xFFFFFFFF"
  shows "\<exists>r out p. sendACK cfg env pkt a ls = Some (r, out, ls) \<and> sent_msgs out = [p]
    \<and> reply_ok cfg pkt DHCPACK p \<and> yiaddr p = a \<and> opt_data (pkt_mem (\<lambda>_. 0) p) DHCP_LEASE_TIME = Some (be32 0xFFFFFFFF)"
proof -
  have "(0xFFFFFFFF :: u32) = - 1" by simp
  then have "\<not> (0xFFFFFFFF :: u32) < sc_min_lease cfg"
    using word_order.extremum [of "sc_min_lease cfg"] by (metis leD)
  then have t: "ack_lease_time cfg (pkt_mem (se_junk env) pkt) = 0xFFFFFFFF"
    using assms(3,4) by (simp add: ack_lease_time_def Let_def ntohl_def)
  then show ?thesis using sendACK_eq [OF assms(1,2) refl, of a "\<lambda>_. 0" env ls] by fastforce
qed

theorem infinite_ack_unrecorded_witness:
  "\<exists>r out p. sendACK example_cfg example_env (blank_pkt\<lparr>chaddr := replicate 16 7,
       options := [DHCP_LEASE_TIME, 4, 255, 255, 255, 255, DHCP_END] @ replicate 301 0\<rparr>) 0x0A000064 [example_client, blank_lease]
     = Some (r, out, [example_client, blank_lease]) \<and> sent_msgs out = [p] \<and> yiaddr p = 0x0A000064"
proof -
  let ?p = "blank_pkt\<lparr>chaddr := replicate 16 7, options := [DHCP_LEASE_TIME, 4, 255, 255, 255, 255, DHCP_END] @ replicate 301 0\<rparr>"
  have r: "pkt_rep ?p [(DHCP_LEASE_TIME, [255, 255, 255, 255])]"
    by (simp add: pkt_rep_def wf_pkt_def opts_in_def blank_pkt_def opt_codes)
  have g: "get_option (pkt_mem j ?p) DHCP_LEASE_TIME = Some 242" for j
    using get_option_opts [OF r, of DHCP_LEASE_TIME j] by (simp add: opt_codes OPTIONS_OFF_def)
  have wf: "wf_pkt ?p" using r by (simp add: pkt_rep_def)
  have m: "pkt_mem j ?p (240 + i) = options ?p ! i" if "i < 308" for j i
    using pkt_mem_options [OF wf that] by (simp add: OPTIONS_OFF_def)
  have "get_u32 (pkt_mem j ?p) 242 = 0xFFFFFFFF" for j
    using m [of 2 j] m [of 3 j] m [of 4 j] m [of 5 j] by (simp add: get_u32_def)
  then show ?thesis
    using infinite_ack_unrecorded [OF _ example_cfg_ok(1) g, of example_env "0x0A000064" "[example_client, blank_lease]"]
    by auto
qed

text \<open>A field of padding bytes has no end.\<close>

lemma end_option_padding:
  "\<forall>j \<ge> i. j < length p \<longrightarrow> p ! j = DHCP_PADDING \<Longrightarrow> end_option_from p i = None"
proof (induction p i rule: end_option_from.induct)
  case (1 p i)
  show ?case
  proof (cases "i < length p")
    case True
    then show ?thesis using 1 by (subst end_option_from.simps) (simp add: rd_def OPT_CODE_def opt_codes)
  next
    case False
    then show ?thesis by (subst end_option_from.simps) (simp add: rd_def OPT_CODE_def)
  qed
qed

text \<open>Claim C32: a request can make the server write behind the message buffer. The request of a client with a
  reserved address gets a lease-time option appended in place, at the end marker of its option field;
  when the sender has left the marker out, the search for it runs past the buffer.\<close>

theorem static_request_overruns:
  assumes "find_static_lease_by_chaddr (chaddr pkt) st = Some k"
    and "map_option (get_u32 (pkt_mem (se_junk env) pkt)) (get_option (pkt_mem (se_junk env) pkt) DHCP_SERVER_ID)
      = Some (sc_server cfg)"
    and "map_option (get_u32 (pkt_mem (se_junk env) pkt)) (get_option (pkt_mem (se_junk env) pkt) DHCP_REQUESTED_IP)
      = Some (l_yiaddr (st ! k))"
    and "end_option (options pkt) = None"
  shows "handle_request cfg st env pkt lease ls = None"
proof -
  have "pkt_add_simple pkt DHCP_LEASE_TIME 0xFFFFFFFF = None"
    using assms(4) pkt_add_simple_eq [of DHCP_LEASE_TIME pkt "0xFFFFFFFF"]
    by (simp add: pkt_add_def add_option_string_def)
  then show ?thesis using assms(1-3) by (simp add: handle_request_def Let_def)
qed

theorem static_request_overruns_witness:
  "handle_request example_cfg [example_client] example_env (blank_pkt\<lparr>chaddr := replicate 16 7,
     options := [DHCP_SERVER_ID, 4, 10, 0, 0, 1, DHCP_REQUESTED_IP, 4, 10, 0, 0, 0x64] @ replicate 296 0\<rparr>) None [] = None"
proof -
  let ?o = "[DHCP_SERVER_ID, 4, 10, 0, 0, 1, DHCP_REQUESTED_IP, 4, 10, 0, 0, 0x64] @ replicate 296 (0 :: u8)"
  let ?p = "blank_pkt\<lparr>chaddr := replicate 16 7, options := ?o\<rparr>"
  have "wf_pkt ?p" by (simp add: wf_pkt_def blank_pkt_def)
  then have m: "pkt_mem j ?p (240 + i) = ?o ! i" if "i < 308" for i j
    using pkt_mem_options [of ?p i j] that by (simp add: OPTIONS_OFF_def)
  note mm = m [of 0] m [of 1] m [of 2] m [of 3] m [of 4] m [of 5] m [of 6] m [of 7] m [of 8] m [of 9] m [of 10] m [of 11]
  have g: "get_option (pkt_mem j ?p) DHCP_SERVER_ID = Some 242" "get_option (pkt_mem j ?p) DHCP_REQUESTED_IP = Some 248" for j
    using mm [of j] by (simp_all add: get_option_def get_opt_loop.simps opt_codes OPTIONS_OFF_def OPT_CODE_def OPT_LEN_def
      OPTION_FIELD_def FILE_FIELD_def)
  have u: "get_u32 (pkt_mem j ?p) 242 = 0x0A000001" "get_u32 (pkt_mem j ?p) 248 = 0x0A000064" for j
    using mm [of j] by (simp_all add: get_u32_def)
  have e: "end_option ?o = None"
    using end_option_padding [of 12 ?o]
    by (simp add: end_option_def end_option_from.simps [of _ 0] end_option_from.simps [of _ 6] rd_def OPT_CODE_def OPT_LEN_def
      opt_codes nth_Cons')
  show ?thesis
  proof (rule static_request_overruns [where k = 0])
    show "find_static_lease_by_chaddr (chaddr ?p) [example_client] = Some 0"
      by (simp add: find_static_lease_by_chaddr_def static_list_def example_client_def MAX_STATIC_LEASES_def)
    show "end_option (options ?p) = None" using e by simp
  qed (unfold g u option.map, simp_all add: example_cfg_def example_client_def)
qed

end
