(* ===== verification/Dhcp_Files.thy ===== *)
theory Dhcp_Files
  imports C_Library Dhcp_Server
begin

text \<open>
  The files of the DHCP server, \<^verbatim>\<open>udhcpcd/files.c\<close>: the configuration reader with its handlers, and the lease
  file. A line lives in the 80 byte buffer of \<^verbatim>\<open>read_config\<close>, in which \<^verbatim>\<open>strtok\<close> writes terminators; pointers
  into it are offsets. \<open>None\<close> is a null pointer handed to a function that dereferences it or a read behind
  the buffer. \<^verbatim>\<open>gethostbyname\<close> is the parameter \<open>resolve\<close>.
\<close>

unbundle bit_operations_syntax

section \<open>Values\<close>

definition read_ip :: "(u8 list \<Rightarrow> u32 option) \<Rightarrow> u8 list \<Rightarrow> u32 option" where
  "read_ip resolve line = (case inet_aton line of Some a \<Rightarrow> Some a | None \<Rightarrow> resolve line)"

definition read_u32 :: "u8 list \<Rightarrow> u32 \<times> bool" where
  "read_u32 line = (let (v, endptr) = strtoul line in (v, endptr = []))"

definition read_yn :: "u8 list \<Rightarrow> bool option" where
  "read_yn line = (if strcasecmp_eq (bs ''yes'') line then Some True
     else if strcasecmp_eq (bs ''no'') line then Some False else None)"

section \<open>Options\<close>

text \<open>The value of one option: \<open>Some None\<close> when it does not parse. The address pair takes a second token.\<close>

definition opt_value :: "(u8 list \<Rightarrow> u32 option) \<Rightarrow> dhcp_option \<Rightarrow> u8 list \<Rightarrow> nat \<Rightarrow> nat \<Rightarrow>
    (u8 list option \<times> u8 list \<times> nat) option" where
  "opt_value resolve opt buf val pos = do {
     let t = o_flags opt AND TYPE_MASK;
     s \<leftarrow> str_at buf val;
     if t = OPTION_IP then Some (map_option be32 (read_ip resolve s), buf, pos)
     else if t = OPTION_IP_PAIR then
       (case strtok buf pos (bs '', '' @ [0x09] @ bs ''/-'') of
          None \<Rightarrow> Some (None, buf, pos)
        | Some (v2, pos, buf) \<Rightarrow> do {
            s2 \<leftarrow> str_at buf v2;
            Some (do { a \<leftarrow> read_ip resolve s; b \<leftarrow> read_ip resolve s2; Some (be32 a @ be32 b) }, buf, pos) })
     else if t = OPTION_STRING then Some (if s \<noteq> [] then Some (take 254 s) else None, buf, pos)
     else if t = OPTION_BOOLEAN then Some (map_option (\<lambda>b. [if b then 1 else 0]) (read_yn s), buf, pos)
     else if t = OPTION_U8 then
       Some (case strtoul s of (v, e) \<Rightarrow> if e = [] then Some [ucast v] else None, buf, pos)
     else if t = OPTION_U16 then
       Some (case strtoul s of (v, e) \<Rightarrow> if e = [] then Some (be16 (htons (ucast v))) else None, buf, pos)
     else if t = OPTION_S16 then
       Some (case strtol s of (v, e) \<Rightarrow> if e = [] then Some (be16 (htons (ucast v))) else None, buf, pos)
     else if t = OPTION_U32 then
       Some (case strtoul s of (v, e) \<Rightarrow> if e = [] then Some (be32 (htonl v)) else None, buf, pos)
     else if t = OPTION_S32 then
       Some (case strtol s of (v, e) \<Rightarrow> if e = [] then Some (be32 (htonl v)) else None, buf, pos)
     else Some (None, buf, pos) }"

text \<open>The loop over the values. \<open>sval\<close> is \<^verbatim>\<open>line + strlen(opt) + 1\<close>, where a string, boolean or byte is read.\<close>

partial_function (option) read_opt_loop :: "(u8 list \<Rightarrow> u32 option) \<Rightarrow> dhcp_option \<Rightarrow> nat \<Rightarrow> bool \<Rightarrow> u8 list \<Rightarrow> nat \<Rightarrow>
    u8 list list \<Rightarrow> (bool \<times> u8 list \<times> u8 list list) option" where
  "read_opt_loop resolve opt sval retval buf pos opts =
     (case (if option_lengths (o_flags opt AND TYPE_MASK) > 1 then strtok buf pos (bs '', '' @ [0x09])
         else Some (sval, pos, buf)) of
        None \<Rightarrow> Some (retval, buf, opts)
      | Some vb \<Rightarrow> do {
          r \<leftarrow> opt_value resolve opt (snd (snd vb)) (fst vb) (fst (snd vb));
          case fst r of
            None \<Rightarrow> Some (False, fst (snd r), opts)
          | Some d \<Rightarrow> do {
              opts \<leftarrow> attach_option opts opt d;
              if o_flags opt AND OPTION_LIST \<noteq> 0
              then read_opt_loop resolve opt sval True (fst (snd r)) (snd (snd r)) opts
              else Some (True, fst (snd r), opts) } })"

declare read_opt_loop.simps [code]

definition lookup_option :: "u8 list \<Rightarrow> dhcp_option option" where
  "lookup_option name = fold (\<lambda>opt r. if bs (o_name opt) = name then Some opt else r) dhcp_options None"

definition read_opt :: "(u8 list \<Rightarrow> u32 option) \<Rightarrow> u8 list \<Rightarrow> nat \<Rightarrow> u8 list list \<Rightarrow>
    (bool \<times> u8 list \<times> u8 list list) option" where
  "read_opt resolve buf line opts =
     (case strtok buf line (bs '' '' @ [0x09] @ bs ''='') of
        None \<Rightarrow> Some (False, buf, opts)
      | Some (o', pos, buf) \<Rightarrow>
          let name = cstr (drop o' buf) in
          case lookup_option name of
            None \<Rightarrow> Some (False, buf, opts)
          | Some opt \<Rightarrow> read_opt_loop resolve opt (line + length name + 1) False buf pos opts)"

section \<open>Static leases\<close>

definition hexval :: "u8 \<Rightarrow> u32 option" where
  "hexval c = (if c_isdigit c then Some (ucast (c - 0x30))
     else if 0x61 \<le> c \<and> c \<le> 0x66 then Some (ucast (c - 0x61) + 10)
     else if 0x41 \<le> c \<and> c \<le> 0x46 then Some (ucast (c - 0x41) + 10) else None)"

text \<open>One byte of the address: two digits, or one digit before a separator or the end; the separator
  that follows is skipped.\<close>

definition haddr_byte :: "u8 list \<Rightarrow> (u8 \<times> u8 list) option" where
  "haddr_byte bufp = do {
     val \<leftarrow> hexval (hd bufp);
     let val = push_bit 4 val;
     let bufp = tl bufp;
     (val, bufp) \<leftarrow> (case bufp of
         [] \<Rightarrow> Some (drop_bit 4 val, [])
       | c # bufp \<Rightarrow> (case hexval c of
             Some v \<Rightarrow> Some (val OR v, bufp)
           | None \<Rightarrow> if c = 0x3A \<or> c = 0x2D then Some (drop_bit 4 val, bufp) else None));
     Some (ucast val, if bufp \<noteq> [] \<and> (hd bufp = 0x3A \<or> hd bufp = 0x2D) then tl bufp else bufp) }"

lemma haddr_byte_less:
  assumes "haddr_byte s = Some (v, r)" and "s \<noteq> []" shows "length r < length s"
proof -
  have l: "length (if b \<noteq> [] \<and> P then tl b else b) \<le> length b" for b :: "u8 list" and P by simp
  obtain c t where s: "s = c # t" using assms(2) by (cases s) auto
  obtain h where h: "hexval c = Some h" using assms(1) s by (cases "hexval c") (auto simp: haddr_byte_def)
  show ?thesis
  proof (cases t)
    case Nil
    then show ?thesis using assms(1) s h by (simp add: haddr_byte_def)
  next
    case (Cons c2 u)
    then have "length r \<le> length u"
      using assms(1) s h l [of u] by (cases "hexval c2") (auto simp: haddr_byte_def Let_def split: if_splits)
    then show ?thesis using s Cons by simp
  qed
qed

function haddr_loop :: "nat \<Rightarrow> u8 list \<Rightarrow> u8 list \<Rightarrow> u8 list option" where
  "haddr_loop i ch bufp =
     (if bufp \<noteq> [] \<and> i < 6 then
        (case haddr_byte bufp of None \<Rightarrow> None
         | Some (v, bufp) \<Rightarrow> haddr_loop (i + 1) (ch @ [v]) bufp)
      else if i = 6 \<and> bufp = [] then Some ch else None)"
  by pat_completeness auto
termination
  by (relation "measure (\<lambda>(i, ch, bufp). length bufp)") (auto dest: haddr_byte_less)

declare haddr_loop.simps [simp del]

definition read_haddr :: "u8 list \<Rightarrow> nat \<Rightarrow> u8 list option option" where
  "read_haddr buf line = (case strtok buf line (bs '', '' @ [0x09]) of
     None \<Rightarrow> None
   | Some (b, pos, buf) \<Rightarrow> Some (haddr_loop 0 [] (cstr (drop b buf))))"

text \<open>What the handlers change: the configuration, the static leases and the static variable \<^verbatim>\<open>index\<close>.\<close>

record conf =
  cf_cfg :: server_config
  cf_static :: "lease list"
  cf_index :: nat

definition store_static :: "u32 \<Rightarrow> u8 list \<Rightarrow> conf \<Rightarrow> conf option" where
  "store_static yi ch cf = do {
     old \<leftarrow> rd (cf_static cf) (cf_index cf);
     st \<leftarrow> wr (cf_static cf) (cf_index cf) (old\<lparr>l_yiaddr := yi, l_chaddr := ch @ replicate 10 0\<rparr>);
     Some (cf\<lparr>cf_static := st, cf_index := cf_index cf + 1\<rparr>) }"

definition read_static :: "(u8 list \<Rightarrow> u32 option) \<Rightarrow> u8 list \<Rightarrow> nat \<Rightarrow> conf \<Rightarrow> (bool \<times> u8 list \<times> conf) option" where
  "read_static resolve buf line cf =
     (if cf_index cf \<ge> MAX_STATIC_LEASES then Some (False, buf, cf)
      else case strtok buf line (bs '', '' @ [0x09]) of
        None \<Rightarrow> None
      | Some (v, pos, buf) \<Rightarrow>
          let ip = read_ip resolve (cstr (drop v buf)) in
          case strtok buf pos (bs '', '' @ [0x09] @ bs ''/-'') of
            None \<Rightarrow> Some (False, buf, cf)
          | Some (v2, pos, buf) \<Rightarrow>
              (case ip of None \<Rightarrow> Some (False, buf, cf)
               | Some yi \<Rightarrow> do {
                   h \<leftarrow> read_haddr buf v2;
                   case h of None \<Rightarrow> Some (False, buf, cf)
                   | Some ch \<Rightarrow> do { cf \<leftarrow> store_static yi ch cf; Some (True, buf, cf) } }))"

section \<open>The configuration file\<close>

text \<open>A keyword has a handler and the address of the variable it sets: here the update of the configuration.\<close>

datatype kw_handler =
    K_ip "u32 \<Rightarrow> server_config \<Rightarrow> server_config"
  | K_str "u8 list \<Rightarrow> server_config \<Rightarrow> server_config"
  | K_u32 "u32 \<Rightarrow> server_config \<Rightarrow> server_config"
  | K_yn "bool \<Rightarrow> server_config \<Rightarrow> server_config"
  | K_opt
  | K_static

record config_keyword =
  kw_keyword :: "u8 list"
  kw_handler :: kw_handler
  kw_def :: "u8 list"

definition keyword :: "string \<Rightarrow> kw_handler \<Rightarrow> string \<Rightarrow> config_keyword" where
  "keyword k h d = \<lparr>kw_keyword = bs k, kw_handler = h, kw_def = bs d\<rparr>"

definition keyword_table :: "config_keyword list" where
  "keyword_table = [
     keyword ''start'' (K_ip (\<lambda>a c. c\<lparr>sc_start := a\<rparr>)) ''192.168.0.20'',
     keyword ''end'' (K_ip (\<lambda>a c. c\<lparr>sc_end := a\<rparr>)) ''192.168.0.254'',
     keyword ''interface'' (K_str (\<lambda>s c. c\<lparr>sc_interface := s\<rparr>)) ''eth0'',
     keyword ''option'' K_opt [],
     keyword ''opt'' K_opt [],
     keyword ''max_leases'' (K_u32 (\<lambda>n c. c\<lparr>sc_max_leases := n\<rparr>)) ''254'',
     keyword ''remaining'' (K_yn (\<lambda>b c. c\<lparr>sc_remaining := b\<rparr>)) ''yes'',
     keyword ''auto_time'' (K_u32 (\<lambda>n c. c\<lparr>sc_auto_time := n\<rparr>)) ''7200'',
     keyword ''decline_time'' (K_u32 (\<lambda>n c. c\<lparr>sc_decline_time := n\<rparr>)) ''3600'',
     keyword ''conflict_time'' (K_u32 (\<lambda>n c. c\<lparr>sc_conflict_time := n\<rparr>)) ''3600'',
     keyword ''offer_time'' (K_u32 (\<lambda>n c. c\<lparr>sc_offer_time := n\<rparr>)) ''60'',
     keyword ''min_lease'' (K_u32 (\<lambda>n c. c\<lparr>sc_min_lease := n\<rparr>)) ''60'',
     keyword ''lease_file'' (K_str (\<lambda>s c. c\<lparr>sc_lease_file := s\<rparr>)) ''/var/lib/misc/udhcpd.leases'',
     keyword ''pidfile'' (K_str (\<lambda>s c. c\<lparr>sc_pidfile := s\<rparr>)) ''/var/run/udhcpd.pid'',
     keyword ''notify_file'' (K_str (\<lambda>s c. c\<lparr>sc_notify_file := Some s\<rparr>)) [],
     keyword ''siaddr'' (K_ip (\<lambda>a c. c\<lparr>sc_siaddr := a\<rparr>)) ''0.0.0.0'',
     keyword ''sname'' (K_str (\<lambda>s c. c\<lparr>sc_sname := Some s\<rparr>)) [],
     keyword ''boot_file'' (K_str (\<lambda>s c. c\<lparr>sc_boot_file := Some s\<rparr>)) [],
     keyword ''static'' K_static []]"

definition run_handler :: "(u8 list \<Rightarrow> u32 option) \<Rightarrow> kw_handler \<Rightarrow> u8 list \<Rightarrow> nat \<Rightarrow> conf \<Rightarrow> (bool \<times> u8 list \<times> conf) option" where
  "run_handler resolve k buf line cf = do {
     s \<leftarrow> str_at buf line;
     let c = cf_cfg cf;
     case k of
       K_ip f \<Rightarrow> Some (case read_ip resolve s of None \<Rightarrow> (False, buf, cf) | Some a \<Rightarrow> (True, buf, cf\<lparr>cf_cfg := f a c\<rparr>))
     | K_str f \<Rightarrow> Some (True, buf, cf\<lparr>cf_cfg := f s c\<rparr>)
     | K_u32 f \<Rightarrow> Some (case read_u32 s of (v, ok) \<Rightarrow> (ok, buf, cf\<lparr>cf_cfg := f v c\<rparr>))
     | K_yn f \<Rightarrow> Some (case read_yn s of None \<Rightarrow> (False, buf, cf) | Some b \<Rightarrow> (True, buf, cf\<lparr>cf_cfg := f b c\<rparr>))
     | K_opt \<Rightarrow> map_option (\<lambda>(r, buf, o'). (r, buf, cf\<lparr>cf_cfg := c\<lparr>sc_options := o'\<rparr>\<rparr>))
         (read_opt resolve buf line (sc_options c))
     | K_static \<Rightarrow> read_static resolve buf line cf }"

text \<open>A handler on the default value of its keyword, a 30 byte array.\<close>

definition run_default :: "(u8 list \<Rightarrow> u32 option) \<Rightarrow> config_keyword \<Rightarrow> conf \<Rightarrow> conf option" where
  "run_default resolve kw cf = map_option (\<lambda>(r, b, cf). cf)
     (run_handler resolve (kw_handler kw) (kw_def kw @ replicate (30 - length (kw_def kw)) 0) 0 cf)"

fun config_defaults :: "(u8 list \<Rightarrow> u32 option) \<Rightarrow> config_keyword list \<Rightarrow> conf \<Rightarrow> conf option" where
  "config_defaults resolve [] cf = Some cf"
| "config_defaults resolve (kw # kws) cf = do {
     cf \<leftarrow> (if kw_def kw \<noteq> [] then run_default resolve kw cf else Some cf);
     config_defaults resolve kws cf }"

text \<open>The two halves of a line: the offsets of the keyword and of its value, with the terminators in place.\<close>

definition split_line :: "u8 list \<Rightarrow> (nat \<times> nat \<times> u8 list) option" where
  "split_line buffer =
     (let s = cstr buffer; ws = bs '' '' @ [0x09];
        buffer = (if 0x0A \<in> set s then buffer[strcspn s [0x0A] := 0] else buffer);
        s = cstr buffer; token = strspn s ws in
      if drop token s = [] then None
      else
        let line = token + strcspn (drop token s) (ws @ bs ''='') in
        if line = length s then None
        else
          let buffer = buffer[line := 0]; line = line + 1;
            line = line + strspn (cstr (drop line buffer)) (ws @ bs ''='');
            v = cstr (drop line buffer); i = length (dropWhile c_isspace (rev v))
          in Some (token, line, buffer[line + i := 0]))"

fun config_keywords :: "(u8 list \<Rightarrow> u32 option) \<Rightarrow> config_keyword list \<Rightarrow> u8 list \<Rightarrow> nat \<Rightarrow> u8 list \<Rightarrow> conf \<Rightarrow>
    (u8 list \<times> conf) option" where
  "config_keywords resolve [] token line buf cf = Some (buf, cf)"
| "config_keywords resolve (kw # kws) token line buf cf =
     (if strcasecmp_eq token (kw_keyword kw) then do {
        (r, buf, cf) \<leftarrow> run_handler resolve (kw_handler kw) buf line cf;
        cf \<leftarrow> (if \<not> r then run_default resolve kw cf else Some cf);
        config_keywords resolve kws token line buf cf }
      else config_keywords resolve kws token line buf cf)"

function config_lines :: "(u8 list \<Rightarrow> u32 option) \<Rightarrow> u8 list \<Rightarrow> u8 list \<Rightarrow> conf \<Rightarrow> conf option" where
  "config_lines resolve buffer inp cf = (case fgets buffer 80 inp of None \<Rightarrow> Some cf
     | Some (buffer, inp) \<Rightarrow>
         (case split_line buffer of
            None \<Rightarrow> config_lines resolve buffer inp cf
          | Some (token, line, buffer) \<Rightarrow>
              (case config_keywords resolve keyword_table (cstr (drop token buffer)) line buffer cf of
                 None \<Rightarrow> None
               | Some (buffer, cf) \<Rightarrow> config_lines resolve buffer inp cf)))"
  by pat_completeness auto
termination
  by (relation "measure (\<lambda>(r, b, inp, cf). length inp)") (auto dest: fgets_less)

declare config_lines.simps [simp del]

text \<open>\<open>file'\<close> is the content of the file, \<open>buffer\<close> what the stack held before the first line.\<close>

definition read_config :: "(u8 list \<Rightarrow> u32 option) \<Rightarrow> u8 list option \<Rightarrow> u8 list \<Rightarrow> conf \<Rightarrow> conf option" where
  "read_config resolve file' buffer cf = do {
     cf \<leftarrow> config_defaults resolve keyword_table cf;
     case file' of None \<Rightarrow> Some cf | Some inp \<Rightarrow> config_lines resolve buffer inp cf }"

section \<open>The lease file\<close>

definition lease_record :: "server_config \<Rightarrow> u32 \<Rightarrow> lease \<Rightarrow> u8 list" where
  "lease_record cfg now l =
     (let t = (if sc_remaining cfg then (if lease_expired now l then 0 else l_expires l - now) else l_expires l) in
      if l_yiaddr l \<noteq> 0 \<and> l_ACKed l \<noteq> 0
      then l_chaddr l @ be32 (l_yiaddr l) @ be32 (htonl t) @ be32 (l_ACKed l) @ l_hostname l else [])"

text \<open>The bytes written, unless the file cannot be opened, and the command run; \<open>None\<close> when the command does
  not fit its 255 byte buffer.\<close>

definition write_leases :: "server_config \<Rightarrow> u32 \<Rightarrow> bool \<Rightarrow> lease list \<Rightarrow> (u8 list option \<times> u8 list option) option" where
  "write_leases cfg now opened ls =
     (if \<not> opened then Some (None, None)
      else
        let out = concat (map (lease_record cfg now) (take (unat (sc_max_leases cfg)) ls)) in
        case sc_notify_file cfg of None \<Rightarrow> Some (Some out, None)
        | Some n \<Rightarrow> if 255 \<le> length n + 1 + length (sc_lease_file cfg) then None
            else Some (Some out, Some (n @ bs '' '' @ sc_lease_file cfg)))"

definition static_match :: "lease list \<Rightarrow> lease \<Rightarrow> bool" where
  "static_match st l \<longleftrightarrow> list_ex (\<lambda>s. l_chaddr l = l_chaddr s \<or> l_yiaddr s = l_yiaddr l) (static_list st)"

definition lease_of_record :: "u8 list \<Rightarrow> lease" where
  "lease_of_record b = \<lparr>l_chaddr = take 16 b, l_yiaddr = un_be32 (take 4 (drop 16 b)), l_expires = un_be32 (take 4 (drop 20 b)),
     l_ACKed = un_be32 (take 4 (drop 24 b)), l_hostname = take 64 (drop 28 b)\<rparr>"

function read_leases_from :: "server_config \<Rightarrow> lease list \<Rightarrow> u32 \<Rightarrow> nat \<Rightarrow> u8 list \<Rightarrow> lease list \<Rightarrow> lease list" where
  "read_leases_from cfg st now i inp ls =
     (if i < unat (sc_max_leases cfg) \<and> 92 \<le> length inp then
        let l = lease_of_record (take 92 inp) in
        if l_yiaddr l \<ge> sc_start cfg \<and> l_yiaddr l \<le> sc_end cfg \<and> l_ACKed l \<noteq> 0 \<and> \<not> static_match st l then
          let t = ntohl (l_expires l); t = (if \<not> sc_remaining cfg then t - now else t) in
          (case add_lease now (l_chaddr l) (l_yiaddr l) t (Some (l_hostname l)) ls of
             (None, ls) \<Rightarrow> ls
           | (Some k, ls) \<Rightarrow> read_leases_from cfg st now (i + 1) (drop 92 inp) (ls[k := (ls ! k)\<lparr>l_ACKed := 1\<rparr>]))
        else read_leases_from cfg st now i (drop 92 inp) ls
      else ls)"
  by pat_completeness auto
termination
  by (relation "measure (\<lambda>(c, s, n, i, inp, ls). length inp)") auto

declare read_leases_from.simps [simp del]

definition read_leases :: "server_config \<Rightarrow> lease list \<Rightarrow> u32 \<Rightarrow> u8 list option \<Rightarrow> lease list \<Rightarrow> lease list" where
  "read_leases cfg st now file' ls = (case file' of None \<Rightarrow> ls | Some inp \<Rightarrow> read_leases_from cfg st now 0 inp ls)"

section \<open>The configuration the server relies on\<close>

definition opts_good :: "u8 list list \<Rightarrow> bool" where
  "opts_good opts \<longleftrightarrow> (\<exists>os. opts = map enc_opt os \<and> olist_ok os \<and> list_all opt_ok os)"

lemma dhcp_options_ok: "opt \<in> set dhcp_options \<Longrightarrow> o_code opt < 128 \<and> opt_ok (o_code opt, [])"
  by (auto simp: dhcp_options_def dhcp_opt_def opt_codes)

lemma attach_spec_opt_ok:
  assumes "list_all opt_ok os" and "opt_ok (c, [])" and "length d < 256"
  shows "list_all opt_ok (attach_spec os c l d)"
  using assms by (induction os c l d rule: attach_spec.induct) auto

lemma attach_option_good:
  assumes "opts_good opts" and "o_code opt < 128" and "opt_ok (o_code opt, [])" and "length d < 256"
  shows "\<exists>opts'. attach_option opts opt d = Some opts' \<and> opts_good opts'"
proof -
  obtain os where os: "opts = map enc_opt os" "olist_ok os" "list_all opt_ok os" using assms(1) by (auto simp: opts_good_def)
  then show ?thesis
    using attach_refines [OF os(2) assms(2,4)] attach_spec_opt_ok [OF os(3) assms(3,4)] unfolding opts_good_def by blast
qed

lemma opt_value_length:
  "opt_value resolve opt buf val pos = Some (Some d, buf', pos') \<Longrightarrow> length d < 256"
  unfolding opt_value_def Let_def
  by (auto simp: bind_eq_Some_conv split: if_splits option.splits prod.splits)

lemma read_opt_loop_good:
  assumes "read_opt_loop resolve opt sval retval buf pos opts = Some r" and "opts_good opts"
    and "o_code opt < 128" and "opt_ok (o_code opt, [])"
  shows "opts_good (snd (snd r))"
proof -
  have "o_code opt < 128 \<longrightarrow> opt_ok (o_code opt, []) \<longrightarrow> opts_good opts \<longrightarrow> opts_good (snd (snd r))"
  proof (rule read_opt_loop.raw_induct [where P = "\<lambda>resolve opt sval retval buf pos opts r.
      o_code opt < 128 \<longrightarrow> opt_ok (o_code opt, []) \<longrightarrow> opts_good opts \<longrightarrow> opts_good (snd (snd r))", OF _ assms(1)], intro impI)
    fix loop resolve opt sval retval buf pos opts r
    assume ih: "\<And>resolve opt sval retval buf pos opts r. loop resolve opt sval retval buf pos opts = Some r \<Longrightarrow>
        o_code opt < 128 \<longrightarrow> opt_ok (o_code opt, []) \<longrightarrow> opts_good opts \<longrightarrow> opts_good (snd (snd r))"
      and eq: "(case (if option_lengths (o_flags opt AND TYPE_MASK) > 1 then strtok buf pos (bs '', '' @ [0x09])
         else Some (sval, pos, buf)) of
        None \<Rightarrow> Some (retval, buf, opts)
      | Some vb \<Rightarrow> do {
          r \<leftarrow> opt_value resolve opt (snd (snd vb)) (fst vb) (fst (snd vb));
          case fst r of
            None \<Rightarrow> Some (False, fst (snd r), opts)
          | Some d \<Rightarrow> do {
              opts \<leftarrow> attach_option opts opt d;
              if o_flags opt AND OPTION_LIST \<noteq> 0
              then loop resolve opt sval True (fst (snd r)) (snd (snd r)) opts
              else Some (True, fst (snd r), opts) } }) = Some r"
      and c: "o_code opt < 128" "opt_ok (o_code opt, [])" and g: "opts_good opts"
    show "opts_good (snd (snd r))"
    proof (cases "(if option_lengths (o_flags opt AND TYPE_MASK) > 1 then strtok buf pos (bs '', '' @ [0x09]) else Some (sval, pos, buf))")
      case None
      then show ?thesis using eq g by auto
    next
      case (Some vb)
      then obtain w where w: "opt_value resolve opt (snd (snd vb)) (fst vb) (fst (snd vb)) = Some w"
        using eq by (auto simp: bind_eq_Some_conv)
      show ?thesis
      proof (cases "fst w")
        case None
        then show ?thesis using eq Some w g by auto
      next
        case (Some d)
        have "length d < 256" using opt_value_length [of resolve opt "snd (snd vb)" "fst vb" "fst (snd vb)" d "fst (snd w)" "snd (snd w)"]
          w Some by (cases w) auto
        then obtain opts' where a: "attach_option opts opt d = Some opts'" "opts_good opts'"
          using attach_option_good [OF g c] by blast
        have "(if o_flags opt AND OPTION_LIST \<noteq> 0 then loop resolve opt sval True (fst (snd w)) (snd (snd w)) opts'
            else Some (True, fst (snd w), opts')) = Some r"
          using eq \<open>_ = Some vb\<close> w Some a(1) by simp
        then show ?thesis using ih a(2) c by (auto split: if_splits)
      qed
    qed
  qed
  then show ?thesis using assms by blast
qed

lemma lookup_option_in: "lookup_option n = Some opt \<Longrightarrow> opt \<in> set dhcp_options"
proof -
  have "fold (\<lambda>opt r. if bs (o_name opt) = n then Some opt else r) os r = Some opt \<Longrightarrow> r = Some opt \<or> opt \<in> set os" for os r
    by (induction os arbitrary: r) (auto split: if_splits)
  then show "lookup_option n = Some opt \<Longrightarrow> opt \<in> set dhcp_options" unfolding lookup_option_def by blast
qed

lemma read_opt_good:
  assumes "read_opt resolve buf line opts = Some (r, buf', opts')" and "opts_good opts"
  shows "opts_good opts'"
  using assms read_opt_loop_good dhcp_options_ok lookup_option_in
  by (fastforce simp: read_opt_def Let_def split: option.splits prod.splits)

text \<open>The part of the configuration the file determines is sound: the options are in order, the static leases
  fit their table.\<close>

definition conf_ok :: "conf \<Rightarrow> bool" where
  "conf_ok cf \<longleftrightarrow> opts_good (sc_options (cf_cfg cf)) \<and> length (cf_static cf) = MAX_STATIC_LEASES \<and> cf_index cf \<le> MAX_STATIC_LEASES
     \<and> list_all wf_lease (cf_static cf)"

lemma haddr_loop_length: "haddr_loop i ch s = Some r \<Longrightarrow> length ch = i \<Longrightarrow> length r = 6"
proof (induction i ch s rule: haddr_loop.induct)
  case (1 i ch s)
  show ?case using "1.prems" "1.IH" by (subst (asm) haddr_loop.simps) (auto split: if_splits option.splits prod.splits)
qed

lemma store_static_ok:
  assumes "conf_ok cf" and "cf_index cf < MAX_STATIC_LEASES" and "length ch = 6"
  shows "\<exists>cf'. store_static yi ch cf = Some cf' \<and> conf_ok cf'"
proof -
  let ?e = "(cf_static cf ! cf_index cf)\<lparr>l_yiaddr := yi, l_chaddr := ch @ replicate 10 0\<rparr>"
  have l: "cf_index cf < length (cf_static cf)" "wf_lease (cf_static cf ! cf_index cf)"
    using assms(1,2) by (simp_all add: conf_ok_def list_all_length)
  then have "wf_lease ?e" using assms(3) by (simp add: wf_lease_def)
  then have "list_all wf_lease ((cf_static cf)[cf_index cf := ?e])"
    using assms(1) l(1) by (auto simp: conf_ok_def list_all_length nth_list_update)
  moreover have "store_static yi ch cf = Some (cf\<lparr>cf_static := (cf_static cf)[cf_index cf := ?e], cf_index := cf_index cf + 1\<rparr>)"
    using l(1) by (simp add: store_static_def rd_def wr_def)
  ultimately show ?thesis using assms(1,2) by (simp add: conf_ok_def)
qed

lemma read_static_stores:
  assumes "read_static resolve buf line cf = Some x" and "snd (snd x) \<noteq> cf"
  shows "\<exists>yi b v ch. cf_index cf < MAX_STATIC_LEASES \<and> read_haddr b v = Some (Some ch) \<and> store_static yi ch cf = Some (snd (snd x))"
proof -
  have i: "\<not> cf_index cf \<ge> MAX_STATIC_LEASES" using assms by (auto simp: read_static_def)
  then obtain v pos b where t: "strtok buf line (bs '', '' @ [0x09]) = Some (v, pos, b)"
    using assms(1) by (cases "strtok buf line (bs '', '' @ [0x09])") (auto simp: read_static_def)
  note h = assms(1) [unfolded read_static_def if_not_P [OF i] t option.case prod.case Let_def]
  obtain v2 pos2 b2 where t2: "strtok b pos (bs '', '' @ [0x09] @ bs ''/-'') = Some (v2, pos2, b2)"
    using h assms(2) by (cases "strtok b pos (bs '', '' @ [0x09] @ bs ''/-'')") auto
  note h2 = h [unfolded t2 option.case prod.case]
  obtain yi where yi: "read_ip resolve (cstr (drop v b)) = Some yi"
    using h2 assms(2) by (cases "read_ip resolve (cstr (drop v b))") auto
  note h3 = h2 [unfolded yi option.case]
  obtain g where g: "read_haddr b2 v2 = Some g" using h3 by (cases "read_haddr b2 v2") auto
  obtain ch where ch: "g = Some ch" using h3 [unfolded g bind.bind_lunit] assms(2) by (cases g) auto
  have "store_static yi ch cf = Some (snd (snd x))"
    using h3 [unfolded g ch bind.bind_lunit option.case] by (cases "store_static yi ch cf") auto
  then show ?thesis using i g ch by auto
qed

lemma read_static_ok:
  assumes "read_static resolve buf line cf = Some x" and ok: "conf_ok cf"
  shows "conf_ok (snd (snd x))"
proof (cases "snd (snd x) = cf")
  case False
  then obtain yi b v ch where r: "cf_index cf < MAX_STATIC_LEASES" "read_haddr b v = Some (Some ch)"
      "store_static yi ch cf = Some (snd (snd x))"
    using read_static_stores [OF assms(1)] by blast
  have "length ch = 6" using r(2) haddr_loop_length [of 0 "[]"] by (auto simp: read_haddr_def split: option.splits)
  then show ?thesis using store_static_ok [OF ok r(1), of ch yi] r(3) by auto
qed (use ok in simp)

definition sets_no_option :: "kw_handler \<Rightarrow> bool" where
  "sets_no_option k \<longleftrightarrow> (case k of
     K_ip f \<Rightarrow> \<forall>a c. sc_options (f a c) = sc_options c | K_str f \<Rightarrow> \<forall>a c. sc_options (f a c) = sc_options c
   | K_u32 f \<Rightarrow> \<forall>a c. sc_options (f a c) = sc_options c | K_yn f \<Rightarrow> \<forall>a c. sc_options (f a c) = sc_options c | _ \<Rightarrow> True)"

lemma keyword_table_ok: "list_all (\<lambda>kw. sets_no_option (kw_handler kw)) keyword_table"
  by (simp add: keyword_table_def keyword_def sets_no_option_def)

lemma run_handler_ok:
  assumes "run_handler resolve k buf line cf = Some x" and ok: "conf_ok cf" and k: "sets_no_option k"
  shows "conf_ok (snd (snd x))"
proof -
  obtain s where s: "str_at buf line = Some s" using assms(1) by (cases "str_at buf line") (auto simp: run_handler_def)
  note h = assms(1) [unfolded run_handler_def s bind.bind_lunit Let_def]
  have o: "opts_good (sc_options (cf_cfg cf))" using ok by (simp add: conf_ok_def)
  show ?thesis
  proof (cases k)
    case K_opt
    then obtain r b os where "read_opt resolve buf line (sc_options (cf_cfg cf)) = Some (r, b, os)"
        "snd (snd x) = cf\<lparr>cf_cfg := (cf_cfg cf)\<lparr>sc_options := os\<rparr>\<rparr>" using h by auto
    then show ?thesis using read_opt_good [OF _ o] ok by (simp add: conf_ok_def)
  next
    case K_static
    then show ?thesis using h read_static_ok [OF _ ok] by simp
  qed (use h ok k in \<open>auto simp: conf_ok_def sets_no_option_def split: option.splits prod.splits\<close>)
qed

lemma run_default_ok:
  "run_default resolve kw cf = Some cf' \<Longrightarrow> conf_ok cf \<Longrightarrow> sets_no_option (kw_handler kw) \<Longrightarrow> conf_ok cf'"
  unfolding run_default_def map_option_eq_Some using run_handler_ok [of resolve "kw_handler kw"] by (metis (no_types, lifting) case_prod_beta)

lemma config_defaults_ok:
  "config_defaults resolve kws cf = Some cf' \<Longrightarrow> conf_ok cf \<Longrightarrow> list_all (\<lambda>kw. sets_no_option (kw_handler kw)) kws \<Longrightarrow> conf_ok cf'"
  by (induction kws arbitrary: cf) (auto simp: bind_eq_Some_conv split: if_splits dest: run_default_ok)

lemma config_keywords_ok:
  assumes "config_keywords resolve kws token line buf cf = Some (buf', cf')" and "conf_ok cf"
    and "list_all (\<lambda>kw. sets_no_option (kw_handler kw)) kws"
  shows "conf_ok cf'"
  using assms
proof (induction kws arbitrary: buf cf)
  case (Cons kw kws)
  show ?case
  proof (cases "strcasecmp_eq token (kw_keyword kw)")
    case True
    obtain r b c where h: "run_handler resolve (kw_handler kw) buf line cf = Some (r, b, c)"
      using Cons.prems(1) True by (auto simp: bind_eq_Some_conv)
    have c: "conf_ok c" using run_handler_ok [OF h Cons.prems(2)] Cons.prems(3) by simp
    obtain c' where c': "(if \<not> r then run_default resolve kw c else Some c) = Some c'"
        "config_keywords resolve kws token line b c' = Some (buf', cf')"
      using Cons.prems(1) True h by (auto simp: bind_eq_Some_conv split: if_splits)
    have "conf_ok c'" using c c'(1) run_default_ok Cons.prems(3) by (auto split: if_splits)
    then show ?thesis using Cons.IH [OF c'(2)] Cons.prems(3) by simp
  next
    case False
    then show ?thesis using Cons by simp
  qed
qed simp

lemma config_lines_ok:
  assumes "config_lines resolve buffer inp cf = Some cf'" and "conf_ok cf" shows "conf_ok cf'"
  using assms
proof (induction "length inp" arbitrary: buffer inp cf rule: less_induct)
  case less
  show ?case
  proof (cases "fgets buffer 80 inp")
    case None
    then show ?thesis using less.prems by (simp add: config_lines.simps [of resolve buffer inp])
  next
    case (Some x)
    obtain b i where x: "x = (b, i)" by (cases x)
    have l: "length i < length inp" using fgets_less Some x by simp
    show ?thesis
    proof (cases "split_line b")
      case None
      then have "config_lines resolve b i cf = Some cf'"
        using less.prems(1) Some x by (simp add: config_lines.simps [of resolve buffer inp])
      then show ?thesis using less.hyps [OF l] less.prems(2) by blast
    next
      case (Some y)
      obtain t ln b2 where y: "y = (t, ln, b2)" by (cases y)
      obtain b3 c where k: "config_keywords resolve keyword_table (cstr (drop t b2)) ln b2 cf = Some (b3, c)"
          "config_lines resolve b3 i c = Some cf'"
        using less.prems(1) \<open>fgets buffer 80 inp = Some x\<close> x Some y
        by (auto simp: config_lines.simps [of resolve buffer inp] split: option.splits prod.splits)
      then show ?thesis using less.hyps [OF l k(2)] config_keywords_ok [OF k(1) less.prems(2) keyword_table_ok] by blast
    qed
  qed
qed

lemma read_config_ok: "read_config resolve f buffer cf = Some cf' \<Longrightarrow> conf_ok cf \<Longrightarrow> conf_ok cf'"
  using config_defaults_ok [OF _ _ keyword_table_ok] config_lines_ok
  by (fastforce simp: read_config_def bind_eq_Some_conv split: option.splits)

section \<open>Saving and restoring the leases\<close>

definition time_left :: "u32 \<Rightarrow> lease \<Rightarrow> u32" where
  "time_left now l = (if lease_expired now l then 0 else l_expires l - now)"

definition restorable :: "server_config \<Rightarrow> lease list \<Rightarrow> lease \<Rightarrow> bool" where
  "restorable cfg st l \<longleftrightarrow> sc_start cfg \<le> l_yiaddr l \<and> l_yiaddr l \<le> sc_end cfg \<and> l_ACKed l \<noteq> 0 \<and> \<not> static_match st l"

definition restored :: "u32 \<Rightarrow> lease \<Rightarrow> lease" where
  "restored now l = l\<lparr>l_expires := now + l_expires l, l_ACKed := 1, l_hostname := set_hostname (Some (l_hostname l)) []\<rparr>"

definition record_bytes :: "lease \<Rightarrow> u8 list" where
  "record_bytes l = l_chaddr l @ be32 (l_yiaddr l) @ be32 (l_expires l) @ be32 (l_ACKed l) @ l_hostname l"

lemma length_record_bytes: "wf_lease l \<Longrightarrow> length (record_bytes l) = 92"
  by (simp add: record_bytes_def wf_lease_def)

lemma lease_of_record_bytes: "wf_lease l \<Longrightarrow> lease_of_record (record_bytes l) = l"
  by (simp add: record_bytes_def wf_lease_def lease_of_record_def)

definition compatible :: "lease \<Rightarrow> lease \<Rightarrow> bool" where
  "compatible x r \<longleftrightarrow> l_yiaddr x \<noteq> l_yiaddr r \<and> (l_chaddr r \<noteq> blank_chaddr \<longrightarrow> l_chaddr x \<noteq> l_chaddr r)"

abbreviation live :: "u32 \<Rightarrow> lease \<Rightarrow> bool" where
  "live now l \<equiv> \<not> lease_expired now l"

lemma filter_update_length: "length (filter P (xs[k := y])) \<le> Suc (length (filter P xs))"
  by (induction xs arbitrary: k) (auto split: nat.splits intro: le_SucI)

lemma clear_live_length:
  "0 < now \<Longrightarrow> length (filter (live now) (clear_lease ch yi ls)) \<le> length (filter (live now) ls)"
  unfolding clear_lease_def by (induction ls) (auto simp: lease_expired_def blank_lease_def)

lemma clear_set: "set (clear_lease ch yi ls) \<subseteq> insert blank_lease (set ls)"
  by (auto simp: clear_lease_def)

lemma restore_one:
  assumes r: "wf_lease r" "l_yiaddr r \<noteq> 0" and T: "lt_ok T" and now: "0 < now"
    and room: "length (filter (live now) T) < length T"
  shows "\<exists>k T1 U. add_lease now (l_chaddr r) (l_yiaddr r) (l_expires r) (Some (l_hostname r)) T = (Some k, T1)
    \<and> T1[k := (T1 ! k)\<lparr>l_ACKed := 1\<rparr>] = U \<and> lt_ok U \<and> length U = length T \<and> restored now r \<in> set U
    \<and> length (filter (live now) U) \<le> Suc (length (filter (live now) T))
    \<and> set U \<subseteq> insert (restored now r) (insert blank_lease (set T))
    \<and> (\<forall>x \<in> set T. live now x \<longrightarrow> compatible x r \<longrightarrow> x \<in> set U)"
proof -
  let ?h = "Some (l_hostname r)" and ?c = "clear_lease (l_chaddr r) (l_yiaddr r) T"
  have ch: "length (l_chaddr r) = 16" using r(1) by (simp add: wf_lease_def)
  show ?thesis
  proof (cases rule: add_lease_cases [of now "l_chaddr r" "l_yiaddr r" T "l_expires r" ?h])
    case full
    then have "filter (live now) ?c = ?c"
      using oldest_from_None [of now None 0 ?c] by (auto simp: oldest_expired_lease_def lease_expired_def)
    then show ?thesis using clear_live_length [OF now, of "l_chaddr r" "l_yiaddr r" T] room by simp
  next
    case (added k)
    define T1 where "T1 = snd (add_lease now (l_chaddr r) (l_yiaddr r) (l_expires r) ?h T)"
    define U where "U = T1[k := (T1 ! k)\<lparr>l_ACKed := 1\<rparr>]"
    have U: "U = ?c[k := restored now r]"
      unfolding U_def T1_def added(3) restored_def using added(1) ch
      by (simp add: set_hostname_def) (rule arg_cong [where f = "\<lambda>e. ?c[k := e]"], cases "?c ! k", cases r, simp)
    have ok1: "lt_ok T1" unfolding T1_def using T ch by (rule add_ok)
    have k: "k < length T1" using added(1) by (simp add: T1_def)
    have "lt_ok U" unfolding U_def
      by (rule lt_ok_update [OF ok1 k]) (use lt_okD(1) [OF ok1 k] in \<open>simp_all add: wf_lease_def\<close>)
    moreover have "x \<in> set U" if x: "x \<in> set T" "live now x" "compatible x r" for x
    proof -
      obtain j where j: "j < length T" "T ! j = x" using x(1) by (auto simp: in_set_conv_nth)
      have "T1 ! j = x" using add_lease_keeps [OF T ch, of now "l_yiaddr r" "l_expires r" ?h] j x(2,3)
        by (auto simp: keeps_def compatible_def T1_def)
      moreover have "j \<noteq> k" using calculation x(3) added(1) by (auto simp: T1_def added(3) compatible_def)
      ultimately have "U ! j = x" "j < length U" using j(1) by (simp_all add: U_def T1_def)
      then show ?thesis using nth_mem by blast
    qed
    moreover have "length (filter (live now) U) \<le> Suc (length (filter (live now) T))"
      using filter_update_length [of "live now" ?c k "restored now r"] clear_live_length [OF now, of "l_chaddr r" "l_yiaddr r" T]
      by (simp add: U)
    moreover have "set U \<subseteq> insert (restored now r) (insert blank_lease (set T))"
      using set_update_subset_insert [of ?c k "restored now r"] clear_set [of "l_chaddr r" "l_yiaddr r" T] by (auto simp: U)
    moreover have "restored now r \<in> set U" using added(1) by (simp add: U set_update_memI)
    moreover have "length U = length T" by (simp add: U)
    moreover have "add_lease now (l_chaddr r) (l_yiaddr r) (l_expires r) ?h T = (Some k, T1)"
      by (simp add: T1_def added(3))
    ultimately show ?thesis using U_def by (intro exI [of _ k] exI [of _ T1] exI [of _ U]) simp
  qed
qed

lemma compatible_restored: "compatible (restored now x) r = compatible x r"
  by (simp add: compatible_def restored_def)

lemma restored_live: "unat now + unat (l_expires r) < 2 ^ 32 \<Longrightarrow> live now (restored now r)"
  using unat_add_lem [of now "l_expires r", THEN iffD1]
  by (simp add: lease_expired_def restored_def word_less_nat_alt not_less)

text \<open>Reading back a list of records: the leases that may be restored are added, in the place of nothing else.\<close>

lemma read_leases_records:
  assumes "\<And>r. r \<in> set rs \<Longrightarrow> wf_lease r \<and> l_yiaddr r \<noteq> 0 \<and> unat now + unat (l_expires r) < 2 ^ 32"
    and "sorted_wrt compatible rs" and "lt_ok T" and "sc_remaining cfg" and "0 < now"
    and "length (filter (live now) T) \<le> i" and "i + length rs \<le> length T" and "length T = unat (sc_max_leases cfg)"
  shows "let T' = read_leases_from cfg st now i (concat (map record_bytes rs)) T in
     lt_ok T' \<and> length T' = length T
     \<and> set T' \<subseteq> insert blank_lease (set T) \<union> restored now ` {r \<in> set rs. restorable cfg st r}
     \<and> (\<forall>x \<in> set T. live now x \<longrightarrow> (\<forall>r \<in> set rs. compatible x r) \<longrightarrow> x \<in> set T')
     \<and> restored now ` {r \<in> set rs. restorable cfg st r} \<subseteq> set T'"
  using assms
proof (induction rs arbitrary: T i)
  case Nil
  then show ?case by (auto simp: read_leases_from.simps)
next
  case (Cons r rs)
  let ?in = "concat (map record_bytes (r # rs))"
  have r: "wf_lease r" "l_yiaddr r \<noteq> 0" "live now (restored now r)" using Cons.prems(1) [of r] restored_live by simp_all
  have split: "take 92 ?in = record_bytes r" "drop 92 ?in = concat (map record_bytes rs)" "92 \<le> length ?in"
    using length_record_bytes [OF r(1)] by simp_all
  have i: "i < unat (sc_max_leases cfg)" using Cons.prems(7,8) by simp
  note step = read_leases_from.simps [of cfg st now i ?in T, unfolded split(1,2) lease_of_record_bytes [OF r(1)] Let_def]
  show ?case
  proof (cases "restorable cfg st r")
    case False
    have "read_leases_from cfg st now i ?in T = read_leases_from cfg st now i (concat (map record_bytes rs)) T"
      using step i split(3) False by (auto simp: restorable_def)
    moreover have "{x \<in> set (r # rs). restorable cfg st x} = {x \<in> set rs. restorable cfg st x}" using False by auto
    ultimately show ?thesis using Cons.IH [of T i] Cons.prems by (simp add: Let_def)
  next
    case True
    have "length (filter (live now) T) < length T" using Cons.prems(6,7) by simp
    then obtain k T1 U where U: "add_lease now (l_chaddr r) (l_yiaddr r) (l_expires r) (Some (l_hostname r)) T = (Some k, T1)"
      "T1[k := (T1 ! k)\<lparr>l_ACKed := 1\<rparr>] = U" "lt_ok U" "length U = length T" "restored now r \<in> set U"
      "length (filter (live now) U) \<le> Suc (length (filter (live now) T))"
      "set U \<subseteq> insert (restored now r) (insert blank_lease (set T))"
      "\<forall>x \<in> set T. live now x \<longrightarrow> compatible x r \<longrightarrow> x \<in> set U"
      using restore_one [OF r(1,2) Cons.prems(3,5)] by blast
    let ?T = "read_leases_from cfg st now (i + 1) (concat (map record_bytes rs)) U"
    have eq: "read_leases_from cfg st now i ?in T = ?T"
      using step i split(3) True U(1,2) Cons.prems(4) by (simp add: restorable_def ntohl_def)
    have ih: "lt_ok ?T" "length ?T = length U"
      "set ?T \<subseteq> insert blank_lease (set U) \<union> restored now ` {r \<in> set rs. restorable cfg st r}"
      "\<forall>x \<in> set U. live now x \<longrightarrow> (\<forall>r \<in> set rs. compatible x r) \<longrightarrow> x \<in> set ?T"
      "restored now ` {r \<in> set rs. restorable cfg st r} \<subseteq> set ?T"
      using Cons.IH [of U "i + 1"] Cons.prems U(3,4,6) by (simp_all add: Let_def)
    have rT: "restored now r \<in> set ?T" using ih(4) U(5) r(3) Cons.prems(2) by (simp add: compatible_restored)
    have A: "restored now ` {x \<in> set (r # rs). restorable cfg st x} = insert (restored now r) (restored now ` {x \<in> set rs. restorable cfg st x})"
      using True by auto
    have "set ?T \<subseteq> insert blank_lease (set T) \<union> restored now ` {x \<in> set (r # rs). restorable cfg st x}"
      unfolding A using ih(3) U(7) by blast
    moreover have "\<forall>x \<in> set T. live now x \<longrightarrow> (\<forall>r \<in> set (r # rs). compatible x r) \<longrightarrow> x \<in> set ?T"
      using ih(4) U(8) by simp
    moreover have "restored now ` {x \<in> set (r # rs). restorable cfg st x} \<subseteq> set ?T" unfolding A using ih(5) rT by blast
    ultimately show ?thesis unfolding eq Let_def by (intro conjI ih(1) ih(2) [unfolded U(4)])
  qed
qed

lemma lease_record_bytes:
  "sc_remaining cfg \<Longrightarrow> lease_record cfg now l =
     (if l_yiaddr l \<noteq> 0 \<and> l_ACKed l \<noteq> 0 then record_bytes (l\<lparr>l_expires := time_left now l\<rparr>) else [])"
  by (simp add: lease_record_def record_bytes_def time_left_def htonl_def)

definition saved :: "u32 \<Rightarrow> lease list \<Rightarrow> lease list" where
  "saved now ls = map (\<lambda>l. l\<lparr>l_expires := time_left now l\<rparr>) (filter (\<lambda>l. l_yiaddr l \<noteq> 0 \<and> l_ACKed l \<noteq> 0) ls)"

lemma written_records:
  "sc_remaining cfg \<Longrightarrow> concat (map (lease_record cfg now) ls) = concat (map record_bytes (saved now ls))"
  by (induction ls) (auto simp: lease_record_bytes saved_def)

lemma saved_compatible:
  assumes ok: "lt_ok ls" shows "sorted_wrt compatible (saved now ls)"
proof -
  let ?Q = "\<lambda>l. l_yiaddr l \<noteq> 0 \<and> l_ACKed l \<noteq> 0"
  let ?R = "\<lambda>a b. (l_yiaddr b \<noteq> 0 \<longrightarrow> l_yiaddr b \<noteq> l_yiaddr a) \<and> (l_chaddr b \<noteq> blank_chaddr \<longrightarrow> l_chaddr b \<noteq> l_chaddr a)"
  have "sorted_wrt ?R ls"
    unfolding sorted_wrt_iff_nth_less
  proof (intro allI impI)
    fix i j assume "i < j" "j < length ls"
    then show "?R (ls ! i) (ls ! j)" using lt_okD(2,3) [OF ok, of j i] by simp
  qed
  then have s: "sorted_wrt ?R (filter ?Q ls)" by (rule sorted_wrt_filter)
  have "sorted_wrt (\<lambda>a b. compatible (a\<lparr>l_expires := time_left now a\<rparr>) (b\<lparr>l_expires := time_left now b\<rparr>)) (filter ?Q ls)"
    by (rule sorted_wrt_mono_rel [OF _ s]) (auto simp: compatible_def)
  then show ?thesis by (simp add: saved_def sorted_wrt_map)
qed

lemma restorable_saved:
  "{r \<in> set (saved now ls). restorable cfg st r} =
     (\<lambda>l. l\<lparr>l_expires := time_left now l\<rparr>) ` {l \<in> set ls. l_yiaddr l \<noteq> 0 \<and> restorable cfg st l}"
proof -
  have "restorable cfg st (l\<lparr>l_expires := t\<rparr>) = restorable cfg st l" for l t by (simp add: restorable_def static_match_def)
  then have "{r \<in> set (saved now ls). restorable cfg st r} =
     (\<lambda>l. l\<lparr>l_expires := time_left now l\<rparr>) ` {l \<in> set (filter (\<lambda>l. l_yiaddr l \<noteq> 0 \<and> l_ACKed l \<noteq> 0) ls). restorable cfg st l}"
    unfolding saved_def set_map by (auto simp del: set_filter)
  also have "{l \<in> set (filter (\<lambda>l. l_yiaddr l \<noteq> 0 \<and> l_ACKed l \<noteq> 0) ls). restorable cfg st l} =
      {l \<in> set ls. l_yiaddr l \<noteq> 0 \<and> restorable cfg st l}"
    by (auto simp: restorable_def)
  finally show ?thesis .
qed


definition example_lease :: lease where
  "example_lease = \<lparr>l_chaddr = [0, 0x13, 0x46, 1, 2, 3] @ replicate 10 0, l_yiaddr = 0x0A000065, l_expires = 400, l_ACKed = 1,
     l_hostname = 0x70 # 0x63 # replicate 62 0\<rparr>"


section \<open>Static leases\<close>

definition hex_char :: "u8 \<Rightarrow> u8" where
  "hex_char d = (if d < 10 then 0x30 + d else 0x57 + d)"

definition byte_text :: "u8 \<Rightarrow> u8 list" where
  "byte_text b = [hex_char (drop_bit 4 b), hex_char (take_bit 4 b)]"

fun mac_text :: "u8 list \<Rightarrow> u8 list" where
  "mac_text [] = []"
| "mac_text [b] = byte_text b"
| "mac_text (b # c # m) = byte_text b @ 0x3A # mac_text (c # m)"

lemma hex_char_cases:
  assumes "d < 16"
  shows "hexval (hex_char d) = Some (ucast d)" and "hex_char d \<notin> {0, 0x09, 0x20, 0x2C, 0x2D, 0x2F, 0x3A}"
proof -
  have "unat d < 16" using assms by (simp add: word_less_nat_alt)
  then have d: "d \<in> set (map word_of_nat [0..<16])" by (auto intro: image_eqI [of _ _ "unat d"])
  have "list_all (\<lambda>d. hexval (hex_char d) = Some (ucast d) \<and> hex_char d \<notin> {0, 0x09, 0x20, 0x2C, 0x2D, 0x2F, 0x3A})
      (map word_of_nat [0..<16])"
    by code_simp
  then show "hexval (hex_char d) = Some (ucast d)" "hex_char d \<notin> {0, 0x09, 0x20, 0x2C, 0x2D, 0x2F, 0x3A}"
    using d unfolding list_all_iff by blast+
qed

lemma nibble_less: "drop_bit 4 (b :: u8) < 16" "take_bit 4 (b :: u8) < 16"
proof -
  have "unat b div 16 < 16" using unsigned_less [of b, where 'a = nat] by simp
  then show "drop_bit 4 b < 16" by (simp add: drop_bit_eq_div word_less_nat_alt unat_div)
  show "take_bit 4 b < 16" by (simp add: word_less_nat_alt take_bit_eq_mod unat_mod)
qed

lemma nibbles: "ucast (push_bit 4 (ucast (drop_bit 4 b) :: u32) OR ucast (take_bit 4 b)) = (b :: u8)"
  by (rule bit_word_eqI) (auto simp: bit_simps)

lemma haddr_byte_text:
  "r = [] \<or> hd r = 0x3A \<Longrightarrow> haddr_byte (byte_text b @ r) = Some (b, tl r)"
  using hex_char_cases(1) [OF nibble_less(1) [of b]] hex_char_cases(1) [OF nibble_less(2) [of b]] nibbles [of b]
  by (auto simp: haddr_byte_def byte_text_def)


lemma haddr_loop_text: "i + length m = 6 \<Longrightarrow> haddr_loop i ch (mac_text m) = Some (ch @ m)"
proof (induction m arbitrary: i ch rule: mac_text.induct)
  case 1
  then show ?case by (simp add: haddr_loop.simps)
next
  case (2 b)
  then have i: "i = 5" by simp
  show ?case using haddr_byte_text [of "[]" b]
    by (simp add: i haddr_loop.simps [of 5] haddr_loop.simps [of 6]) (simp add: byte_text_def)
next
  case (3 b c m)
  then show ?case using haddr_byte_text [of "0x3A # mac_text (c # m)" b] "3.IH" [of "i + 1" "ch @ [b]"]
    by (simp add: haddr_loop.simps [of i])
qed

lemma mac_text_chars: "set (mac_text m) \<inter> {0, 0x09, 0x20, 0x2C, 0x2D, 0x2F} = {}"
proof -
  have "set (byte_text b) \<inter> {0, 0x09, 0x20, 0x2C, 0x2D, 0x2F} = {}" for b
    using hex_char_cases(2) [OF nibble_less(1) [of b]] hex_char_cases(2) [OF nibble_less(2) [of b]]
    by (simp add: byte_text_def)
  then show ?thesis by (induction m rule: mac_text.induct) (simp_all add: Int_Un_distrib2)
qed

lemma bs_delims: "bs '', '' = [0x2C, 0x20]" "bs ''/-'' = [0x2F, 0x2D]"
  by (simp_all add: bs_def)

lemma read_haddr_text:
  assumes "length m = 6"
  shows "read_haddr (pre @ mac_text m @ 0 # post) (length pre) = Some (Some m)"
proof -
  have ne: "mac_text m \<noteq> []" using assms by (cases m rule: mac_text.cases) (simp_all add: byte_text_def)
  have c: "0 \<notin> set (mac_text m)" "set (mac_text m) \<inter> set (bs '', '' @ [0x09]) = {}"
    using mac_text_chars [of m] by (auto simp: bs_delims)
  show ?thesis unfolding read_haddr_def strtok_end [OF ne c(2,1)]
    using haddr_loop_text [of 0 m "[]"] assms c(1) by (simp add: cstr_append)
qed

text \<open>A \<^verbatim>\<open>static\<close> line takes effect as written. For an address the resolver accepts and a hardware
  address in the notation the server prints, the reader stores exactly that pair in the next free entry of
  the static table and leaves everything else unchanged.\<close>

theorem static_line_stored:
  assumes "read_ip resolve ip = Some yi" and "ip \<noteq> []" and "set ip \<inter> {0, 0x09, 0x20, 0x2C} = {}" and "length m = 6"
    and "cf_index cf < MAX_STATIC_LEASES" and "length (cf_static cf) = MAX_STATIC_LEASES"
  shows "\<exists>buf. read_static resolve (ip @ 0x20 # mac_text m @ [0]) 0 cf = Some (True, buf,
    cf\<lparr>cf_static := (cf_static cf)[cf_index cf := (cf_static cf ! cf_index cf)\<lparr>l_yiaddr := yi, l_chaddr := m @ replicate 10 0\<rparr>],
       cf_index := cf_index cf + 1\<rparr>)"
proof -
  let ?d = "bs '', '' @ [0x09]"
  let ?b = "(ip @ [0]) @ mac_text m @ 0 # []"
  have ne: "mac_text m \<noteq> []" using assms(4) by (cases m rule: mac_text.cases) (simp_all add: byte_text_def)
  have c: "0 \<notin> set (mac_text m)" "set (mac_text m) \<inter> set (bs '', '' @ [0x09] @ bs ''/-'') = {}"
    using mac_text_chars [of m] by (auto simp: bs_delims)
  have ip: "0 \<notin> set ip" "set ip \<inter> set ?d = {}" using assms(3) by (auto simp: bs_delims)
  have 1: "strtok (ip @ 0x20 # mac_text m @ [0]) 0 ?d = Some (0, length ip + 1, ?b)"
    using strtok_delim [OF assms(2) ip(2,1), of "0x20" "[]" "mac_text m @ [0]"] by (simp add: bs_delims)
  have 2: "strtok ?b (length ip + 1) (bs '', '' @ [0x09] @ bs ''/-'') = Some (length ip + 1, length ip + 1 + length (mac_text m), ?b)"
    using strtok_end [OF ne c(2,1), of "ip @ [0]" "[]"] by simp
  have 3: "read_haddr ?b (length ip + 1) = Some (Some m)" using read_haddr_text [OF assms(4), of "ip @ [0]" "[]"] by simp
  have 4: "cstr (drop 0 ?b) = ip" using ip(1) by (simp add: cstr_append)
  have 5: "\<not> MAX_STATIC_LEASES \<le> cf_index cf" using assms(5) by simp
  show ?thesis
    unfolding read_static_def if_not_P [OF 5] 1 option.case prod.case 4 Let_def assms(1) 2 3 bind.bind_lunit
    using assms(5,6) by (simp add: store_static_def rd_def wr_def)
qed

definition blank_conf :: conf where
  "blank_conf = \<lparr>cf_cfg = example_cfg, cf_static = replicate 32 blank_lease, cf_index = 0\<rparr>"

theorem static_line_stored_witness:
  "\<exists>buf. read_static (\<lambda>_. None) (bs ''192.168.0.9'' @ 0x20 # mac_text [0, 0x13, 0x46, 0xAB, 0xCD, 0xEF] @ [0]) 0 blank_conf
    = Some (True, buf, blank_conf\<lparr>cf_static := (replicate 32 blank_lease)[0 := blank_lease\<lparr>l_yiaddr := 0xC0A80009,
        l_chaddr := [0, 0x13, 0x46, 0xAB, 0xCD, 0xEF] @ replicate 10 0\<rparr>], cf_index := 1\<rparr>)"
proof -
  have 1: "read_ip (\<lambda>_. None) (bs ''192.168.0.9'') = Some 0xC0A80009" by code_simp
  have 2: "bs ''192.168.0.9'' \<noteq> []" "set (bs ''192.168.0.9'') \<inter> {0, 0x09, 0x20, 0x2C} = {}" by code_simp+
  show ?thesis
    using static_line_stored [OF 1 2, of "[0, 0x13, 0x46, 0xAB, 0xCD, 0xEF]" blank_conf]
    by (simp add: blank_conf_def MAX_STATIC_LEASES_def)
qed

text \<open>Claim C38: the reader leaves a configuration the server can work with. Starting without options, whatever the file
  contains and however names resolve, if reading it ends without a crash then the option strings attached are
  well formed and in ascending order of their codes, as the message builders require, and the static table has its
  size with every record complete.\<close>

theorem read_config_establishes:
  assumes "sc_options (cf_cfg cf) = []" and "cf_static cf = replicate MAX_STATIC_LEASES blank_lease" and "cf_index cf = 0"
    and "read_config resolve file' buffer cf = Some cf'"
  shows "cfg_ok (cf_cfg cf') \<and> opts_good (sc_options (cf_cfg cf')) \<and> length (cf_static cf') = MAX_STATIC_LEASES
    \<and> list_all wf_lease (cf_static cf')"
proof -
  have "conf_ok cf" using assms(1-3) by (auto simp: conf_ok_def opts_good_def olist_ok_def list_all_iff)
  then have "conf_ok cf'" using read_config_ok [OF assms(4)] by blast
  then show ?thesis by (auto simp: conf_ok_def opts_good_def cfg_ok_def)
qed

theorem read_config_establishes_witness:
  "\<exists>cf'. read_config (\<lambda>_. None) (Some (bs ''opt dns 192.168.0.1'' @ [0x0A])) (replicate 80 0) blank_conf = Some cf'
    \<and> sc_options (cf_cfg cf') = [[6, 4, 192, 168, 0, 1]] \<and> cfg_ok (cf_cfg cf')"
proof -
  let ?r = "read_config (\<lambda>_. None) (Some (bs ''opt dns 192.168.0.1'' @ [0x0A])) (replicate 80 0) blank_conf"
  have "map_option (\<lambda>cf. sc_options (cf_cfg cf)) ?r = Some [[6, 4, 192, 168, 0, 1]]" by code_simp
  then obtain cf' where r: "?r = Some cf'" "sc_options (cf_cfg cf') = [[6, 4, 192, 168, 0, 1]]" by auto
  then show ?thesis
    using read_config_establishes [OF _ _ _ r(1)] by (simp add: blank_conf_def example_cfg_def MAX_STATIC_LEASES_def)
qed

section \<open>Defaults and errors\<close>

lemma run_default_eq:
  assumes "length d < 30" and "list_all (\<lambda>c. of_char c \<noteq> (0 :: u8)) d"
  shows "inet_aton (bs d) = Some a \<Longrightarrow> run_default resolve (keyword k (K_ip f) d) cf = Some (cf\<lparr>cf_cfg := f a (cf_cfg cf)\<rparr>)"
    and "run_default resolve (keyword k (K_str g) d) cf = Some (cf\<lparr>cf_cfg := g (bs d) (cf_cfg cf)\<rparr>)"
    and "strtoul (bs d) = (a, r) \<Longrightarrow> run_default resolve (keyword k (K_u32 f) d) cf = Some (cf\<lparr>cf_cfg := f a (cf_cfg cf)\<rparr>)"
    and "read_yn (bs d) = Some y \<Longrightarrow> run_default resolve (keyword k (K_yn h) d) cf = Some (cf\<lparr>cf_cfg := h y (cf_cfg cf)\<rparr>)"
proof -
  have "30 - length (bs d) = Suc (29 - length d)" using assms(1) by (simp add: bs_def)
  moreover have "0 \<notin> set (bs d)" using assms(2) by (auto simp: bs_def list_all_iff)
  ultimately have s: "str_at (bs d @ replicate (30 - length (bs d)) 0) 0 = Some (bs d)" by (simp add: str_at_def cstr_append)
  note d = run_default_def keyword_def run_handler_def config_keyword.simps s bind.bind_lunit Let_def kw_handler.case
  show "inet_aton (bs d) = Some a \<Longrightarrow> run_default resolve (keyword k (K_ip f) d) cf = Some (cf\<lparr>cf_cfg := f a (cf_cfg cf)\<rparr>)"
    unfolding d by (simp add: read_ip_def)
  show "run_default resolve (keyword k (K_str g) d) cf = Some (cf\<lparr>cf_cfg := g (bs d) (cf_cfg cf)\<rparr>)" unfolding d by simp
  show "strtoul (bs d) = (a, r) \<Longrightarrow> run_default resolve (keyword k (K_u32 f) d) cf = Some (cf\<lparr>cf_cfg := f a (cf_cfg cf)\<rparr>)"
    unfolding d by (simp add: read_u32_def)
  show "read_yn (bs d) = Some y \<Longrightarrow> run_default resolve (keyword k (K_yn h) d) cf = Some (cf\<lparr>cf_cfg := h y (cf_cfg cf)\<rparr>)"
    unfolding d by simp
qed

lemma kw_def_keyword: "kw_def (keyword k h d) = [] \<longleftrightarrow> d = []"
  by (simp add: keyword_def bs_def)

text \<open>Without a file the defaults of the keyword table are in force: the range 192.168.0.20 to
  192.168.0.254 on eth0 with 254 leases, the times and the paths of the table; options, the optional strings and the static
  leases are left as they were. No name is resolved for it.\<close>

theorem read_config_defaults:
  "read_config resolve None buffer cf = Some (cf\<lparr>cf_cfg := (cf_cfg cf)\<lparr>sc_start := 0xC0A80014, sc_end := 0xC0A800FE,
     sc_interface := bs ''eth0'', sc_max_leases := 254, sc_remaining := True, sc_auto_time := 7200,
     sc_decline_time := 3600, sc_conflict_time := 3600, sc_offer_time := 60, sc_min_lease := 60,
     sc_lease_file := bs ''/var/lib/misc/udhcpd.leases'', sc_pidfile := bs ''/var/run/udhcpd.pid'', sc_siaddr := 0\<rparr>\<rparr>)"
proof -
  have ip: "inet_aton (bs ''192.168.0.20'') = Some 0xC0A80014" "inet_aton (bs ''192.168.0.254'') = Some 0xC0A800FE"
    "inet_aton (bs ''0.0.0.0'') = Some 0" by code_simp+
  have n: "strtoul (bs ''254'') = (254, [])" "strtoul (bs ''7200'') = (7200, [])" "strtoul (bs ''3600'') = (3600, [])"
    "strtoul (bs ''60'') = (60, [])" "read_yn (bs ''yes'') = Some True" by code_simp+
  show ?thesis
    unfolding read_config_def keyword_table_def by (simp add: kw_def_keyword run_default_eq ip n)
qed

lemma skip_keywords:
  "list_all (\<lambda>kw. \<not> strcasecmp_eq token (kw_keyword kw)) kws \<Longrightarrow>
   config_keywords resolve (kws @ kws') token line buf cf = config_keywords resolve kws' token line buf cf"
  by (induction kws) auto

text \<open>Claim C40: a \<^verbatim>\<open>static\<close> line that does not parse crashes the server. The reader then applies the handler to the
  default value, which is the empty string for this keyword: there is no first token, and the null pointer goes
  to \<^verbatim>\<open>inet_aton\<close>.\<close>

theorem malformed_static_crashes:
  assumes "str_at buf line = Some s" and "read_static resolve buf line cf = Some (False, buf', cf')"
    and "cf_index cf' < MAX_STATIC_LEASES"
  shows "config_keywords resolve keyword_table (bs ''static'') line buf cf = None"
proof -
  have t: "keyword_table = butlast keyword_table @ [keyword ''static'' K_static []]" by (simp add: keyword_table_def)
  have b: "list_all (\<lambda>kw. \<not> strcasecmp_eq (bs ''static'') (kw_keyword kw)) (butlast keyword_table)" by code_simp
  have m: "strcasecmp_eq (bs ''static'') (bs ''static'')" by (simp add: strcasecmp_eq_def)
  have "strtok (replicate 30 0) 0 (bs '', '' @ [0x09]) = None" by code_simp
  then have "read_static resolve (replicate 30 0) 0 cf' = None" using assms(3) by (simp add: read_static_def)
  moreover have "str_at (replicate 30 0) 0 = Some []" by code_simp
  ultimately have "run_default resolve (keyword ''static'' K_static []) cf' = None"
    by (simp add: run_default_def run_handler_def keyword_def bs_def)
  moreover have "run_handler resolve K_static buf line cf = Some (False, buf', cf')"
    using assms(1,2) by (simp add: run_handler_def)
  ultimately show ?thesis
    using m by (subst t, subst skip_keywords [OF b]) (simp add: keyword_def)
qed

theorem malformed_static_crashes_witness:
  "config_keywords (\<lambda>_. None) keyword_table (bs ''static'') 0 (bs ''192.168.0.9 nonsense'' @ [0]) blank_conf = None"
proof -
  let ?b = "bs ''192.168.0.9 nonsense'' @ [0]"
  have 1: "str_at ?b 0 = Some (bs ''192.168.0.9 nonsense'')" by code_simp
  have "map_option (\<lambda>(r, b, c). (r, cf_index c)) (read_static (\<lambda>_. None) ?b 0 blank_conf) = Some (False, 0)" by code_simp
  then obtain b c where "read_static (\<lambda>_. None) ?b 0 blank_conf = Some (False, b, c)" "cf_index c = 0" by auto
  then show ?thesis using malformed_static_crashes [OF 1] by (simp add: MAX_STATIC_LEASES_def)
qed

end
