(* ===== verification/Dhcp_Network.thy ===== *)
theory Dhcp_Network
  imports Dhcp_Client Dhcp_Files
begin

text \<open>
  The server and the client on one network: what a message of one side is when the other side has read it.
  The client's broadcasts reach the server's socket as the message they carry; the frames the server sends
  with \<^verbatim>\<open>raw_packet\<close> reach the raw socket of the client. The two phases of an exchange connect the handlers of
  the two programs by these deliveries.
\<close>

section \<open>What an option says\<close>

lemma opt_data_u32:
  assumes "opt_data m code = Some (be32 x)"
  shows "map_option (get_u32 m) (get_option m code) = Some x"
proof -
  obtain k where k: "get_option m code = Some k" "map m [k..<k + unat (m (k - 1))] = be32 x"
    using assms by (auto simp: opt_data_def)
  have "unat (m (k - 1)) = 4" using arg_cong [OF k(2), of length] by simp
  then have "[m k, m (k + 1), m (k + 2), m (k + 3)] = be32 x" using k(2) by (simp add: upt_rec numeral_eq_Suc)
  then show ?thesis using k(1) by (simp add: get_u32_def)
qed

lemma opt_data_byte:
  assumes "opt_data m code = Some [b]"
  shows "\<exists>k. get_option m code = Some k \<and> m k = b"
proof -
  obtain k where k: "get_option m code = Some k" "map m [k..<k + unat (m (k - 1))] = [b]"
    using assms by (auto simp: opt_data_def)
  have "unat (m (k - 1)) = 1" using arg_cong [OF k(2), of length] by simp
  then show ?thesis using k by simp
qed

section \<open>Delivery\<close>

lemma server_receives:
  assumes p: "pkt_rep p os" and c: "cookie p = DHCP_MAGIC" and v: "map_of os DHCP_VENDOR = Some (snd vendor_opt)"
  shows "get_packet junk (Some (pkt_bytes p)) = (548, p)"
proof -
  have wf: "wf_pkt p" using p by (simp add: pkt_rep_def)
  have l: "length (pkt_bytes p) = 548" by (rule length_pkt_bytes [OF wf])
  have q: "pkt_of_bytes (take 548 (pkt_bytes p @ replicate 548 0)) = p"
    using l pkt_of_bytes_inverse [OF wf] by simp
  have "opt_data (pkt_mem junk p) DHCP_VENDOR = Some (snd vendor_opt)"
    using opt_data_opts [OF p, of DHCP_VENDOR] v by (simp add: opt_codes)
  then obtain k where k: "get_option (pkt_mem junk p) DHCP_VENDOR = Some k"
      "map (pkt_mem junk p) [k..<k + unat (pkt_mem junk p (k - 1))] = snd vendor_opt"
    by (auto simp: opt_data_def)
  have "unat (pkt_mem junk p (k - 1)) = 11" using arg_cong [OF k(2), of length] by (simp add: vendor_opt_def)
  then have "pkt_mem junk p (k - 1) \<noteq> 7" by auto
  then show ?thesis
    unfolding get_packet_def option.case q Let_def by (simp add: k(1) c l ntohl_def broken_vendors_def)
qed

lemma client_receives:
  assumes "wf_pkt p" and "cookie p = DHCP_MAGIC" and "length (cl_packet s) = 548" and "cl_listen_mode s = LISTEN_RAW"
    and "ci_rcv inp = Some (udp_bytes (raw_image p src sport dst CLIENT_PORT))"
  shows "on_packet inp s = on_message inp p (s\<lparr>cl_packet := pkt_bytes p\<rparr>)"
  using raw_roundtrip [OF assms(1,2,3), of src sport dst] pkt_of_bytes_inverse [OF assms(1)] assms(4,5)
  by (simp add: on_packet_def Let_def)

section \<open>An exchange\<close>

text \<open>The client's time-out in the selecting state sends a discover; the server reads and answers it; the
  client reads the answer.\<close>

definition offer_phase :: "server_config \<Rightarrow> lease list \<Rightarrow> loop_in \<Rightarrow> cl_in \<Rightarrow> cl_in \<Rightarrow> dhcpd_state \<Rightarrow> client \<Rightarrow>
    (dhcpd_state \<times> client) option" where
  "offer_phase cfg st n i1 i2 s c = do {
     r \<leftarrow> on_timeout i1 c;
     case r of Going [CSendRaw d _] c \<Rightarrow> do {
       r \<leftarrow> serve_packet cfg st (n\<lparr>in_rcv := Some (pkt_bytes d)\<rparr>) s;
       case r of Running s [SendClient _ (Some f)] \<Rightarrow> do {
         r \<leftarrow> on_packet (i2\<lparr>ci_rcv := Some (fr_bytes f)\<rparr>) c;
         case r of Going _ c \<Rightarrow> Some (s, c) | _ \<Rightarrow> None }
       | _ \<Rightarrow> None }
     | _ \<Rightarrow> None }"

text \<open>The time-out in the requesting state sends a request for the offered address.\<close>

definition request_phase :: "server_config \<Rightarrow> lease list \<Rightarrow> loop_in \<Rightarrow> cl_in \<Rightarrow> cl_in \<Rightarrow> dhcpd_state \<Rightarrow> client \<Rightarrow>
    (dhcpd_state \<times> client) option" where
  "request_phase cfg st n i1 i2 s c = do {
     r \<leftarrow> on_timeout i1 c;
     case r of Going [CSendRaw q _] c \<Rightarrow> do {
       r \<leftarrow> serve_packet cfg st (n\<lparr>in_rcv := Some (pkt_bytes q)\<rparr>) s;
       case r of Running s (SendClient _ (Some f) # _) \<Rightarrow> do {
         r \<leftarrow> on_packet (i2\<lparr>ci_rcv := Some (fr_bytes f)\<rparr>) c;
         case r of Going _ c \<Rightarrow> Some (s, c) | _ \<Rightarrow> None }
       | _ \<Rightarrow> None }
     | _ \<Rightarrow> None }"

lemma held_set: "held ls a c \<longleftrightarrow> (\<exists>l \<in> set ls. l_yiaddr l = a \<and> l_chaddr l = c)"
  unfolding held_def by (metis in_set_conv_nth)

lemma serve_packet_eq:
  assumes "get_packet (se_junk (in_env n)) (in_rcv n) = (548, p)"
  shows "serve_packet cfg st n s = map_option (\<lambda>(out, ls). Running (s\<lparr>ds_leases := ls\<rparr>) out)
    (handle_packet cfg st (in_env n) p (ds_leases s))"
  by (simp add: serve_packet_def assms Let_def option.map_comp split: Option.bind_split)

lemma serve_running:
  assumes "get_packet (se_junk (in_env n)) (in_rcv n) = (548, p)" and "serve_packet cfg st n s = Some (Running s' out)"
  shows "handle_packet cfg st (in_env n) p (ds_leases s) = Some (out, ds_leases s')"
  using assms(2) unfolding serve_packet_eq [OF assms(1)] by auto

text \<open>The server's answer to a directly attached client goes out as a frame of the message.\<close>

lemma send_packet_frame:
  assumes "(r, out) = send_packet cfg env p b" and "giaddr p = 0"
  shows "\<exists>f. out = [SendClient p f] \<and> (\<forall>fr. f = Some fr \<longrightarrow> (\<exists>src dst. fr_bytes fr = udp_bytes (raw_image p src SERVER_PORT dst CLIENT_PORT)))
    \<and> (re_socket (se_raw env) \<longrightarrow> re_bind (se_raw env) \<longrightarrow> f \<noteq> None \<and> r = re_sendto (se_raw env))"
  using assms by (auto simp: send_packet_def send_packet_to_client_def raw_packet_def Let_def split: prod.splits if_splits)

text \<open>The client on an offer and on an acknowledgement.\<close>

lemma reply_wf: "reply_ok cfg old t p \<Longrightarrow> wf_pkt p \<and> cookie p = DHCP_MAGIC \<and> xid p = xid old \<and> giaddr p = giaddr old"
  by (auto simp: reply_ok_def pkt_rep_def)

lemma reply_server: "reply_ok cfg old t p \<Longrightarrow>
  map_option (get_u32 (pkt_mem junk p)) (get_option (pkt_mem junk p) DHCP_SERVER_ID) = Some (sc_server cfg)"
  unfolding reply_ok_def using opt_data_opts [of p _ DHCP_SERVER_ID junk] by (intro opt_data_u32) (auto simp: opt_codes)

lemma reply_message:
  assumes "reply_ok cfg old t p" and "xid p = cl_xid s"
  shows "on_message inp p s = (if cl_state s = INIT_SELECTING then
      (if t = DHCPOFFER then Some (on_offer inp p s) else Some (Going [] s))
    else if cl_state s \<in> {RENEW_REQUESTED, REQUESTING, RENEWING, REBINDING} then
      (if t = DHCPACK then on_ack inp p s else if t = DHCPNAK then Some (on_nak inp p s) else Some (Going [] s))
    else Some (Going [] s))"
proof -
  obtain k where "get_option (pkt_mem (ci_junk inp) p) DHCP_MESSAGE_TYPE = Some k" "pkt_mem (ci_junk inp) p k = t"
    using opt_data_byte [OF reply_ok_type [OF assms(1), of "ci_junk inp"]] by blast
  then show ?thesis using assms(2) by (simp add: on_message_def Let_def)
qed

lemma reply_on_offer:
  assumes "reply_ok cfg old t p" and "\<not> cl_query s"
  shows "on_offer inp p s = Going [] (s\<lparr>cl_server_addr := sc_server cfg, cl_xid := xid p, cl_requested_ip := yiaddr p,
    cl_state := REQUESTING, cl_timeout := ci_now2 inp, cl_packet_num := 0\<rparr>)"
  using reply_server [OF assms(1), of "ci_junk inp"] assms(2) by (auto simp: on_offer_def Let_def split: option.splits)

lemma bind_SomeE: "do { x \<leftarrow> m; f x } = Some y \<Longrightarrow> (\<And>x. m = Some x \<Longrightarrow> f x = Some y \<Longrightarrow> P) \<Longrightarrow> P"
  by (cases m) auto

lemma reply_end:
  "do { p \<leftarrow> q; p \<leftarrow> f p; p \<leftarrow> g p; let (r, out) = send_packet cfg env p False; Some (r, out, ls) } = Some (r, out, ls')
   \<Longrightarrow> \<exists>p. (r, out) = send_packet cfg env p False"
  by (auto simp: bind_eq_Some_conv Let_def split: prod.splits) (metis prod.exhaust_sel)

lemma sendOffer_out:
  assumes "sendOffer cfg st env old ls = Some (r, out, ls')"
  shows "out = [] \<or> (\<exists>p. (r, out) = send_packet cfg env p False)"
proof -
  obtain p where p: "init_packet cfg old DHCPOFFER = Some p" using assms by (cases "init_packet cfg old DHCPOFFER") (auto simp: sendOffer_def)
  obtain tm a where oa: "offer_addr cfg st env old ls = (tm, a)" by fastforce
  note h = assms [unfolded sendOffer_def p bind.bind_lunit oa]
  show ?thesis
  proof (cases "find_static_lease_by_chaddr (chaddr old) st")
    case (Some k)
    then show ?thesis using h by (intro disjI2) (rule reply_end [where ls = ls and ls' = ls'], simp add: Let_def)
  next
    case None
    obtain yi ls1 where s: "offer_search cfg st env a ls = Some (yi, ls1)"
      using h None by (cases "offer_search cfg st env a ls") (auto simp: Let_def)
    obtain x ls2 where al: "add_lease (se_now env) (chaddr p) yi (sc_offer_time cfg) (host_name_of (pkt_mem (se_junk env) old)) ls1 = (x, ls2)"
      by fastforce
    show ?thesis
    proof (cases "yi = 0 \<or> x = None")
      case True
      then show ?thesis using h None s al by (cases "yi = 0") (simp_all add: Let_def)
    next
      case False
      then obtain j where "x = Some j" by auto
      with False show ?thesis using h None s al by (intro disjI2) (rule reply_end [where ls = ls2 and ls' = ls'], simp add: Let_def)
    qed
  qed
qed

lemma client_message:
  assumes "pkt_rep d ((DHCP_MESSAGE_TYPE, [t]) # os')"
  shows "\<exists>k. get_option (pkt_mem junk d) DHCP_MESSAGE_TYPE = Some k \<and> pkt_mem junk d k = t"
  using opt_data_opts [OF assms, of DHCP_MESSAGE_TYPE junk] by (intro opt_data_byte) (simp add: opt_codes)

lemma cfg_opts_codes: "cfg_opts cfg os \<Longrightarrow> fst ` set os \<subseteq> {DHCP_CLIENT_ID, DHCP_HOST_NAME}"
  by (auto simp: cfg_opts_def split: option.splits)

lemma map_of_own:
  "cfg_opts cfg os \<Longrightarrow> c \<notin> {DHCP_CLIENT_ID, DHCP_HOST_NAME} \<Longrightarrow> map_of (os @ os') c = map_of os' c"
  using cfg_opts_codes [of cfg os] by (auto simp: map_add_def split: option.split dest!: map_of_SomeD)

text \<open>What the client broadcasts in the selecting state.\<close>

lemma discover_sent:
  assumes cfg: "cfg_opts (cl_cfg c) os" and s: "cl_state c = INIT_SELECTING" and t: "on_timeout i c = Some (Going [CSendRaw d f] c')"
  shows "\<exists>os'. pkt_rep d ((DHCP_MESSAGE_TYPE, [DHCPDISCOVER]) # os @ vendor_opt # os') \<and> msg_hdr (cl_cfg c) (cl_xid c') 0 d
    \<and> c' = c\<lparr>cl_xid := cl_xid c', cl_timeout := cl_timeout c', cl_packet_num := cl_packet_num c'\<rparr>"
proof -
  have ts: "timeout_selecting i c = Some (Going [CSendRaw d f] c')" using t s by (simp add: on_timeout_def)
  then have n: "cl_packet_num c < cc_discover_retry (cl_cfg c)"
    by (auto simp: timeout_selecting_def Let_def split: if_splits)
  define c1 where "c1 = (if cl_packet_num c = 0 then c\<lparr>cl_xid := ci_rand i\<rparr> else c)"
  obtain p where p: "send_discover (cl_cfg c) i (cl_xid c1) (cl_requested_ip c1) = Some (client_broadcast (cl_cfg c) i p)"
      "msg_hdr (cl_cfg c) (cl_xid c1) 0 p"
      "pkt_rep p ((DHCP_MESSAGE_TYPE, [DHCPDISCOVER]) # os @ [vendor_opt]
        @ (if cl_requested_ip c1 \<noteq> 0 then [(DHCP_REQUESTED_IP, be32 (cl_requested_ip c1))] else []) @ [param_req])"
    using send_discover_ok [OF cfg] by blast
  obtain w where w: "retry_timeout (cl_cfg c) (cl_packet_num c1) (ci_now2 i) = Some w"
    and r: "CSendRaw d f = client_broadcast (cl_cfg c) i p" "c' = c1\<lparr>cl_timeout := w, cl_packet_num := cl_packet_num c1 + 1\<rparr>"
    using ts n p(1) unfolding timeout_selecting_def Let_def c1_def [symmetric]
    by (cases "retry_timeout (cl_cfg c) (cl_packet_num c1) (ci_now2 i)") auto
  have "d = p" using r(1) by (simp add: client_broadcast_def)
  moreover have "c' = c\<lparr>cl_xid := cl_xid c', cl_timeout := cl_timeout c', cl_packet_num := cl_packet_num c'\<rparr>"
    unfolding r(2) by (simp add: c1_def)
  moreover have "cl_xid c' = cl_xid c1" using r(2) by simp
  ultimately show ?thesis using p(2,3) by auto
qed

lemma offer_phase_result:
  assumes cfg: "cfg_opts (cl_cfg c) os" and st: "cl_state c = INIT_SELECTING" "cl_listen_mode c = LISTEN_RAW" "length (cl_packet c) = 548"
      "\<not> cl_query c"
    and srv: "lt_ok (ds_leases s)" "cfg_ok cfg" "sc_end cfg \<noteq> - 1"
    and mac: "find_static_lease_by_chaddr (cc_arp (cl_cfg c) @ replicate 10 0) st = None"
    and o: "offer_phase cfg st n i1 i2 s c = Some (s', c')"
  shows "lt_ok (ds_leases s') \<and> held (ds_leases s') (cl_requested_ip c') (cc_arp (cl_cfg c) @ replicate 10 0)
    \<and> cl_requested_ip c' \<noteq> 0 \<and> cl_state c' = REQUESTING \<and> cl_server_addr c' = sc_server cfg \<and> cl_packet_num c' = 0
    \<and> cl_cfg c' = cl_cfg c \<and> cl_listen_mode c' = LISTEN_RAW \<and> length (cl_packet c') = 548"
proof -
  obtain d fd c1 s1 p f out where ph: "on_timeout i1 c = Some (Going [CSendRaw d fd] c1)"
      "serve_packet cfg st (n\<lparr>in_rcv := Some (pkt_bytes d)\<rparr>) s = Some (Running s' [SendClient p (Some f)])"
      "on_packet (i2\<lparr>ci_rcv := Some (fr_bytes f)\<rparr>) c1 = Some (Going out c')"
    using o unfolding offer_phase_def
    by (auto elim!: bind_SomeE split: cl_res.split_asm list.split_asm cl_out.split_asm dhcpd_res.split_asm srv_out.split_asm option.split_asm)
  obtain os' where d: "pkt_rep d ((DHCP_MESSAGE_TYPE, [DHCPDISCOVER]) # os @ vendor_opt # os')" "msg_hdr (cl_cfg c) (cl_xid c1) 0 d"
      "c1 = c\<lparr>cl_xid := cl_xid c1, cl_timeout := cl_timeout c1, cl_packet_num := cl_packet_num c1\<rparr>"
    using discover_sent [OF cfg st(1) ph(1)] by blast
  let ?env = "in_env n"
  have v: "map_of ((DHCP_MESSAGE_TYPE, [DHCPDISCOVER]) # os @ vendor_opt # os') DHCP_VENDOR = Some (snd vendor_opt)"
    using map_of_own [OF cfg, of DHCP_VENDOR "vendor_opt # os'"] by (simp add: opt_codes vendor_opt_def)
  have "handle_packet cfg st ?env d (ds_leases s) = Some ([SendClient p (Some f)], ds_leases s')"
    using serve_running [OF _ ph(2), of d] server_receives [OF d(1) _ v] d(2) by (simp add: msg_hdr_def)
  then obtain r where so: "sendOffer cfg st ?env d (ds_leases s) = Some (r, [SendClient p (Some f)], ds_leases s')"
    using client_message [OF d(1), of "se_junk ?env"] by (auto simp: handle_packet_def Let_def msg_types)
  have ch: "chaddr d = cc_arp (cl_cfg c) @ replicate 10 0" "giaddr d = 0" "length (chaddr d) = 16"
    using d(1,2) by (auto simp: msg_hdr_def pkt_rep_def wf_pkt_def)
  have rep: "lt_ok (ds_leases s')" "reply_ok cfg d DHCPOFFER p" "offer_good st ?env d (ds_leases s) (ds_leases s') (yiaddr p)"
    using sendOffer_ok [OF srv(1) ch(3) srv(2,3), of st ?env] so by (auto simp: offered_def)
  obtain q where q: "(r, [SendClient p (Some f)]) = send_packet cfg ?env q False" using sendOffer_out [OF so] by auto
  have "q = p" using send_packet_msgs [of cfg ?env q False] q [symmetric] by simp
  then obtain src dst where fr: "fr_bytes f = udp_bytes (raw_image p src SERVER_PORT dst CLIENT_PORT)"
    using send_packet_frame [OF q] reply_wf [OF rep(2)] ch(2) by auto
  have c1: "cl_listen_mode c1 = LISTEN_RAW" "length (cl_packet c1) = 548" "cl_state c1 = INIT_SELECTING" "\<not> cl_query c1" "cl_cfg c1 = cl_cfg c"
    using st by (subst d(3), simp)+
  have "on_packet (i2\<lparr>ci_rcv := Some (fr_bytes f)\<rparr>) c1 = on_message (i2\<lparr>ci_rcv := Some (fr_bytes f)\<rparr>) p (c1\<lparr>cl_packet := pkt_bytes p\<rparr>)"
    using client_receives [of p c1 "i2\<lparr>ci_rcv := Some (fr_bytes f)\<rparr>" src SERVER_PORT dst] reply_wf [OF rep(2)] c1 fr by simp
  also have "\<dots> = Some (on_offer (i2\<lparr>ci_rcv := Some (fr_bytes f)\<rparr>) p (c1\<lparr>cl_packet := pkt_bytes p\<rparr>))"
    using reply_message [OF rep(2), of "c1\<lparr>cl_packet := pkt_bytes p\<rparr>"] reply_wf [OF rep(2)] d(2) c1 by (simp add: msg_hdr_def)
  finally have c': "Going out c' = on_offer (i2\<lparr>ci_rcv := Some (fr_bytes f)\<rparr>) p (c1\<lparr>cl_packet := pkt_bytes p\<rparr>)" using ph(3) by simp
  have "length (pkt_bytes p) = 548" using length_pkt_bytes reply_wf [OF rep(2)] by blast
  then show ?thesis
    using c' reply_on_offer [OF rep(2), of "c1\<lparr>cl_packet := pkt_bytes p\<rparr>" "i2\<lparr>ci_rcv := Some (fr_bytes f)\<rparr>"] rep(1,3) c1 ch(1) mac
    by (simp add: offer_good_def)
qed

lemma sendACK_out:
  assumes "sendACK cfg env old yi ls = Some (r, out, ls')"
  shows "\<exists>r' out' p rest. (r', out') = send_packet cfg env p False \<and> out = out' @ rest"
proof -
  obtain p where p: "do { p \<leftarrow> init_packet cfg old DHCPACK;
      p \<leftarrow> pkt_add_simple (p\<lparr>yiaddr := yi\<rparr>) DHCP_LEASE_TIME (htonl (ack_lease_time cfg (pkt_mem (se_junk env) old)));
      p \<leftarrow> add_config_options (sc_options cfg) p; add_bootp_options cfg p } = Some p"
    using assms unfolding sendACK_def Let_def by (auto elim!: bind_SomeE)
  obtain r' out' where sp: "send_packet cfg env p False = (r', out')" by fastforce
  have "\<exists>rest. out = out' @ rest"
    using assms p sp unfolding sendACK_def Let_def by (auto elim!: bind_SomeE split: if_split_asm prod.split_asm)
  then show ?thesis using sp by metis
qed

lemma held_find:
  assumes ok: "lt_ok ls" and ch: "length ch = 16" "ch \<noteq> blank_chaddr" and h: "held ls a ch"
  shows "\<exists>i. find_lease_by_chaddr ch ls = Some i \<and> i < length ls \<and> l_yiaddr (ls ! i) = a"
proof -
  obtain j where j: "j < length ls" "l_yiaddr (ls ! j) = a" "l_chaddr (ls ! j) = ch" using h by (auto simp: held_def)
  then obtain i where i: "find_lease_by_chaddr ch ls = Some i"
    using find_idx_ex [of "ls ! j" ls] ch(1) unfolding find_lease_by_chaddr_def by fastforce
  then have "i < length ls" "l_chaddr (ls ! i) = ch" using find_by_chaddr [OF i ok ch(1)] by simp_all
  then have "i = j" using lt_okD(3) [OF ok, of i j] j ch(2) by metis
  then show ?thesis using i j by blast
qed

text \<open>The server acknowledges the request of a client for the address the table holds for it.\<close>

lemma request_acked:
  assumes cc: "cfg_opts ccfg os" and q: "pkt_rep q ((DHCP_MESSAGE_TYPE, [DHCPREQUEST]) # os @ [vendor_opt, (DHCP_REQUESTED_IP, be32 a),
        (DHCP_SERVER_ID, be32 (sc_server cfg)), param_req])" "msg_hdr ccfg x 0 q"
    and srv: "lt_ok ls" "cfg_ok cfg" "sc_lease cfg \<noteq> 0xFFFFFFFF" and mac: "find_static_lease_by_chaddr (chaddr q) st = None"
      "chaddr q \<noteq> blank_chaddr"
    and h: "held ls a (chaddr q)" and net: "re_socket (se_raw env)" "re_bind (se_raw env)" "0 \<le> re_sendto (se_raw env)"
  shows "\<exists>p f out. handle_packet cfg st env q ls = Some (SendClient p (Some f) # out, ack_table env q a (sc_lease cfg) ls)
    \<and> reply_ok cfg q DHCPACK p \<and> yiaddr p = a \<and> opt_data (pkt_mem junk p) DHCP_LEASE_TIME = Some (be32 (sc_lease cfg))
    \<and> (\<exists>src dst. fr_bytes f = udp_bytes (raw_image p src SERVER_PORT dst CLIENT_PORT))"
proof -
  let ?m = "pkt_mem (se_junk env) q"
  have ch: "length (chaddr q) = 16" "giaddr q = 0" using q by (auto simp: msg_hdr_def pkt_rep_def wf_pkt_def)
  define L where "L = [vendor_opt, (DHCP_REQUESTED_IP, be32 a), (DHCP_SERVER_ID, be32 (sc_server cfg)), param_req]"
  have codes: "opt_data ?m k = map_of ((DHCP_MESSAGE_TYPE, [DHCPREQUEST]) # L) k"
    if "k \<notin> {DHCP_CLIENT_ID, DHCP_HOST_NAME}" "opt_ok (k, [])" for k
    using map_of_own [OF cc that(1), of L] opt_data_opts [OF q(1) [folded L_def] that(2)] by (simp del: map_of_append)
  have od: "opt_data ?m DHCP_REQUESTED_IP = Some (be32 a)" "opt_data ?m DHCP_SERVER_ID = Some (be32 (sc_server cfg))"
      "opt_data ?m DHCP_LEASE_TIME = None"
    by (subst codes; simp add: L_def opt_codes vendor_opt_def param_req_def)+
  have t: "ack_lease_time cfg ?m = sc_lease cfg" using od(3) by (simp add: ack_lease_time_def opt_data_def)
  obtain i where i: "find_lease_by_chaddr (chaddr q) ls = Some i" "l_yiaddr (ls ! i) = a" using held_find [OF srv(1) ch(1) mac(2) h] by blast
  have hp: "handle_packet cfg st env q ls = ack cfg env q a ls"
    using client_message [OF q(1), of "se_junk env"] opt_data_u32 [OF od(1)] opt_data_u32 [OF od(2)] i mac(1)
    by (auto simp: handle_packet_def handle_request_def handle_dynamic_def Let_def msg_types)
  obtain r :: int and out p where p: "sent_msgs out = [p]" "reply_ok cfg q DHCPACK p" "yiaddr p = a"
      "opt_data (pkt_mem junk p) DHCP_LEASE_TIME = Some (be32 (sc_lease cfg))" "r = re_sendto (se_raw env)"
      "sendACK cfg env q a ls = (if r < 0 then Some (-1, out, ls)
        else if sc_lease cfg \<noteq> 0xFFFFFFFF then Some (0, out @ [WriteLeases], ack_table env q a (sc_lease cfg) ls)
        else Some (0, out, ls))"
    using sendACK_eq [OF ch(1) srv(2) t [symmetric], where junk = junk and yi = a and ls = ls] net(1,2) ch(2) by blast
  then have sa: "sendACK cfg env q a ls = Some (0, out @ [WriteLeases], ack_table env q a (sc_lease cfg) ls)"
    using net(3) srv(3) by simp
  obtain r' out' p' rest where o: "(r', out') = send_packet cfg env p' False" "out @ [WriteLeases] = out' @ rest"
    using sendACK_out [OF sa] by blast
  have "sent_msgs out' = [p']" using send_packet_msgs o(1) by (metis snd_conv)
  then have "p' = p" using arg_cong [OF o(2), of sent_msgs] p(1) by simp
  moreover have "giaddr p = 0" using reply_wf [OF p(2)] ch(2) by simp
  ultimately obtain f where f: "out' = [SendClient p (Some f)]" "\<exists>src dst. fr_bytes f = udp_bytes (raw_image p src SERVER_PORT dst CLIENT_PORT)"
    using send_packet_frame [OF o(1)] net by auto
  have "handle_packet cfg st env q ls = Some (SendClient p (Some f) # rest, ack_table env q a (sc_lease cfg) ls)"
    unfolding hp ack_def sa o(2) f(1) by simp
  then show ?thesis using p(2-4) f(2) by blast
qed

lemma reply_on_ack:
  assumes "opt_data (pkt_mem (ci_junk inp) p) DHCP_LEASE_TIME = Some (be32 t)" and "cl_state s = REQUESTING"
    and "arpping (ci_arp inp) (yiaddr p) 0 (cc_arp (cl_cfg s)) (cc_interface (cl_cfg s)) = ArpDone r" and "r \<noteq> 0"
    and "\<not> cc_quit_after_lease (cl_cfg s)"
  shows "\<exists>out s'. on_ack inp p s = Some (Going out s') \<and> cl_state s' = BOUND \<and> cl_requested_ip s' = yiaddr p
    \<and> cl_lease s' = t \<and> cl_start s' = ci_now2 inp"
proof -
  obtain k where "get_option (pkt_mem (ci_junk inp) p) DHCP_LEASE_TIME = Some k" "get_u32 (pkt_mem (ci_junk inp) p) k = t"
    using opt_data_u32 [OF assms(1)] by auto
  then show ?thesis using assms(2-5)
    by (simp add: on_ack_def enter_bound_def change_mode_def background_def ntohl_def Let_def)
qed

lemma request_phase_binds:
  assumes cc: "cfg_opts (cl_cfg c) os" and st: "cl_state c = REQUESTING" "cl_listen_mode c = LISTEN_RAW" "length (cl_packet c) = 548"
      "cl_packet_num c = 0" "0 < cc_discover_retry (cl_cfg c)" "\<not> cc_quit_after_lease (cl_cfg c)" "cl_server_addr c = sc_server cfg"
    and srv: "lt_ok (ds_leases s)" "cfg_ok cfg" "sc_lease cfg \<noteq> 0xFFFFFFFF" "0 < se_now (in_env n)"
    and mac: "mac = cc_arp (cl_cfg c) @ replicate 10 0" "find_static_lease_by_chaddr mac st = None" "mac \<noteq> blank_chaddr"
    and h: "held (ds_leases s) (cl_requested_ip c) mac" "cl_requested_ip c \<noteq> 0"
    and net: "re_socket (se_raw (in_env n))" "re_bind (se_raw (in_env n))" "0 \<le> re_sendto (se_raw (in_env n))"
    and arp: "arpping (ci_arp i2) (cl_requested_ip c) 0 (cc_arp (cl_cfg c)) (cc_interface (cl_cfg c)) = ArpDone r" "r \<noteq> 0"
  shows "\<exists>s' c'. request_phase cfg st n i1 i2 s c = Some (s', c') \<and> cl_state c' = BOUND \<and> cl_requested_ip c' = cl_requested_ip c
    \<and> cl_lease c' = sc_lease cfg \<and> cl_start c' = ci_now2 i2 \<and> lt_ok (ds_leases s')
    \<and> (\<exists>l \<in> set (ds_leases s'). l_yiaddr l = cl_requested_ip c \<and> l_chaddr l = mac \<and> l_ACKed l = 1
        \<and> l_expires l = se_now (in_env n) + sc_lease cfg)"
proof -
  let ?a = "cl_requested_ip c" and ?env = "in_env n"
  obtain q where q: "send_selecting (cl_cfg c) i1 (cl_xid c) (cl_server_addr c) ?a = Some (client_broadcast (cl_cfg c) i1 q)"
      "msg_hdr (cl_cfg c) (cl_xid c) 0 q" "pkt_rep q ((DHCP_MESSAGE_TYPE, [DHCPREQUEST]) # os @ [vendor_opt, (DHCP_REQUESTED_IP, be32 ?a),
        (DHCP_SERVER_ID, be32 (sc_server cfg)), param_req])"
    using send_selecting_ok [OF cc, of i1 "cl_xid c" "cl_server_addr c" ?a] st(7) by auto
  obtain w where "retry_timeout (cl_cfg c) 0 (ci_now2 i1) = Some w" by (simp add: retry_timeout_def Let_def)
  then obtain f0 where t: "on_timeout i1 c = Some (Going [CSendRaw q f0] (c\<lparr>cl_timeout := w, cl_packet_num := 1\<rparr>))"
    using st q(1) by (simp add: on_timeout_def timeout_requesting_def Let_def client_broadcast_def)
  let ?c = "c\<lparr>cl_timeout := w, cl_packet_num := 1\<rparr>"
  have ch: "chaddr q = mac" "length (chaddr q) = 16" using q(2,3) mac(1) by (auto simp: msg_hdr_def pkt_rep_def wf_pkt_def)
  obtain p f out where p: "handle_packet cfg st ?env q (ds_leases s)
        = Some (SendClient p (Some f) # out, ack_table ?env q ?a (sc_lease cfg) (ds_leases s))"
      "reply_ok cfg q DHCPACK p" "yiaddr p = ?a" "opt_data (pkt_mem (ci_junk i2) p) DHCP_LEASE_TIME = Some (be32 (sc_lease cfg))"
      "\<exists>src dst. fr_bytes f = udp_bytes (raw_image p src SERVER_PORT dst CLIENT_PORT)"
    using request_acked [OF cc q(3,2) srv(1-3) mac(2,3) [folded ch(1)] h(1) [folded ch(1)] net, of "ci_junk i2"] by blast
  have v: "map_of ((DHCP_MESSAGE_TYPE, [DHCPREQUEST]) # os @ [vendor_opt, (DHCP_REQUESTED_IP, be32 ?a),
        (DHCP_SERVER_ID, be32 (sc_server cfg)), param_req]) DHCP_VENDOR = Some (snd vendor_opt)"
    using map_of_own [OF cc, of DHCP_VENDOR] by (simp add: opt_codes vendor_opt_def del: map_of_append)
  note wf = reply_wf [OF p(2)]
  let ?n = "n\<lparr>in_rcv := Some (pkt_bytes q)\<rparr>" and ?i = "i2\<lparr>ci_rcv := Some (fr_bytes f)\<rparr>"
  let ?s = "s\<lparr>ds_leases := ack_table ?env q ?a (sc_lease cfg) (ds_leases s)\<rparr>"
  have sv: "serve_packet cfg st ?n s = Some (Running ?s (SendClient p (Some f) # out))"
    using serve_packet_eq [of ?n q cfg st s] server_receives [OF q(3) _ v] q(2) p(1) by (simp add: msg_hdr_def)
  have "on_packet ?i ?c = on_message ?i p (?c\<lparr>cl_packet := pkt_bytes p\<rparr>)"
    using client_receives [of p ?c ?i] reply_wf [OF p(2)] st(2,3) p(5) by auto
  also have "\<dots> = on_ack ?i p (?c\<lparr>cl_packet := pkt_bytes p\<rparr>)"
    using reply_message [OF p(2), of "?c\<lparr>cl_packet := pkt_bytes p\<rparr>" ?i] reply_wf [OF p(2)] q(2) st(1) by (simp add: msg_hdr_def)
  finally obtain o' c' where c': "on_packet ?i ?c = Some (Going o' c')" "cl_state c' = BOUND" "cl_requested_ip c' = ?a"
      "cl_lease c' = sc_lease cfg" "cl_start c' = ci_now2 i2"
    using reply_on_ack [of ?i p "sc_lease cfg" "?c\<lparr>cl_packet := pkt_bytes p\<rparr>" r] p(3,4) st(1,6) arp by auto
  have "request_phase cfg st n i1 i2 s c = Some (?s, c')" unfolding request_phase_def using t sv c'(1) by simp
  moreover have "lt_ok (ds_leases ?s)" using ack_table_ok [OF srv(1) ch(2), of "\<lambda>_. False"] by simp
  moreover have "\<exists>l \<in> set (ds_leases ?s). l_yiaddr l = ?a \<and> l_chaddr l = mac \<and> l_ACKed l = 1 \<and> l_expires l = se_now ?env + sc_lease cfg"
    using ack_table_records [OF srv(1) ch(2) _ h(2) srv(4), of "sc_lease cfg"] h(1) ch(1) by (auto simp: Bex_def in_set_conv_nth)
  ultimately show ?thesis using c' by blast
qed

text \<open>The server makes an offer to a new client without a wish as soon as the search finds an address and the table has room.\<close>

lemma offer_made:
  assumes ch: "length (chaddr d) = 16" "giaddr d = 0" and c: "cfg_ok cfg"
    and new: "find_static_lease_by_chaddr (chaddr d) st = None" "find_lease_by_chaddr (chaddr d) ls = None"
      "get_option (pkt_mem (se_junk env) d) DHCP_REQUESTED_IP = None"
    and a: "find_address (se_now env) (se_answers env) cfg st False ls = Some (a, ls1)" "a \<noteq> 0"
    and room: "oldest_expired_lease (se_now env) (clear_lease (chaddr d) a ls1) \<noteq> None"
    and net: "re_socket (se_raw env)" "re_bind (se_raw env)"
  shows "\<exists>r p f ls'. sendOffer cfg st env d ls = Some (r, [SendClient p (Some f)], ls') \<and> reply_ok cfg d DHCPOFFER p
    \<and> (\<exists>src dst. fr_bytes f = udp_bytes (raw_image p src SERVER_PORT dst CLIENT_PORT))"
proof -
  let ?m = "pkt_mem (se_junk env) d"
  obtain k where k: "oldest_expired_lease (se_now env) (clear_lease (chaddr d) a ls1) = Some k" using room by auto
  obtain x ls2 where al: "add_lease (se_now env) (chaddr d) a (sc_offer_time cfg) (host_name_of ?m) ls1 = (Some x, ls2)"
    using k by (simp add: add_lease_def Let_def)
  obtain p p1 p2 p3 where p: "init_packet cfg d DHCPOFFER = Some p" "chaddr p = chaddr d"
      "pkt_add_simple (p\<lparr>yiaddr := a\<rparr>) DHCP_LEASE_TIME (offer_time cfg ?m (sc_lease cfg)) = Some p1"
      "add_config_options (sc_options cfg) p1 = Some p2" "add_bootp_options cfg p2 = Some p3" "reply_ok cfg d DHCPOFFER p3"
    using offer_packet [OF ch(1) c, of a "offer_time cfg ?m (sc_lease cfg)"] by blast
  obtain r out where sp: "(r, out) = send_packet cfg env p3 False" by (metis surj_pair)
  have "sendOffer cfg st env d ls = Some (r, out, ls2)"
    by (simp add: sendOffer_def p(1-5) sp [symmetric] new offer_addr_def offer_search_def a al htonl_def)
  moreover obtain f where "out = [SendClient p3 (Some f)]" "\<exists>src dst. fr_bytes f = udp_bytes (raw_image p3 src SERVER_PORT dst CLIENT_PORT)"
    using send_packet_frame [OF sp] reply_wf [OF p(6)] ch(2) net by auto
  ultimately show ?thesis using p(6) by blast
qed

lemma offer_phase_makes:
  assumes cfg: "cfg_opts (cl_cfg c) os" and st: "cl_state c = INIT_SELECTING" "cl_listen_mode c = LISTEN_RAW" "length (cl_packet c) = 548"
      "\<not> cl_query c" "cl_packet_num c = 0" "0 < cc_discover_retry (cl_cfg c)" "cl_requested_ip c = 0"
    and srv: "cfg_ok cfg" and mac: "mac = cc_arp (cl_cfg c) @ replicate 10 0" "find_static_lease_by_chaddr mac st = None"
      "find_lease_by_chaddr mac (ds_leases s) = None"
    and a: "find_address (se_now (in_env n)) (se_answers (in_env n)) cfg st False (ds_leases s) = Some (a, ls1)" "a \<noteq> 0"
    and room: "oldest_expired_lease (se_now (in_env n)) (clear_lease mac a ls1) \<noteq> None"
    and net: "re_socket (se_raw (in_env n))" "re_bind (se_raw (in_env n))"
  shows "\<exists>s' c'. offer_phase cfg st n i1 i2 s c = Some (s', c')"
proof -
  let ?env = "in_env n"
  let ?o = "(DHCP_MESSAGE_TYPE, [DHCPDISCOVER]) # os @ [vendor_opt, param_req]"
  obtain d where d: "send_discover (cl_cfg c) i1 (ci_rand i1) 0 = Some (client_broadcast (cl_cfg c) i1 d)"
      "msg_hdr (cl_cfg c) (ci_rand i1) 0 d" "pkt_rep d ?o"
    using send_discover_ok [OF cfg, of i1 "ci_rand i1" 0] by auto
  obtain w where "retry_timeout (cl_cfg c) 0 (ci_now2 i1) = Some w" by (simp add: retry_timeout_def Let_def)
  then obtain f0 where t: "on_timeout i1 c = Some (Going [CSendRaw d f0] (c\<lparr>cl_xid := ci_rand i1, cl_timeout := w, cl_packet_num := 1\<rparr>))"
    using st d(1) by (simp add: on_timeout_def timeout_selecting_def Let_def client_broadcast_def)
  let ?c = "c\<lparr>cl_xid := ci_rand i1, cl_timeout := w, cl_packet_num := 1\<rparr>"
  have v: "map_of ?o DHCP_VENDOR = Some (snd vendor_opt)" "map_of ?o DHCP_REQUESTED_IP = None"
    using map_of_own [OF cfg, of _ "[vendor_opt, param_req]"] by (simp_all add: opt_codes vendor_opt_def param_req_def del: map_of_append)
  have ch: "chaddr d = mac" "giaddr d = 0" "length (chaddr d) = 16" using d(2,3) mac(1) by (auto simp: msg_hdr_def pkt_rep_def wf_pkt_def)
  have "opt_data (pkt_mem (se_junk ?env) d) DHCP_REQUESTED_IP = None"
    using opt_data_opts [OF d(3), of DHCP_REQUESTED_IP] v(2) by (simp add: opt_codes)
  then have rq: "get_option (pkt_mem (se_junk ?env) d) DHCP_REQUESTED_IP = None" by (simp add: opt_data_def)
  obtain r p f ls' where o: "sendOffer cfg st ?env d (ds_leases s) = Some (r, [SendClient p (Some f)], ls')" "reply_ok cfg d DHCPOFFER p"
      "\<exists>src dst. fr_bytes f = udp_bytes (raw_image p src SERVER_PORT dst CLIENT_PORT)"
    using offer_made [OF ch(3,2) srv mac(2,3) [folded ch(1)] rq a room [folded ch(1)] net] by blast
  let ?n = "n\<lparr>in_rcv := Some (pkt_bytes d)\<rparr>" and ?i = "i2\<lparr>ci_rcv := Some (fr_bytes f)\<rparr>"
  have "handle_packet cfg st ?env d (ds_leases s) = Some ([SendClient p (Some f)], ls')"
    using client_message [OF d(3), of "se_junk ?env"] o(1) by (auto simp: handle_packet_def Let_def msg_types)
  then have sv: "serve_packet cfg st ?n s = Some (Running (s\<lparr>ds_leases := ls'\<rparr>) [SendClient p (Some f)])"
    using serve_packet_eq [of ?n d cfg st s] server_receives [OF d(3) _ v(1)] d(2) by (simp add: msg_hdr_def)
  note wf = reply_wf [OF o(2)]
  have "on_packet ?i ?c = on_message ?i p (?c\<lparr>cl_packet := pkt_bytes p\<rparr>)"
    using client_receives [of p ?c ?i] wf st(2,3) o(3) by auto
  also have "\<dots> = Some (on_offer ?i p (?c\<lparr>cl_packet := pkt_bytes p\<rparr>))"
    using reply_message [OF o(2), of "?c\<lparr>cl_packet := pkt_bytes p\<rparr>" ?i] wf d(2) st(1) by (simp add: msg_hdr_def)
  finally obtain c' where "on_packet ?i ?c = Some (Going [] c')"
    using reply_on_offer [OF o(2), of "?c\<lparr>cl_packet := pkt_bytes p\<rparr>" ?i] st(4) by simp
  then show ?thesis unfolding offer_phase_def using t sv by simp
qed

section \<open>Starting the server\<close>

text \<open>The cleared configuration, with null pointers for the optional strings.\<close>

definition zero_config :: server_config where
  "zero_config = \<lparr>sc_server = 0, sc_start = 0, sc_end = 0, sc_options = [], sc_interface = [], sc_ifindex = 0,
     sc_arp = replicate 6 0, sc_lease = 0, sc_max_leases = 0, sc_remaining = False, sc_auto_time = 0, sc_decline_time = 0,
     sc_conflict_time = 0, sc_offer_time = 0, sc_min_lease = 0, sc_lease_file = [], sc_pidfile = [], sc_notify_file = None,
     sc_siaddr = 0, sc_sname = None, sc_boot_file = None\<rparr>"

definition config_lease :: "server_config \<Rightarrow> u32 option" where
  "config_lease cfg = do {
     option' \<leftarrow> find_option (sc_options cfg) DHCP_LEASE_TIME;
     case option' of
       None \<Rightarrow> Some LEASE_TIME
     | Some k \<Rightarrow> do { d \<leftarrow> rdn (sc_options cfg ! k) 2 4; Some (ntohl (un_be32 d)) } }"

text \<open>What the start reads: the name service, the configuration file and the stack below its line buffer, the time,
  the lease file, whether it can be written, and the answer to the query of the interface.\<close>

record start_env =
  sn_resolve :: "u8 list \<Rightarrow> u32 option"
  sn_config :: "u8 list option"
  sn_buffer :: "u8 list"
  sn_now :: u32
  sn_leases :: "u8 list option"
  sn_writable :: bool
  sn_interface :: "(int \<times> u32 \<times> u8 list) option"

text \<open>The configuration, the static leases, the state before the first pass and the result of \<^verbatim>\<open>write_leases\<close>;
  \<open>Inl 1\<close> is the exit when the interface cannot be read.\<close>

definition dhcpd_start :: "start_env \<Rightarrow> (int + server_config \<times> lease list \<times> dhcpd_state \<times> u8 list option) option" where
  "dhcpd_start e = do {
     cf \<leftarrow> read_config (sn_resolve e) (sn_config e) (sn_buffer e)
       \<lparr>cf_cfg = zero_config, cf_static = replicate MAX_STATIC_LEASES blank_lease, cf_index = 0\<rparr>;
     let cfg = cf_cfg cf;
     let static_leases = cf_static cf;
     lease \<leftarrow> config_lease cfg;
     let cfg = cfg\<lparr>sc_lease := lease\<rparr>;
     let leases = replicate (unat (sc_max_leases cfg)) blank_lease;
     let leases = read_leases cfg static_leases (sn_now e) (sn_leases e) leases;
     (written, cmd) \<leftarrow> write_leases cfg (sn_now e) (sn_writable e) leases;
     case sn_interface e of
       None \<Rightarrow> Some (Inl 1)
     | Some (ifindex, server, arp) \<Rightarrow>
         let cfg = cfg\<lparr>sc_ifindex := ifindex, sc_server := server, sc_arp := arp\<rparr> in
         Some (Inr (cfg, static_leases,
           \<lparr>ds_socket = -1, ds_timeout_end = sn_now e + sc_auto_time cfg, ds_leases = leases\<rparr>, written)) }"

lemma read_leases_from_ok:
  assumes "lt_ok ls"
  shows "lt_ok (read_leases_from cfg st now i inp ls) \<and> length (read_leases_from cfg st now i inp ls) = length ls"
  using assms
proof (induction "length inp" arbitrary: i inp ls rule: less_induct)
  case less
  let ?l = "lease_of_record (take 92 inp)"
  let ?t = "if \<not> sc_remaining cfg then ntohl (l_expires ?l) - now else ntohl (l_expires ?l)"
  show ?case
  proof (cases "i < unat (sc_max_leases cfg) \<and> 92 \<le> length inp")
    case False
    then have "read_leases_from cfg st now i inp ls = ls" by (subst read_leases_from.simps) auto
    then show ?thesis using less.prems by simp
  next
    case i: True
    have "length (drop 92 inp) < length inp" using i by auto
    note ih = less.hyps [OF this]
    have ch: "length (l_chaddr ?l) = 16" using i by (simp add: lease_of_record_def)
    show ?thesis
    proof (cases "l_yiaddr ?l \<ge> sc_start cfg \<and> l_yiaddr ?l \<le> sc_end cfg \<and> l_ACKed ?l \<noteq> 0 \<and> \<not> static_match st ?l")
      case False
      then have "read_leases_from cfg st now i inp ls = read_leases_from cfg st now i (drop 92 inp) ls"
        using i by (subst read_leases_from.simps) (auto simp: Let_def)
      then show ?thesis using ih [OF less.prems] by simp
    next
      case True
      obtain k ls1 where al: "add_lease now (l_chaddr ?l) (l_yiaddr ?l) ?t (Some (l_hostname ?l)) ls = (k, ls1)" by fastforce
      have ok: "lt_ok ls1" "length ls1 = length ls"
        using add_ok [OF less.prems ch] length_add [of now "l_chaddr ?l" "l_yiaddr ?l" ?t "Some (l_hostname ?l)" ls] al
        by (metis snd_conv)+
      have eq: "read_leases_from cfg st now i inp ls = (case k of None \<Rightarrow> ls1
          | Some k \<Rightarrow> read_leases_from cfg st now (i + 1) (drop 92 inp) (ls1[k := (ls1 ! k)\<lparr>l_ACKed := 1\<rparr>]))"
        using i True al by (subst read_leases_from.simps) (simp add: Let_def split: option.split)
      show ?thesis
      proof (cases k)
        case None
        then show ?thesis using eq ok by simp
      next
        case (Some j)
        have j: "j < length ls1" using add_found [OF al [unfolded Some] ch] by simp
        have "lt_ok (ls1[j := (ls1 ! j)\<lparr>l_ACKed := 1\<rparr>])"
          by (rule lt_ok_update [OF ok(1) j]) (use lt_okD(1) [OF ok(1) j] in \<open>simp_all add: wf_lease_def\<close>)
        then show ?thesis using ih eq Some ok(2) i by simp
      qed
    qed
  qed
qed

lemma dhcpd_start_ok:
  assumes "dhcpd_start e = Some (Inr (cfg, st, s, w))"
  shows "cfg_ok cfg \<and> lt_ok (ds_leases s) \<and> length (ds_leases s) = unat (sc_max_leases cfg)
    \<and> length st = MAX_STATIC_LEASES"
proof -
  let ?c0 = "\<lparr>cf_cfg = zero_config, cf_static = replicate MAX_STATIC_LEASES blank_lease, cf_index = 0\<rparr>"
  obtain cf where cf: "read_config (sn_resolve e) (sn_config e) (sn_buffer e) ?c0 = Some cf"
    using assms unfolding dhcpd_start_def by (auto elim!: bind_SomeE)
  have "conf_ok ?c0" by (auto simp: conf_ok_def opts_good_def olist_ok_def list_all_iff zero_config_def)
  then have ok: "conf_ok cf" using read_config_ok [OF cf] by blast
  obtain t where t: "config_lease (cf_cfg cf) = Some t" using assms cf unfolding dhcpd_start_def Let_def by (auto elim!: bind_SomeE)
  define ls where "ls = read_leases (cf_cfg cf\<lparr>sc_lease := t\<rparr>) (cf_static cf) (sn_now e) (sn_leases e)
    (replicate (unat (sc_max_leases (cf_cfg cf))) blank_lease)"
  have l: "lt_ok ls \<and> length ls = unat (sc_max_leases (cf_cfg cf))"
    unfolding ls_def read_leases_def using read_leases_from_ok [OF blank_table_ok] blank_table_ok by (auto split: option.split)
  obtain x where "write_leases (cf_cfg cf\<lparr>sc_lease := t\<rparr>) (sn_now e) (sn_writable e) ls = Some x"
    using assms cf t unfolding dhcpd_start_def ls_def Let_def by (auto elim!: bind_SomeE)
  then obtain a b c where r: "sn_interface e = Some (a, b, c)" "cfg = (cf_cfg cf)\<lparr>sc_lease := t, sc_ifindex := a, sc_server := b, sc_arp := c\<rparr>"
      "st = cf_static cf" "ds_leases s = ls"
    using assms cf t unfolding dhcpd_start_def Let_def ls_def
    by (cases "sn_interface e") (auto split: prod.split_asm)
  then show ?thesis using l ok by (auto simp: conf_ok_def opts_good_def cfg_ok_def)
qed

lemma start_default:
  assumes "sn_config e = None" and "sn_interface e = Some (i, a, m)"
  shows "\<exists>cfg st s w. dhcpd_start e = Some (Inr (cfg, st, s, w)) \<and> sc_end cfg = 0xC0A800FE \<and> sc_lease cfg = LEASE_TIME"
  using assms by (simp add: dhcpd_start_def read_config_defaults zero_config_def config_lease_def write_leases_def Let_def
    split: option.split)



end
