(* ===== verification/Ppp_Eloop.thy ===== *)
theory Ppp_Eloop
  imports Sloop "HOL-Library.Multiset"
begin

text \<open>
  The event loop of the PPP daemon, \<^verbatim>\<open>src/progs.gpl/pppd.alpha/eloop.c\<close>: an array of readers, an array of
  signals and a singly linked list of timeouts in the order of their deadlines.

  \<^item> A handler is a function pointer, here a value of a type \<open>'h\<close>; what calling it does is given to the loop as a record of
    functions (\<open>el_callbacks\<close>) on the loop's own state and the rest of the program, of a type \<open>'s\<close>. The \<^verbatim>\<open>void *\<close>
    arguments are 32 bit words.
  \<^item> The locale \<open>timer_service\<close> is what the protocol modules rely on: how many timeouts of one kind are pending.
\<close>

record 'h el_sock =
  es_sock :: int
  es_data :: u32
  es_user :: u32
  es_handler :: 'h

record 'h el_timeout =
  et_time :: timeval
  et_data :: u32
  et_user :: u32
  et_handler :: 'h

record 'h el_signal =
  eg_sig :: int
  eg_user :: u32
  eg_handler :: 'h

record 'h eloop =
  el_user :: u32
  el_max_sock :: int
  el_readers :: "'h el_sock list"
  el_timeout :: "'h el_timeout list"
  el_signals :: "'h el_signal list"
  el_terminate :: bool

definition ELOOP_ALL_CTX :: u32 where
  "ELOOP_ALL_CTX = - 1"

definition eloop_init :: "u32 \<Rightarrow> 'h eloop" where
  "eloop_init user_data = \<lparr>el_user = user_data, el_max_sock = 0, el_readers = [], el_timeout = [], el_signals = [],
     el_terminate = False\<rparr>"

text \<open>The first argument of the registrations says whether \<^verbatim>\<open>malloc\<close> or \<^verbatim>\<open>realloc\<close> succeeds.\<close>

definition eloop_register_read_sock :: "bool \<Rightarrow> int \<Rightarrow> 'h \<Rightarrow> u32 \<Rightarrow> u32 \<Rightarrow> 'h eloop \<Rightarrow> int \<times> 'h eloop" where
  "eloop_register_read_sock mem sock handler eloop_data user_data el =
     (if \<not> mem then (-1, el)
      else (0, el\<lparr>el_readers := el_readers el @ [\<lparr>es_sock = sock, es_data = eloop_data, es_user = user_data, es_handler = handler\<rparr>],
        el_max_sock := (if sock > el_max_sock el then sock else el_max_sock el)\<rparr>))"

text \<open>The new timeout goes before the first one that is later.\<close>

fun el_insert :: "'h el_timeout \<Rightarrow> 'h el_timeout list \<Rightarrow> 'h el_timeout list" where
  "el_insert t [] = [t]"
| "el_insert t (tmp # ts) = (if timercmp_lt (et_time t) (et_time tmp) then t # tmp # ts else tmp # el_insert t ts)"

definition eloop_register_timeout :: "bool \<Rightarrow> timeval \<Rightarrow> u32 \<Rightarrow> u32 \<Rightarrow> 'h \<Rightarrow> u32 \<Rightarrow> u32 \<Rightarrow> 'h eloop \<Rightarrow> int \<times> 'h eloop" where
  "eloop_register_timeout mem now secs usecs handler eloop_data user_data el =
     (if \<not> mem then (-1, el)
      else
        let t = norm_usec \<lparr>tv_sec = tv_sec now + secs, tv_usec = tv_usec now + usecs\<rparr>;
            timeout = \<lparr>et_time = t, et_data = eloop_data, et_user = user_data, et_handler = handler\<rparr>
        in (0, el\<lparr>el_timeout := el_insert timeout (el_timeout el)\<rparr>))"

definition el_matches :: "'h \<Rightarrow> u32 \<Rightarrow> u32 \<Rightarrow> 'h el_timeout \<Rightarrow> bool" where
  "el_matches handler eloop_data user_data t \<longleftrightarrow> et_handler t = handler
     \<and> (et_data t = eloop_data \<or> eloop_data = ELOOP_ALL_CTX) \<and> (et_user t = user_data \<or> user_data = ELOOP_ALL_CTX)"

fun el_remove :: "('h el_timeout \<Rightarrow> bool) \<Rightarrow> int \<Rightarrow> 'h el_timeout list \<Rightarrow> int \<times> 'h el_timeout list" where
  "el_remove P removed [] = (removed, [])"
| "el_remove P removed (t # ts) =
     (if P t then el_remove P (removed + 1) ts
      else let (removed, ts) = el_remove P removed ts in (removed, t # ts))"

definition eloop_cancel_timeout :: "'h \<Rightarrow> u32 \<Rightarrow> u32 \<Rightarrow> 'h eloop \<Rightarrow> int \<times> 'h eloop" where
  "eloop_cancel_timeout handler eloop_data user_data el =
     (let (removed, ts) = el_remove (el_matches handler eloop_data user_data) 0 (el_timeout el)
      in (removed, el\<lparr>el_timeout := ts\<rparr>))"

definition eloop_register_signal :: "bool \<Rightarrow> int \<Rightarrow> 'h \<Rightarrow> u32 \<Rightarrow> 'h eloop \<Rightarrow> int \<times> 'h eloop" where
  "eloop_register_signal mem sig handler user_data el =
     (if \<not> mem then (-1, el)
      else (0, el\<lparr>el_signals := el_signals el @ [\<lparr>eg_sig = sig, eg_user = user_data, eg_handler = handler\<rparr>]\<rparr>))"

definition eloop_terminate :: "'h eloop \<Rightarrow> 'h eloop" where
  "eloop_terminate el = el\<lparr>el_terminate := True\<rparr>"

definition eloop_continue :: "'h eloop \<Rightarrow> 'h eloop" where
  "eloop_continue el = el\<lparr>el_terminate := False\<rparr>"

definition eloop_terminated :: "'h eloop \<Rightarrow> bool" where
  "eloop_terminated el = el_terminate el"

section \<open>The loop\<close>

text \<open>What calling a handler does to the loop and to the rest of the program; \<open>None\<close> is undefined behaviour.\<close>

record ('h, 's) el_callbacks =
  ec_sock :: "'h \<Rightarrow> int \<Rightarrow> u32 \<Rightarrow> u32 \<Rightarrow> 'h eloop \<times> 's \<Rightarrow> ('h eloop \<times> 's) option"
  ec_tmo :: "'h \<Rightarrow> u32 \<Rightarrow> u32 \<Rightarrow> 'h eloop \<times> 's \<Rightarrow> ('h eloop \<times> 's) option"
  ec_sig :: "'h \<Rightarrow> int \<Rightarrow> u32 \<Rightarrow> u32 \<Rightarrow> 'h eloop \<times> 's \<Rightarrow> ('h eloop \<times> 's) option"

definition eloop_handle_signal :: "('h, 's) el_callbacks \<Rightarrow> int \<Rightarrow> 'h eloop \<times> 's \<Rightarrow> ('h eloop \<times> 's) option" where
  "eloop_handle_signal cb sig w =
     (case find (\<lambda>g. eg_sig g = sig) (el_signals (fst w)) of
        None \<Rightarrow> Some w
      | Some g \<Rightarrow> ec_sig cb (eg_handler g) (eg_sig g) (el_user (fst w)) (eg_user g) w)"

fun eloop_signals :: "('h, 's) el_callbacks \<Rightarrow> int list \<Rightarrow> 'h eloop \<times> 's \<Rightarrow> ('h eloop \<times> 's) option" where
  "eloop_signals cb [] w = Some w"
| "eloop_signals cb (sig # sigs) w = do { w \<leftarrow> eloop_handle_signal cb sig w; eloop_signals cb sigs w }"

text \<open>What the kernel contributes to a pass: the times read before and after the wait, the signals that arrive during the
  wait, and the answer of \<^verbatim>\<open>select\<close> to the highest descriptor, the descriptors and the timeout.\<close>

record el_event =
  ee_now1 :: timeval
  ee_select :: "int \<Rightarrow> int list \<Rightarrow> timeval option \<Rightarrow> sel_result"
  ee_sigs :: "int list"
  ee_now2 :: timeval

definition el_wait :: "timeval \<Rightarrow> 'h eloop \<Rightarrow> timeval option" where
  "el_wait now el = (case el_timeout el of
     [] \<Rightarrow> None
   | t # _ \<Rightarrow> Some (if timercmp_ge now (et_time t) then zero_timeval else timersub (et_time t) now))"

definition el_fire :: "('h, 's) el_callbacks \<Rightarrow> timeval \<Rightarrow> 'h eloop \<times> 's \<Rightarrow> ('h eloop \<times> 's) option" where
  "el_fire cb now w = (case el_timeout (fst w) of
     [] \<Rightarrow> Some w
   | t # ts \<Rightarrow>
       if timercmp_ge now (et_time t)
       then ec_tmo cb (et_handler t) (et_data t) (et_user t) ((fst w)\<lparr>el_timeout := ts\<rparr>, snd w)
       else Some w)"

partial_function (option) el_read ::
    "('h, 's) el_callbacks \<Rightarrow> int list \<Rightarrow> nat \<Rightarrow> 'h eloop \<times> 's \<Rightarrow> ('h eloop \<times> 's) option" where
  "el_read cb rfds i w =
     (if i < length (el_readers (fst w)) \<and> \<not> el_terminate (fst w)
      then do {
        let r = el_readers (fst w) ! i;
        w \<leftarrow> (if es_sock r \<in> set rfds then ec_sock cb (es_handler r) (es_sock r) (es_data r) (es_user r) w else Some w);
        el_read cb rfds (i + 1) w }
      else Some w)"

text \<open>One pass; the first component says whether the loop goes on, and is false when it returns after an error.\<close>

definition eloop_pass :: "('h, 's) el_callbacks \<Rightarrow> el_event \<Rightarrow> 'h eloop \<times> 's \<Rightarrow> (bool \<times> 'h eloop \<times> 's) option" where
  "eloop_pass cb ev w = do {
     let fds = map es_sock (el_readers (fst w));
     let r = ee_select ev (el_max_sock (fst w) + 1) fds (el_wait (ee_now1 ev) (fst w));
     w \<leftarrow> eloop_signals cb (ee_sigs ev) w;
     case r of
       SelErr eintr \<Rightarrow>
         if \<not> eintr then Some (False, w) else do { w \<leftarrow> el_fire cb (ee_now2 ev) w; Some (True, w) }
     | SelOk res rfds _ \<Rightarrow> do {
         w \<leftarrow> el_fire cb (ee_now2 ev) w;
         if res \<le> 0 then Some (True, w) else do { w \<leftarrow> el_read cb rfds 0 w; Some (True, w) } } }"

text \<open>\<^verbatim>\<open>eloop_run\<close> over the passes the kernel lets happen: the first component says whether it has returned.\<close>

fun eloop_run :: "('h, 's) el_callbacks \<Rightarrow> el_event list \<Rightarrow> 'h eloop \<times> 's \<Rightarrow> (bool \<times> 'h eloop \<times> 's) option" where
  "eloop_run cb evs w =
     (if \<not> el_terminate (fst w) \<and> (el_timeout (fst w) \<noteq> [] \<or> el_readers (fst w) \<noteq> [])
      then (case evs of
          [] \<Rightarrow> Some (False, w)
        | ev # evs \<Rightarrow> do {
            (go, w) \<leftarrow> eloop_pass cb ev w;
            if go then eloop_run cb evs w else Some (True, w) })
      else Some (True, w))"

declare eloop_run.simps [simp del]

section \<open>The order of the timeouts\<close>

abbreviation el_key :: "'h el_timeout \<Rightarrow> int \<times> int" where
  "el_key t \<equiv> tv_key (et_time t)"

definition el_ok :: "'h eloop \<Rightarrow> bool" where
  "el_ok el \<longleftrightarrow> sorted (map el_key (el_timeout el))"

lemma mset_el_insert [simp]: "mset (el_insert t ts) = add_mset t (mset ts)"
  by (induction ts) auto

lemma set_el_insert [simp]: "set (el_insert t ts) = insert t (set ts)"
  by (induction ts) auto

lemma sorted_el_insert: "sorted (map el_key ts) \<Longrightarrow> sorted (map el_key (el_insert t ts))"
  by (induction ts) (fastforce simp: timercmp_lt_key)+

lemma filter_el_insert:
  "sorted (map el_key ts) \<Longrightarrow> filter (\<lambda>x. k = el_key x) (el_insert t ts)
     = filter (\<lambda>x. k = el_key x) ts @ (if k = el_key t then [t] else [])"
proof (induction ts)
  case (Cons a ts)
  have "filter (\<lambda>x. el_key t = el_key x) ts = []" if "el_key t < el_key a"
    using that Cons.prems by (auto simp: filter_empty_conv)
  then show ?case using Cons by (auto simp: timercmp_lt_key)
qed simp

lemma el_remove_eq: "el_remove P n ts = (n + int (length (filter P ts)), filter (\<lambda>t. \<not> P t) ts)"
  by (induction ts arbitrary: n) auto

lemma register_timeout_ok: "el_ok el \<Longrightarrow> el_ok (snd (eloop_register_timeout mem now s us h d u el))"
  by (simp add: el_ok_def eloop_register_timeout_def Let_def sorted_el_insert)

lemma cancel_timeout_ok: "el_ok el \<Longrightarrow> el_ok (snd (eloop_cancel_timeout h d u el))"
  by (simp add: el_ok_def eloop_cancel_timeout_def el_remove_eq sorted_filter)

lemma insert_all_sorts: "foldl (\<lambda>ts t. el_insert t ts) [] ts = sort_key el_key ts"
proof (induction ts rule: rev_induct)
  case (snoc t ts)
  let ?s = "sort_key el_key ts"
  have "el_insert t ?s = sort_key el_key (ts @ [t])"
  proof (rule properties_for_sort_key [symmetric])
    show "mset (el_insert t ?s) = mset (ts @ [t])" by simp
    show "sorted (map el_key (el_insert t ?s))" by (intro sorted_el_insert sorted_sort_key)
    fix k assume "k \<in> set (el_insert t ?s)"
    show "filter (\<lambda>x. el_key k = el_key x) (el_insert t ?s) = filter (\<lambda>x. el_key k = el_key x) (ts @ [t])"
      using sort_key_stable [of el_key "el_key k" ts] by (subst filter_el_insert) (simp_all add: eq_commute)
  qed
  then show ?case using snoc by simp
qed simp

section \<open>Pending timeouts\<close>

text \<open>What a client of the timers relies on: setting a timeout adds one of its kind, cancelling removes all
  of its kind, and neither touches those of another kind.\<close>

locale timer_service =
  fixes kind :: "'k \<Rightarrow> bool"
    and pending :: "'t \<Rightarrow> 'k \<Rightarrow> nat"
    and set_timer :: "'k \<Rightarrow> 't \<Rightarrow> 't"
    and cancel :: "'k \<Rightarrow> 't \<Rightarrow> 't"
  assumes pending_set: "pending (set_timer k t) k' = (if k' = k then Suc (pending t k) else pending t k')"
    and pending_cancel: "kind k \<Longrightarrow> pending (cancel k t) k' = (if k' = k then 0 else pending t k')"
begin

lemma rearm: "kind k \<Longrightarrow> pending (set_timer k (cancel k t)) k' = (if k' = k then 1 else pending t k')"
  by (simp add: pending_set pending_cancel)

lemma cancel_set: "kind k \<Longrightarrow> pending (cancel k (set_timer k t)) = pending (cancel k t)"
  by (auto simp: pending_set pending_cancel)

end

text \<open>A kind is a handler with its second argument, the first being null as in the protocol modules. Since the wildcard
  \<^verbatim>\<open>ELOOP_ALL_CTX\<close> is a value of the argument, a timeout with that argument cannot be told from the others.\<close>

type_synonym 'h el_kind = "'h \<times> u32"

definition el_kind :: "'h el_kind \<Rightarrow> bool" where
  "el_kind k \<longleftrightarrow> snd k \<noteq> ELOOP_ALL_CTX"

definition el_pending :: "'h eloop \<Rightarrow> 'h el_kind \<Rightarrow> nat" where
  "el_pending el k = length (filter (\<lambda>t. et_handler t = fst k \<and> et_data t = 0 \<and> et_user t = snd k) (el_timeout el))"

definition el_set :: "timeval \<Rightarrow> u32 \<Rightarrow> u32 \<Rightarrow> 'h el_kind \<Rightarrow> 'h eloop \<Rightarrow> 'h eloop" where
  "el_set now s us k el = snd (eloop_register_timeout True now s us (fst k) 0 (snd k) el)"

definition el_cancel :: "'h el_kind \<Rightarrow> 'h eloop \<Rightarrow> 'h eloop" where
  "el_cancel k el = snd (eloop_cancel_timeout (fst k) 0 (snd k) el)"

lemma length_filter_insert:
  "length (filter P (el_insert t ts)) = (if P t then Suc (length (filter P ts)) else length (filter P ts))"
  by (induction ts) auto

interpretation el: timer_service el_kind el_pending "el_set now s us" el_cancel for now s us
proof unfold_locales
  fix k k' :: "'h el_kind" and t :: "'h eloop"
  show "el_pending (el_set now s us k t) k' = (if k' = k then Suc (el_pending t k) else el_pending t k')"
    by (cases k; cases k') (simp add: el_pending_def el_set_def eloop_register_timeout_def Let_def length_filter_insert)
  assume "el_kind k"
  then show "el_pending (el_cancel k t) k' = (if k' = k then 0 else el_pending t k')"
    by (cases k; cases k') (auto simp: el_pending_def el_cancel_def eloop_cancel_timeout_def el_remove_eq el_matches_def el_kind_def
      ELOOP_ALL_CTX_def filter_empty_conv intro!: arg_cong [where f = length] filter_cong)
qed

text \<open>When a timeout fires, the loop has taken it off its list: the first of its kind.\<close>

fun el_drop :: "'h el_kind \<Rightarrow> 'h el_timeout list \<Rightarrow> 'h el_timeout list" where
  "el_drop k [] = []"
| "el_drop k (t # ts) = (if et_handler t = fst k \<and> et_data t = 0 \<and> et_user t = snd k then ts else t # el_drop k ts)"

definition el_expire :: "'h el_kind \<Rightarrow> 'h eloop \<Rightarrow> 'h eloop" where
  "el_expire k el = el\<lparr>el_timeout := el_drop k (el_timeout el)\<rparr>"

lemma pending_expire: "el_pending (el_expire k el) k = el_pending el k - 1"
proof -
  have "length (filter (\<lambda>t. et_handler t = fst k \<and> et_data t = 0 \<and> et_user t = snd k) (el_drop k ts))
      = length (filter (\<lambda>t. et_handler t = fst k \<and> et_data t = 0 \<and> et_user t = snd k) ts) - 1" for ts
    by (induction ts) auto
  then show ?thesis by (simp add: el_pending_def el_expire_def)
qed

section \<open>Running the loop\<close>

text \<open>The contract of the handlers: on a state that satisfies \<open>I\<close> they are defined and keep it, they change the list of timeouts
  through the operations above, so that it stays in order, and there are never more than \<open>n\<close> readers.\<close>

definition el_world :: "nat \<Rightarrow> ('s \<Rightarrow> bool) \<Rightarrow> 'h eloop \<times> 's \<Rightarrow> bool" where
  "el_world n I w \<longleftrightarrow> el_ok (fst w) \<and> I (snd w) \<and> length (el_readers (fst w)) \<le> n"

definition el_keeps :: "nat \<Rightarrow> ('s \<Rightarrow> bool) \<Rightarrow> ('h eloop \<times> 's \<Rightarrow> ('h eloop \<times> 's) option) \<Rightarrow> bool" where
  "el_keeps n I f \<longleftrightarrow> (\<forall>w. el_world n I w \<longrightarrow> (\<exists>w'. f w = Some w' \<and> el_world n I w'))"

definition el_cb_ok :: "nat \<Rightarrow> ('s \<Rightarrow> bool) \<Rightarrow> ('h, 's) el_callbacks \<Rightarrow> bool" where
  "el_cb_ok n I cb \<longleftrightarrow> (\<forall>h s d u. el_keeps n I (ec_sock cb h s d u)) \<and> (\<forall>h d u. el_keeps n I (ec_tmo cb h d u))
     \<and> (\<forall>h s d u. el_keeps n I (ec_sig cb h s d u))"

lemma el_keepsE:
  assumes "el_keeps n I f" and "el_world n I w"
  obtains w' where "f w = Some w'" "el_world n I w'"
  using assms unfolding el_keeps_def by blast

lemma el_cb_okD:
  assumes "el_cb_ok n I cb"
  shows "el_keeps n I (ec_sock cb h s d u)" "el_keeps n I (ec_tmo cb h d u)" "el_keeps n I (ec_sig cb h s d u)"
  using assms unfolding el_cb_ok_def by blast+

lemma handle_signal_keeps:
  fixes cb :: "('a, 'b) el_callbacks"
  assumes "el_cb_ok n I cb"
  shows "el_keeps n I (eloop_handle_signal cb sig)"
  unfolding el_keeps_def eloop_handle_signal_def
proof (intro allI impI)
  fix w :: "'a eloop \<times> 'b" assume w: "el_world n I w"
  show "\<exists>w'. (case find (\<lambda>g. eg_sig g = sig) (el_signals (fst w)) of None \<Rightarrow> Some w
      | Some g \<Rightarrow> ec_sig cb (eg_handler g) (eg_sig g) (el_user (fst w)) (eg_user g) w) = Some w' \<and> el_world n I w'"
  proof (cases "find (\<lambda>g. eg_sig g = sig) (el_signals (fst w))")
    case (Some g)
    then show ?thesis using el_keepsE [OF el_cb_okD(3) [OF assms] w, of "eg_handler g" "eg_sig g" "el_user (fst w)" "eg_user g"]
      by (simp del: split_paired_Ex) blast
  qed (use w in simp)
qed

lemma signals_keep:
  assumes "el_cb_ok n I cb"
  shows "el_world n I w \<Longrightarrow> \<exists>w'. eloop_signals cb sigs w = Some w' \<and> el_world n I w'"
proof (induction sigs arbitrary: w)
  case (Cons sig sigs)
  obtain w1 where "eloop_handle_signal cb sig w = Some w1" "el_world n I w1"
    by (rule el_keepsE [OF handle_signal_keeps [OF assms] Cons.prems])
  then show ?case using Cons.IH by simp
qed simp

lemma fire_keeps:
  assumes "el_cb_ok n I cb" and w: "el_world n I w"
  shows "\<exists>w'. el_fire cb now w = Some w' \<and> el_world n I w'"
proof (cases "el_timeout (fst w)")
  case (Cons t ts)
  then have "el_world n I ((fst w)\<lparr>el_timeout := ts\<rparr>, snd w)" using w by (simp add: el_world_def el_ok_def)
  from el_keepsE [OF el_cb_okD(2) [OF assms(1)] this] obtain w' where
    "ec_tmo cb (et_handler t) (et_data t) (et_user t) ((fst w)\<lparr>el_timeout := ts\<rparr>, snd w) = Some w'" "el_world n I w'" by blast
  then show ?thesis using w Cons by (cases "timercmp_ge now (et_time t)") (simp_all add: el_fire_def)
qed (use w in \<open>simp add: el_fire_def\<close>)

lemma read_keeps:
  assumes "el_cb_ok n I cb"
  shows "el_world n I w \<Longrightarrow> \<exists>w'. el_read cb rfds i w = Some w' \<and> el_world n I w'"
proof (induction "n - i" arbitrary: i w rule: less_induct)
  case less
  show ?case
  proof (cases "i < length (el_readers (fst w)) \<and> \<not> el_terminate (fst w)")
    case True
    let ?r = "el_readers (fst w) ! i"
    obtain w1 where w1: "(if es_sock ?r \<in> set rfds then ec_sock cb (es_handler ?r) (es_sock ?r) (es_data ?r) (es_user ?r) w else Some w) = Some w1"
        "el_world n I w1"
      using less.prems el_cb_okD(1) [OF assms, unfolded el_keeps_def, rule_format, OF less.prems,
        of "es_handler ?r" "es_sock ?r" "es_data ?r" "es_user ?r"]
      by (cases "es_sock ?r \<in> set rfds") (simp_all del: split_paired_Ex, blast)
    have "i < n" using True less.prems by (simp add: el_world_def)
    then obtain w' where "el_read cb rfds (i + 1) w1 = Some w'" "el_world n I w'" using less.hyps [OF _ w1(2), of "i + 1"] diff_less_mono2 [of i "i + 1" n] by auto
    then show ?thesis using True w1(1) by (subst el_read.simps) (simp add: Let_def)
  next
    case False
    then show ?thesis using less.prems by (subst el_read.simps) (auto simp del: split_paired_Ex)
  qed
qed

lemma pass_keeps:
  assumes cb: "el_cb_ok n I cb" and w: "el_world n I w"
  shows "\<exists>b w'. eloop_pass cb ev w = Some (b, w') \<and> el_world n I w'"
proof -
  obtain w1 where w1: "eloop_signals cb (ee_sigs ev) w = Some w1" "el_world n I w1" using signals_keep [OF cb w] by blast
  obtain w2 where w2: "el_fire cb (ee_now2 ev) w1 = Some w2" "el_world n I w2" using fire_keeps [OF cb w1(2)] by blast
  show ?thesis
  proof (cases "ee_select ev (el_max_sock (fst w) + 1) (map es_sock (el_readers (fst w))) (el_wait (ee_now1 ev) (fst w))")
    case (SelErr e)
    then show ?thesis using w1 w2 by (cases e) (simp_all add: eloop_pass_def Let_def ex_bool_eq)
  next
    case (SelOk res rfds wfds)
    obtain w3 where "el_read cb rfds 0 w2 = Some w3" "el_world n I w3" using read_keeps [OF cb w2(2)] by blast
    then show ?thesis using w1 w2 SelOk by (cases "res \<le> 0") (simp_all add: eloop_pass_def Let_def ex_bool_eq)
  qed
qed

lemma run_keeps:
  assumes cb: "el_cb_ok n I cb"
  shows "el_world n I w \<Longrightarrow> \<exists>b w'. eloop_run cb evs w = Some (b, w') \<and> el_world n I w'"
proof (induction evs arbitrary: w)
  case Nil
  then show ?case by (subst eloop_run.simps) (simp add: ex_bool_eq del: split_paired_Ex)
next
  case (Cons ev evs)
  obtain b w1 where w1: "eloop_pass cb ev w = Some (b, w1)" "el_world n I w1" using pass_keeps [OF cb Cons.prems] by blast
  show ?case using Cons.IH [OF w1(2)] Cons.prems w1 by (subst eloop_run.simps) (simp add: ex_bool_eq del: split_paired_Ex)
qed

text \<open>The loop runs. If every handler is defined on the states that satisfy an invariant of the program and keeps it, leaves the
  timeouts in the order of their deadlines and never lets there be more than a fixed number of readers, then every run of the loop is
  defined, whatever the kernel answers, which signals arrive and how long it takes, and keeps all of that.\<close>

lemma eloop_run_safe:
  assumes "el_cb_ok n I cb" and "el_ok el" and "length (el_readers el) \<le> n" and "I s"
  shows "\<exists>b el' s'. eloop_run cb evs (el, s) = Some (b, el', s') \<and> el_ok el' \<and> I s' \<and> length (el_readers el') \<le> n"
  using run_keeps [OF assms(1), of "(el, s)" evs] assms(2-4) by (fastforce simp: el_world_def)

text \<open>A callback that leaves the loop alone and records the calls.\<close>

definition el_call :: "'h el_timeout \<Rightarrow> 'h \<times> u32 \<times> u32" where
  "el_call t = (et_handler t, et_data t, et_user t)"

lemma pass_fires:
  assumes rec: "\<And>h d u el s. ec_tmo cb h d u (el, s) = Some (el, s @ [(h, d, u)])"
    and r: "el_readers el = []" and t: "el_timeout el = t # ts"
    and sel: "ee_sigs ev = [] \<and> (\<forall>n fds tv. ee_select ev n fds tv \<noteq> SelErr False)"
  shows "eloop_pass cb ev (el, s) = (let due = timercmp_ge (ee_now2 ev) (et_time t) in
    Some (True, if due then el\<lparr>el_timeout := ts\<rparr> else el, if due then s @ [el_call t] else s))"
proof -
  let ?due = "timercmp_ge (ee_now2 ev) (et_time t)"
  define el1 s1 where "el1 = (if ?due then el\<lparr>el_timeout := ts\<rparr> else el)" and "s1 = (if ?due then s @ [el_call t] else s)"
  have f: "el_fire cb (ee_now2 ev) (el, s) = Some (el1, s1)" using t by (simp add: el_fire_def rec el_call_def el1_def s1_def)
  have rd: "el_read cb fds 0 (el1, s1) = Some (el1, s1)" for fds using r by (subst el_read.simps) (simp add: el1_def)
  have "eloop_pass cb ev (el, s) = Some (True, el1, s1)"
  proof (cases "ee_select ev (el_max_sock el + 1) (map es_sock (el_readers el)) (el_wait (ee_now1 ev) el)")
    case (SelErr e)
    then show ?thesis using sel f by (cases e) (simp_all add: eloop_pass_def Let_def)
  qed (use sel f rd in \<open>simp add: eloop_pass_def Let_def\<close>)
  then show ?thesis by (simp add: el1_def s1_def)
qed

definition el_fired :: "el_event list \<Rightarrow> 'h el_timeout list \<Rightarrow> nat \<Rightarrow> bool" where
  "el_fired evs T k \<longleftrightarrow> k \<le> length T \<and> (\<forall>j < k. \<exists>ev \<in> set evs. el_key (T ! j) \<le> tv_key (ee_now2 ev))
     \<and> ((\<forall>ev \<in> set evs. \<forall>t \<in> set T. el_key t \<le> tv_key (ee_now2 ev)) \<longrightarrow> k = min (length evs) (length T))"

lemma el_fired_due:
  "timercmp_ge (ee_now2 ev) (et_time t) \<Longrightarrow> el_fired evs ts k \<Longrightarrow> el_fired (ev # evs) (t # ts) (Suc k)"
  unfolding el_fired_def by (auto simp: less_Suc_eq_0_disj timercmp_ge_key)

lemma el_fired_early:
  "\<not> timercmp_ge (ee_now2 ev) (et_time t) \<Longrightarrow> el_fired evs (t # ts) k \<Longrightarrow> el_fired (ev # evs) (t # ts) k"
  unfolding el_fired_def by (auto simp: timercmp_ge_key)

lemma run_fires:
  assumes rec: "\<And>h d u el s. ec_tmo cb h d u (el, s) = Some (el, s @ [(h, d, u)])"
  shows "el_readers el = [] \<Longrightarrow> \<not> el_terminate el \<Longrightarrow>
    (\<And>ev. ev \<in> set evs \<Longrightarrow> ee_sigs ev = [] \<and> (\<forall>n fds tv. ee_select ev n fds tv \<noteq> SelErr False)) \<Longrightarrow>
    \<exists>k b. eloop_run cb evs (el, s) = Some (b, el\<lparr>el_timeout := drop k (el_timeout el)\<rparr>, s @ map el_call (take k (el_timeout el)))
      \<and> el_fired evs (el_timeout el) k"
proof (induction evs arbitrary: el s)
  case Nil
  have "el_fired [] (el_timeout el) 0" by (simp add: el_fired_def)
  moreover have "\<exists>b. eloop_run cb [] (el, s) = Some (b, el, s)" by (subst eloop_run.simps) (simp add: ex_bool_eq)
  ultimately show ?case by (intro exI [of _ 0]) simp
next
  case (Cons ev evs)
  show ?case
  proof (cases "el_timeout el")
    case Nil
    have "eloop_run cb (ev # evs) (el, s) = Some (True, el, s)" using Nil Cons.prems(1) by (subst eloop_run.simps) simp
    then show ?thesis using Nil by (intro exI [of _ 0] exI [of _ True]) (simp add: el_fired_def)
  next
    case t: (Cons t ts)
    let ?due = "timercmp_ge (ee_now2 ev) (et_time t)"
    have q: "\<And>ev. ev \<in> set evs \<Longrightarrow> ee_sigs ev = [] \<and> (\<forall>n fds tv. ee_select ev n fds tv \<noteq> SelErr False)" using Cons.prems(3) by simp
    have "eloop_pass cb ev (el, s) = Some (True, if ?due then el\<lparr>el_timeout := ts\<rparr> else el, if ?due then s @ [el_call t] else s)"
      by (subst pass_fires [OF rec Cons.prems(1) t]) (use Cons.prems(3) in \<open>simp_all add: Let_def\<close>)
    then have run: "eloop_run cb (ev # evs) (el, s)
        = eloop_run cb evs (if ?due then el\<lparr>el_timeout := ts\<rparr> else el, if ?due then s @ [el_call t] else s)"
      using t Cons.prems(2) by (subst eloop_run.simps) simp
    show ?thesis
    proof (cases ?due)
      case True
      obtain k b where "eloop_run cb evs (el\<lparr>el_timeout := ts\<rparr>, s @ [el_call t])
          = Some (b, el\<lparr>el_timeout := drop k ts\<rparr>, (s @ [el_call t]) @ map el_call (take k ts))" "el_fired evs ts k"
        using Cons.IH [of "el\<lparr>el_timeout := ts\<rparr>" "s @ [el_call t]"] Cons.prems(1,2) q by auto
      then show ?thesis unfolding run using True el_fired_due [OF True] t by (intro exI [of _ "Suc k"] exI [of _ b]) simp
    next
      case False
      obtain k b where "eloop_run cb evs (el, s) = Some (b, el\<lparr>el_timeout := drop k (el_timeout el)\<rparr>, s @ map el_call (take k (el_timeout el)))"
          "el_fired evs (t # ts) k"
        using Cons.IH [of el s] Cons.prems(1,2) q t by auto
      then show ?thesis unfolding run using False el_fired_early [OF False] t by (intro exI [of _ k] exI [of _ b]) simp
    qed
  qed
qed

text \<open>A registration, and the timeout it creates.\<close>

type_synonym 'h el_request = "timeval \<times> u32 \<times> u32 \<times> 'h \<times> u32 \<times> u32"

definition el_register :: "'h el_request \<Rightarrow> 'h eloop \<Rightarrow> 'h eloop" where
  "el_register r el = (case r of (now, s, us, h, d, u) \<Rightarrow> snd (eloop_register_timeout True now s us h d u el))"

definition el_deadline :: "'h el_request \<Rightarrow> 'h el_timeout" where
  "el_deadline r = (case r of (now, s, us, h, d, u) \<Rightarrow>
     \<lparr>et_time = norm_usec \<lparr>tv_sec = tv_sec now + s, tv_usec = tv_usec now + us\<rparr>, et_data = d, et_user = u, et_handler = h\<rparr>)"

lemma el_register_eq: "el_register r el = el\<lparr>el_timeout := el_insert (el_deadline r) (el_timeout el)\<rparr>"
  by (cases r) (simp add: el_register_def el_deadline_def eloop_register_timeout_def Let_def)

lemma register_all:
  "fold el_register rs (eloop_init x) = (eloop_init x)\<lparr>el_timeout := sort_key el_key (map el_deadline rs)\<rparr>"
proof -
  have "fold el_register rs el = el\<lparr>el_timeout := foldl (\<lambda>ts t. el_insert t ts) (el_timeout el) (map el_deadline rs)\<rparr>" for el :: "'a eloop"
    by (induction rs arbitrary: el) (simp_all add: el_register_eq)
  then show ?thesis by (simp add: insert_all_sorts [symmetric] eloop_init_def)
qed

text \<open>Claim C27: the order of the timeouts. However timeouts are registered, the loop calls them in the order of their deadlines, and those with
  the same deadline in the order of registration: the list it keeps is the stable sort of the registrations by deadline, what it
  has called is a prefix of that list and what it keeps is the rest. None is called before a pass that comes at or after its deadline,
  and when all deadlines have passed each pass calls one, until none is left.\<close>

theorem timeouts_in_order:
  assumes "\<And>h d u el s. ec_tmo cb h d u (el, s) = Some (el, s @ [(h, d, u)])"
    and "\<And>ev. ev \<in> set evs \<Longrightarrow> ee_sigs ev = [] \<and> (\<forall>n fds tv. ee_select ev n fds tv \<noteq> SelErr False)"
    and T: "T = sort_key el_key (map el_deadline rs)"
  shows "\<exists>k b el'. eloop_run cb evs (fold el_register rs (eloop_init x), []) = Some (b, el', map el_call (take k T))
    \<and> el_timeout el' = drop k T \<and> k \<le> length T \<and> (\<forall>j < k. \<exists>ev \<in> set evs. el_key (T ! j) \<le> tv_key (ee_now2 ev))
    \<and> ((\<forall>ev \<in> set evs. \<forall>t \<in> set T. el_key t \<le> tv_key (ee_now2 ev)) \<longrightarrow> k = min (length evs) (length T))"
proof -
  let ?el = "fold el_register rs (eloop_init x)"
  have e: "el_readers ?el = []" "\<not> el_terminate ?el" "el_timeout ?el = T" unfolding register_all T by (simp_all add: eloop_init_def)
  obtain k b where "eloop_run cb evs (?el, []) = Some (b, ?el\<lparr>el_timeout := drop k T\<rparr>, map el_call (take k T))" "el_fired evs T k"
    using run_fires [where s = "[]" and evs = evs, OF assms(1) e(1,2) assms(2)] unfolding e(3) by auto
  moreover have "el_timeout (?el\<lparr>el_timeout := drop k T\<rparr>) = drop k T" by simp
  ultimately show ?thesis unfolding el_fired_def by blast
qed

definition example_timers :: "char el_request list" where
  "example_timers = [(\<lparr>tv_sec = 10, tv_usec = 700000\<rparr>, 0, 500000, CHR ''a'', 0, 1), (\<lparr>tv_sec = 10, tv_usec = 800000\<rparr>, 0, 200000, CHR ''b'', 0, 2),
     (\<lparr>tv_sec = 10, tv_usec = 900000\<rparr>, 0, 100000, CHR ''c'', 0, 3)]"

theorem timeouts_in_order_witness:
  "\<exists>k b el'. eloop_run \<lparr>ec_sock = (\<lambda>_ _ _ _. Some), ec_tmo = (\<lambda>h d u (el, s). Some (el, s @ [(h, d, u)])), ec_sig = (\<lambda>_ _ _ _. Some)\<rparr>
      (replicate 3 \<lparr>ee_now1 = \<lparr>tv_sec = 11, tv_usec = 0\<rparr>, ee_select = (\<lambda>_ _ _. SelOk 0 [] []), ee_sigs = [], ee_now2 = \<lparr>tv_sec = 12, tv_usec = 0\<rparr>\<rparr>)
      (fold el_register example_timers (eloop_init 0), []) = Some (b, el', [(CHR ''b'', 0, 2), (CHR ''c'', 0, 3), (CHR ''a'', 0, 1)])"
proof -
  let ?cb = "\<lparr>ec_sock = (\<lambda>_ _ _ _. Some), ec_tmo = (\<lambda>h d u (el, s). Some (el, s @ [(h, d, u)])), ec_sig = (\<lambda>_ _ _ _. Some)\<rparr>"
  let ?ev = "\<lparr>ee_now1 = \<lparr>tv_sec = 11, tv_usec = 0\<rparr>, ee_select = (\<lambda>_ _ _. SelOk 0 [] []), ee_sigs = [], ee_now2 = \<lparr>tv_sec = 12, tv_usec = 0\<rparr>\<rparr>"
  define T where "T = sort_key el_key (map el_deadline example_timers)"
  have m: "T = [\<lparr>et_time = \<lparr>tv_sec = 11, tv_usec = 0\<rparr>, et_data = 0, et_user = 2, et_handler = CHR ''b''\<rparr>,
      \<lparr>et_time = \<lparr>tv_sec = 11, tv_usec = 0\<rparr>, et_data = 0, et_user = 3, et_handler = CHR ''c''\<rparr>,
      \<lparr>et_time = \<lparr>tv_sec = 11, tv_usec = 200000\<rparr>, et_data = 0, et_user = 1, et_handler = CHR ''a''\<rparr>]"
    by (simp add: T_def example_timers_def el_deadline_def norm_usec_closed tv_key_def)
  have t: "map el_call T = [(CHR ''b'', 0, 2), (CHR ''c'', 0, 3), (CHR ''a'', 0, 1)]" by (simp add: m el_call_def)
  have d: "\<forall>t \<in> set T. el_key t \<le> tv_key \<lparr>tv_sec = 12, tv_usec = 0\<rparr>" by (simp add: m tv_key_def)
  have r1: "\<And>h d u el s. ec_tmo ?cb h d u (el, s) = Some (el, s @ [(h, d, u)])"
    and r2: "\<And>ev. ev \<in> set (replicate 3 ?ev) \<Longrightarrow> ee_sigs ev = [] \<and> (\<forall>n fds tv. ee_select ev n fds tv \<noteq> SelErr False)" by simp_all
  have l: "length T = 3" using arg_cong [OF t, of length] by simp
  obtain k b el' where k: "eloop_run ?cb (replicate 3 ?ev) (fold el_register example_timers (eloop_init 0), []) = Some (b, el', map el_call (take k T))"
      "(\<forall>ev \<in> set (replicate 3 ?ev). \<forall>t \<in> set T. el_key t \<le> tv_key (ee_now2 ev)) \<longrightarrow> k = min (length (replicate 3 ?ev)) (length T)"
    using timeouts_in_order [of ?cb "replicate 3 ?ev", OF r1 r2 T_def, of 0] by blast
  have "k = 3" using k(2) d l by simp
  then have "map el_call (take k T) = [(CHR ''b'', 0, 2), (CHR ''c'', 0, 3), (CHR ''a'', 0, 1)]" using t l by simp
  then show ?thesis using k(1) by metis
qed

end
