(* ===== verification/Ppp_Fsm.thy ===== *)
theory Ppp_Fsm
  imports Ppp_Eloop
begin

text \<open>
  The option negotiation automaton of the PPP daemon, \<^verbatim>\<open>src/progs.gpl/pppd.alpha/fsm.c\<close>, which LCP, IPCP and CCP share.

  \<^item> A protocol gives the automaton a table of functions (\<open>fsm_callbacks\<close>, \<open>None\<close> where the code has a null pointer). They
    act on the whole state \<open>ppp\<close>: the automaton itself, the event loop with its timeouts, the entry of
    \<^verbatim>\<open>peer_mru\<close> for the unit, what was sent or called, and the rest of the program, of a type \<open>'v\<close>.
  \<^item> What leaves the automaton is recorded in \<open>pw_out\<close>: frames handed to \<^verbatim>\<open>output\<close>, and the calls that inform the other layers.
  \<^item> The clock and the memory allocator answer by the number of the call.
  \<^item> \<open>None\<close> is a write outside \<^verbatim>\<open>outpacket_buf\<close>.
\<close>

datatype fsm_state = INITIAL | STARTING | CLOSED | STOPPED | CLOSING | STOPPING | REQSENT | ACKRCVD | ACKSENT | OPENED

definition OPT_PASSIVE :: u32 where "OPT_PASSIVE = 1"
definition OPT_RESTART :: u32 where "OPT_RESTART = 2"
definition OPT_SILENT :: u32 where "OPT_SILENT = 4"

definition CONFREQ :: u8 where "CONFREQ = 1"
definition CONFACK :: u8 where "CONFACK = 2"
definition CONFNAK :: u8 where "CONFNAK = 3"
definition CONFREJ :: u8 where "CONFREJ = 4"
definition TERMREQ :: u8 where "TERMREQ = 5"
definition TERMACK :: u8 where "TERMACK = 6"
definition CODEREJ :: u8 where "CODEREJ = 7"

lemmas fsm_codes = CONFREQ_def CONFACK_def CONFNAK_def CONFREJ_def TERMREQ_def TERMACK_def CODEREJ_def

definition HEADERLEN :: nat where "HEADERLEN = 4"
definition PPP_HDRLEN :: nat where "PPP_HDRLEN = 4"
definition PPP_MRU :: nat where "PPP_MRU = 1500"
definition outpacket_size :: nat where "outpacket_size = PPP_MRU + PPP_HDRLEN"

record fsm =
  f_protocol :: u16
  f_state :: fsm_state
  f_flags :: u32
  f_id :: u8
  f_reqid :: u8
  f_seen_ack :: bool
  f_timeouttime :: int
  f_maxconfreqtransmits :: int
  f_retransmits :: int
  f_maxtermtransmits :: int
  f_nakloops :: int
  f_maxnakloops :: int
  f_term_reason :: "u8 list"

datatype fsm_out = FoSend "u8 list" | FoUp | FoDown | FoStarting | FoFinished

record ('h, 'v) ppp =
  pw_fsm :: fsm
  pw_el :: "'h eloop"
  pw_tick :: nat
  pw_mru :: int
  pw_out :: "fsm_out list"
  pw_v :: 'v

record ('h, 'v) fsm_callbacks =
  cb_resetci :: "(('h, 'v) ppp \<Rightarrow> ('h, 'v) ppp) option"
  cb_cilen :: "(('h, 'v) ppp \<Rightarrow> int \<times> ('h, 'v) ppp) option"
  cb_addci :: "(int \<Rightarrow> ('h, 'v) ppp \<Rightarrow> u8 list \<times> ('h, 'v) ppp) option"
  cb_ackci :: "(u8 list \<Rightarrow> ('h, 'v) ppp \<Rightarrow> int \<times> ('h, 'v) ppp) option"
  cb_nakci :: "(u8 list \<Rightarrow> ('h, 'v) ppp \<Rightarrow> int \<times> ('h, 'v) ppp) option"
  cb_rejci :: "(u8 list \<Rightarrow> ('h, 'v) ppp \<Rightarrow> int \<times> ('h, 'v) ppp) option"
  cb_reqci :: "(u8 list \<Rightarrow> bool \<Rightarrow> ('h, 'v) ppp \<Rightarrow> u8 \<times> u8 list \<times> ('h, 'v) ppp) option"
  cb_up :: "(('h, 'v) ppp \<Rightarrow> ('h, 'v) ppp) option"
  cb_down :: "(('h, 'v) ppp \<Rightarrow> ('h, 'v) ppp) option"
  cb_starting :: "(('h, 'v) ppp \<Rightarrow> ('h, 'v) ppp) option"
  cb_finished :: "(('h, 'v) ppp \<Rightarrow> ('h, 'v) ppp) option"
  cb_retransmit :: "(('h, 'v) ppp \<Rightarrow> ('h, 'v) ppp) option"
  cb_extcode :: "(u8 \<Rightarrow> u8 \<Rightarrow> u8 list \<Rightarrow> ('h, 'v) ppp \<Rightarrow> bool \<times> ('h, 'v) ppp) option"

text \<open>The surroundings of one automaton: its callbacks, the function pointer \<^verbatim>\<open>fsm_timeout\<close>, its own address, and the answers of the clock
  and of the allocator.\<close>

record ('h, 'v) fsm_env =
  fe_cb :: "('h, 'v) fsm_callbacks"
  fe_handler :: 'h
  fe_self :: u32
  fe_clock :: "nat \<Rightarrow> timeval"
  fe_mem :: "nat \<Rightarrow> bool"

definition TIMEOUT :: "('h, 'v) fsm_env \<Rightarrow> ('h, 'v) ppp \<Rightarrow> ('h, 'v) ppp" where
  "TIMEOUT e w = w\<lparr>pw_el := snd (eloop_register_timeout (fe_mem e (pw_tick w)) (fe_clock e (pw_tick w))
       (word_of_int (f_timeouttime (pw_fsm w))) 0 (fe_handler e) 0 (fe_self e) (pw_el w)),
     pw_tick := pw_tick w + 1\<rparr>"

definition UNTIMEOUT :: "('h, 'v) fsm_env \<Rightarrow> ('h, 'v) ppp \<Rightarrow> ('h, 'v) ppp" where
  "UNTIMEOUT e w = w\<lparr>pw_el := snd (eloop_cancel_timeout (fe_handler e) 0 (fe_self e) (pw_el w))\<rparr>"

definition fsm_call :: "fsm_out \<Rightarrow> (('h, 'v) ppp \<Rightarrow> ('h, 'v) ppp) option \<Rightarrow> ('h, 'v) ppp \<Rightarrow> ('h, 'v) ppp" where
  "fsm_call ev cb w = (case cb of None \<Rightarrow> w | Some f \<Rightarrow> f (w\<lparr>pw_out := pw_out w @ [ev]\<rparr>))"

definition run_cb :: "(('h, 'v) ppp \<Rightarrow> ('h, 'v) ppp) option \<Rightarrow> ('h, 'v) ppp \<Rightarrow> ('h, 'v) ppp" where
  "run_cb cb w = (case cb of None \<Rightarrow> w | Some g \<Rightarrow> g w)"

definition set_fsm :: "(fsm \<Rightarrow> fsm) \<Rightarrow> ('h, 'v) ppp \<Rightarrow> ('h, 'v) ppp" where
  "set_fsm g w = w\<lparr>pw_fsm := g (pw_fsm w)\<rparr>"

definition goto :: "fsm_state \<Rightarrow> ('h, 'v) ppp \<Rightarrow> ('h, 'v) ppp" where
  "goto s = set_fsm (\<lambda>f. f\<lparr>f_state := s\<rparr>)"

abbreviation pw_state :: "('h, 'v) ppp \<Rightarrow> fsm_state" where
  "pw_state w \<equiv> f_state (pw_fsm w)"

definition fsm_init :: "('h, 'v) ppp \<Rightarrow> ('h, 'v) ppp" where
  "fsm_init = set_fsm (\<lambda>f. f\<lparr>f_state := INITIAL, f_flags := 0, f_id := 0, f_timeouttime := 3, f_maxconfreqtransmits := 10,
     f_maxtermtransmits := 2, f_maxnakloops := 5, f_term_reason := []\<rparr>)"

section \<open>Sending\<close>

definition fsm_frame :: "u16 \<Rightarrow> u8 \<Rightarrow> u8 \<Rightarrow> u8 list \<Rightarrow> u8 list" where
  "fsm_frame protocol code i data = [0xff, 0x03] @ be16 protocol @ [code, i] @ be16 (word_of_nat (length data + HEADERLEN)) @ data"

definition fsm_sdata :: "u8 \<Rightarrow> u8 \<Rightarrow> u8 list \<Rightarrow> ('h, 'v) ppp \<Rightarrow> ('h, 'v) ppp option" where
  "fsm_sdata code i data w =
     (let datalen = min (int (length data)) (pw_mru w - int HEADERLEN) in
      if datalen < 0 \<or> int outpacket_size < int (PPP_HDRLEN + HEADERLEN) + datalen then None
      else Some (w\<lparr>pw_out := pw_out w @ [FoSend (fsm_frame (f_protocol (pw_fsm w)) code i (take (nat datalen) data))]\<rparr>))"

text \<open>The options of our request.\<close>

definition fsm_ci :: "('h, 'v) fsm_callbacks \<Rightarrow> ('h, 'v) ppp \<Rightarrow> u8 list \<times> ('h, 'v) ppp" where
  "fsm_ci cb w = (case (cb_cilen cb, cb_addci cb) of
     (Some cilen, Some addci) \<Rightarrow> (let (n, w) = cilen w in addci (min n (pw_mru w - int HEADERLEN)) w)
   | _ \<Rightarrow> ([], w))"

definition fsm_sconfreq :: "('h, 'v) fsm_env \<Rightarrow> bool \<Rightarrow> ('h, 'v) ppp \<Rightarrow> ('h, 'v) ppp option" where
  "fsm_sconfreq e retransmit w = do {
     let cb = fe_cb e;
     let w = (if pw_state w \<notin> {REQSENT, ACKRCVD, ACKSENT}
       then set_fsm (\<lambda>f. f\<lparr>f_nakloops := 0\<rparr>) (run_cb (cb_resetci cb) w) else w);
     let w = (if \<not> retransmit
       then set_fsm (\<lambda>f. f\<lparr>f_retransmits := f_maxconfreqtransmits f, f_id := f_id f + 1, f_reqid := f_id f + 1\<rparr>) w else w);
     let w = set_fsm (\<lambda>f. f\<lparr>f_seen_ack := False\<rparr>) w;
     let (data, w) = fsm_ci cb w;
     w \<leftarrow> (if outpacket_size < PPP_HDRLEN + HEADERLEN + length data then None
       else fsm_sdata CONFREQ (f_reqid (pw_fsm w)) data w);
     Some (TIMEOUT e (set_fsm (\<lambda>f. f\<lparr>f_retransmits := f_retransmits f - 1\<rparr>) w)) }"

text \<open>The step that three functions share: send a terminate request under a new identifier and start the timer.\<close>

definition fsm_stermreq :: "('h, 'v) fsm_env \<Rightarrow> ('h, 'v) ppp \<Rightarrow> ('h, 'v) ppp option" where
  "fsm_stermreq e w = do {
     let w = set_fsm (\<lambda>f. f\<lparr>f_id := f_id f + 1, f_reqid := f_id f + 1\<rparr>) w;
     w \<leftarrow> fsm_sdata TERMREQ (f_reqid (pw_fsm w)) (f_term_reason (pw_fsm w)) w;
     Some (set_fsm (\<lambda>f. f\<lparr>f_retransmits := f_retransmits f - 1\<rparr>) (TIMEOUT e w)) }"

section \<open>Events of the layers and of the administrator\<close>

definition fsm_lowerup :: "('h, 'v) fsm_env \<Rightarrow> ('h, 'v) ppp \<Rightarrow> ('h, 'v) ppp option" where
  "fsm_lowerup e w = (case pw_state w of
     INITIAL \<Rightarrow> Some (goto CLOSED w)
   | STARTING \<Rightarrow>
       if f_flags (pw_fsm w) AND OPT_SILENT \<noteq> 0 then Some (goto STOPPED w)
       else do { w \<leftarrow> fsm_sconfreq e False w; Some (goto REQSENT w) }
   | _ \<Rightarrow> Some w)"

definition fsm_lowerdown :: "('h, 'v) fsm_env \<Rightarrow> ('h, 'v) ppp \<Rightarrow> ('h, 'v) ppp" where
  "fsm_lowerdown e w = (case pw_state w of
     CLOSED \<Rightarrow> goto INITIAL w
   | STOPPED \<Rightarrow> fsm_call FoStarting (cb_starting (fe_cb e)) (goto STARTING w)
   | CLOSING \<Rightarrow> UNTIMEOUT e (goto INITIAL w)
   | STOPPING \<Rightarrow> UNTIMEOUT e (goto STARTING w)
   | REQSENT \<Rightarrow> UNTIMEOUT e (goto STARTING w)
   | ACKRCVD \<Rightarrow> UNTIMEOUT e (goto STARTING w)
   | ACKSENT \<Rightarrow> UNTIMEOUT e (goto STARTING w)
   | OPENED \<Rightarrow> goto STARTING (fsm_call FoDown (cb_down (fe_cb e)) w)
   | _ \<Rightarrow> w)"

definition fsm_restart :: "('h, 'v) fsm_env \<Rightarrow> ('h, 'v) ppp \<Rightarrow> ('h, 'v) ppp option" where
  "fsm_restart e w = (if f_flags (pw_fsm w) AND OPT_RESTART \<noteq> 0 then fsm_lowerup e (fsm_lowerdown e w) else Some w)"

definition fsm_open :: "('h, 'v) fsm_env \<Rightarrow> ('h, 'v) ppp \<Rightarrow> ('h, 'v) ppp option" where
  "fsm_open e w = (case pw_state w of
     INITIAL \<Rightarrow> Some (fsm_call FoStarting (cb_starting (fe_cb e)) (goto STARTING w))
   | CLOSED \<Rightarrow>
       if f_flags (pw_fsm w) AND OPT_SILENT \<noteq> 0 then Some (goto STOPPED w)
       else do { w \<leftarrow> fsm_sconfreq e False w; Some (goto REQSENT w) }
   | CLOSING \<Rightarrow> fsm_restart e (goto STOPPING w)
   | STOPPED \<Rightarrow> fsm_restart e w
   | OPENED \<Rightarrow> fsm_restart e w
   | _ \<Rightarrow> Some w)"

definition fsm_close :: "('h, 'v) fsm_env \<Rightarrow> u8 list \<Rightarrow> ('h, 'v) ppp \<Rightarrow> ('h, 'v) ppp option" where
  "fsm_close e reason w = do {
     let w = set_fsm (\<lambda>f. f\<lparr>f_term_reason := reason\<rparr>) w;
     case pw_state w of
       STARTING \<Rightarrow> Some (goto INITIAL w)
     | STOPPED \<Rightarrow> Some (goto CLOSED w)
     | STOPPING \<Rightarrow> Some (goto CLOSING w)
     | INITIAL \<Rightarrow> Some w
     | CLOSED \<Rightarrow> Some w
     | CLOSING \<Rightarrow> Some w
     | _ \<Rightarrow> do {
         let w = (if pw_state w \<noteq> OPENED then UNTIMEOUT e w else fsm_call FoDown (cb_down (fe_cb e)) w);
         w \<leftarrow> fsm_stermreq e (set_fsm (\<lambda>f. f\<lparr>f_retransmits := f_maxtermtransmits f\<rparr>) w);
         Some (goto CLOSING w) } }"

text \<open>The timer.\<close>

definition fsm_timeout :: "('h, 'v) fsm_env \<Rightarrow> ('h, 'v) ppp \<Rightarrow> ('h, 'v) ppp option" where
  "fsm_timeout e w =
     (if pw_state w \<in> {CLOSING, STOPPING} then
        if f_retransmits (pw_fsm w) \<le> 0
        then Some (fsm_call FoFinished (cb_finished (fe_cb e)) (goto (if pw_state w = CLOSING then CLOSED else STOPPED) w))
        else fsm_stermreq e w
      else if pw_state w \<in> {REQSENT, ACKRCVD, ACKSENT} then
        if f_retransmits (pw_fsm w) \<le> 0
        then
          let w = goto STOPPED w in
          Some (if f_flags (pw_fsm w) AND OPT_PASSIVE = 0 then fsm_call FoFinished (cb_finished (fe_cb e)) w else w)
        else do {
          w \<leftarrow> fsm_sconfreq e True (run_cb (cb_retransmit (fe_cb e)) w);
          Some (if pw_state w = ACKRCVD then goto REQSENT w else w) }
      else Some w)"

section \<open>Packets\<close>

text \<open>What a configure request does to the automaton before its options are checked, and the check.\<close>

definition fsm_renegotiate :: "('h, 'v) fsm_env \<Rightarrow> ('h, 'v) ppp \<Rightarrow> ('h, 'v) ppp option" where
  "fsm_renegotiate e w =
     (if pw_state w = OPENED then fsm_sconfreq e False (fsm_call FoDown (cb_down (fe_cb e)) w)
      else if pw_state w = STOPPED then do { w \<leftarrow> fsm_sconfreq e False w; Some (goto REQSENT w) }
      else Some w)"

definition fsm_reqci :: "('h, 'v) fsm_callbacks \<Rightarrow> u8 list \<Rightarrow> ('h, 'v) ppp \<Rightarrow> u8 \<times> u8 list \<times> ('h, 'v) ppp" where
  "fsm_reqci cb inp w = (case cb_reqci cb of
     Some reqci \<Rightarrow> reqci inp (f_maxnakloops (pw_fsm w) \<le> f_nakloops (pw_fsm w)) w
   | None \<Rightarrow> (if inp \<noteq> [] then CONFREJ else CONFACK, inp, w))"

definition fsm_rconfreq :: "('h, 'v) fsm_env \<Rightarrow> u8 \<Rightarrow> u8 list \<Rightarrow> ('h, 'v) ppp \<Rightarrow> ('h, 'v) ppp option" where
  "fsm_rconfreq e i inp w =
     (if pw_state w = CLOSED then fsm_sdata TERMACK i [] w
      else if pw_state w \<in> {CLOSING, STOPPING} then Some w
      else do {
        w \<leftarrow> fsm_renegotiate e w;
        let (code, out, w) = fsm_reqci (fe_cb e) inp w;
        w \<leftarrow> fsm_sdata code i out w;
        if code = CONFACK then
          let w = (if pw_state w = ACKRCVD then fsm_call FoUp (cb_up (fe_cb e)) (goto OPENED (UNTIMEOUT e w)) else goto ACKSENT w) in
          Some (set_fsm (\<lambda>f. f\<lparr>f_nakloops := 0\<rparr>) w)
        else
          let w = (if pw_state w \<noteq> ACKRCVD then goto REQSENT w else w) in
          Some (if code = CONFNAK then set_fsm (\<lambda>f. f\<lparr>f_nakloops := f_nakloops f + 1\<rparr>) w else w) })"

definition fsm_ackci :: "('h, 'v) fsm_callbacks \<Rightarrow> u8 list \<Rightarrow> ('h, 'v) ppp \<Rightarrow> int \<times> ('h, 'v) ppp" where
  "fsm_ackci cb inp w = (case cb_ackci cb of Some ackci \<Rightarrow> ackci inp w | None \<Rightarrow> (if inp = [] then 1 else 0, w))"

definition fsm_rconfack :: "('h, 'v) fsm_env \<Rightarrow> u8 \<Rightarrow> u8 list \<Rightarrow> ('h, 'v) ppp \<Rightarrow> ('h, 'v) ppp option" where
  "fsm_rconfack e i inp w =
     (if i \<noteq> f_reqid (pw_fsm w) \<or> f_seen_ack (pw_fsm w) then Some w
      else
        let (good, w) = fsm_ackci (fe_cb e) inp w in
        if good = 0 then Some w
        else
          let w = set_fsm (\<lambda>f. f\<lparr>f_seen_ack := True\<rparr>) w in
          case pw_state w of
            CLOSED \<Rightarrow> fsm_sdata TERMACK i [] w
          | STOPPED \<Rightarrow> fsm_sdata TERMACK i [] w
          | REQSENT \<Rightarrow> Some (set_fsm (\<lambda>f. f\<lparr>f_state := ACKRCVD, f_retransmits := f_maxconfreqtransmits f\<rparr>) w)
          | ACKRCVD \<Rightarrow> do { w \<leftarrow> fsm_sconfreq e False (UNTIMEOUT e w); Some (goto REQSENT w) }
          | ACKSENT \<Rightarrow> Some (fsm_call FoUp (cb_up (fe_cb e))
              (set_fsm (\<lambda>f. f\<lparr>f_state := OPENED, f_retransmits := f_maxconfreqtransmits f\<rparr>) (UNTIMEOUT e w)))
          | OPENED \<Rightarrow> do { w \<leftarrow> fsm_sconfreq e False (fsm_call FoDown (cb_down (fe_cb e)) w); Some (goto REQSENT w) }
          | _ \<Rightarrow> Some w)"

text \<open>A missing function counts as a bad answer.\<close>

definition fsm_nakci :: "('h, 'v) fsm_callbacks \<Rightarrow> u8 \<Rightarrow> u8 list \<Rightarrow> ('h, 'v) ppp \<Rightarrow> int \<times> ('h, 'v) ppp" where
  "fsm_nakci cb code inp w = (case (if code = CONFNAK then cb_nakci cb else cb_rejci cb) of
     None \<Rightarrow> (0, w) | Some proc \<Rightarrow> proc inp w)"

definition fsm_rconfnakrej :: "('h, 'v) fsm_env \<Rightarrow> u8 \<Rightarrow> u8 \<Rightarrow> u8 list \<Rightarrow> ('h, 'v) ppp \<Rightarrow> ('h, 'v) ppp option" where
  "fsm_rconfnakrej e code i inp w =
     (if i \<noteq> f_reqid (pw_fsm w) \<or> f_seen_ack (pw_fsm w) then Some w
      else
        let (ret, w) = fsm_nakci (fe_cb e) code inp w in
        if ret = 0 then Some w
        else
          let w = set_fsm (\<lambda>f. f\<lparr>f_seen_ack := True\<rparr>) w in
          if pw_state w \<in> {CLOSED, STOPPED} then fsm_sdata TERMACK i [] w
          else if pw_state w \<in> {REQSENT, ACKSENT} then
            let w = UNTIMEOUT e w in if ret < 0 then Some (goto STOPPED w) else fsm_sconfreq e False w
          else if pw_state w = ACKRCVD then do { w \<leftarrow> fsm_sconfreq e False (UNTIMEOUT e w); Some (goto REQSENT w) }
          else if pw_state w = OPENED then do { w \<leftarrow> fsm_sconfreq e False (fsm_call FoDown (cb_down (fe_cb e)) w); Some (goto REQSENT w) }
          else Some w)"

definition fsm_rtermreq :: "('h, 'v) fsm_env \<Rightarrow> u8 \<Rightarrow> ('h, 'v) ppp \<Rightarrow> ('h, 'v) ppp option" where
  "fsm_rtermreq e i w =
     (let w = (if pw_state w \<in> {ACKRCVD, ACKSENT} then goto REQSENT w
        else if pw_state w = OPENED
        then TIMEOUT e (fsm_call FoDown (cb_down (fe_cb e)) (set_fsm (\<lambda>f. f\<lparr>f_retransmits := 0, f_state := STOPPING\<rparr>) w))
        else w)
      in fsm_sdata TERMACK i [] w)"

definition fsm_rtermack :: "('h, 'v) fsm_env \<Rightarrow> ('h, 'v) ppp \<Rightarrow> ('h, 'v) ppp option" where
  "fsm_rtermack e w = (case pw_state w of
     CLOSING \<Rightarrow> Some (fsm_call FoFinished (cb_finished (fe_cb e)) (goto CLOSED (UNTIMEOUT e w)))
   | STOPPING \<Rightarrow> Some (fsm_call FoFinished (cb_finished (fe_cb e)) (goto STOPPED (UNTIMEOUT e w)))
   | ACKRCVD \<Rightarrow> Some (goto REQSENT w)
   | OPENED \<Rightarrow> fsm_sconfreq e False (fsm_call FoDown (cb_down (fe_cb e)) w)
   | _ \<Rightarrow> Some w)"

definition fsm_rcoderej :: "u8 list \<Rightarrow> ('h, 'v) ppp \<Rightarrow> ('h, 'v) ppp" where
  "fsm_rcoderej inp w = (if length inp < HEADERLEN then w else if pw_state w = ACKRCVD then goto REQSENT w else w)"

definition fsm_protreject :: "('h, 'v) fsm_env \<Rightarrow> ('h, 'v) ppp \<Rightarrow> ('h, 'v) ppp option" where
  "fsm_protreject e w =
     (if pw_state w \<in> {CLOSING, CLOSED} then
        Some (fsm_call FoFinished (cb_finished (fe_cb e)) (goto CLOSED (if pw_state w = CLOSING then UNTIMEOUT e w else w)))
      else if pw_state w \<in> {STOPPING, REQSENT, ACKRCVD, ACKSENT, STOPPED} then
        Some (fsm_call FoFinished (cb_finished (fe_cb e)) (goto STOPPED (if pw_state w \<noteq> STOPPED then UNTIMEOUT e w else w)))
      else if pw_state w = OPENED then do {
        w \<leftarrow> fsm_stermreq e (set_fsm (\<lambda>f. f\<lparr>f_retransmits := f_maxtermtransmits f\<rparr>) (fsm_call FoDown (cb_down (fe_cb e)) w));
        Some (goto STOPPING w) }
      else Some w)"

definition fsm_extcode :: "('h, 'v) fsm_callbacks \<Rightarrow> u8 \<Rightarrow> u8 \<Rightarrow> u8 list \<Rightarrow> ('h, 'v) ppp \<Rightarrow> bool \<times> ('h, 'v) ppp" where
  "fsm_extcode cb code i inp w = (case cb_extcode cb of None \<Rightarrow> (False, w) | Some extcode \<Rightarrow> extcode code i inp w)"

definition fsm_dispatch :: "('h, 'v) fsm_env \<Rightarrow> u8 \<Rightarrow> u8 \<Rightarrow> u8 list \<Rightarrow> u8 list \<Rightarrow> ('h, 'v) ppp \<Rightarrow> ('h, 'v) ppp option" where
  "fsm_dispatch e code i inp packet w =
     (if code = CONFREQ then fsm_rconfreq e i inp w
      else if code = CONFACK then fsm_rconfack e i inp w
      else if code = CONFNAK \<or> code = CONFREJ then fsm_rconfnakrej e code i inp w
      else if code = TERMREQ then fsm_rtermreq e i w
      else if code = TERMACK then fsm_rtermack e w
      else if code = CODEREJ then Some (fsm_rcoderej inp w)
      else
        let (known, w) = fsm_extcode (fe_cb e) code i inp w in
        if known then Some w
        else do {
          let w = set_fsm (\<lambda>f. f\<lparr>f_id := f_id f + 1\<rparr>) w;
          fsm_sdata CODEREJ (f_id (pw_fsm w)) packet w })"

definition fsm_input :: "('h, 'v) fsm_env \<Rightarrow> u8 list \<Rightarrow> ('h, 'v) ppp \<Rightarrow> ('h, 'v) ppp option" where
  "fsm_input e inpacket w =
     (if length inpacket < HEADERLEN then Some w
      else
        let code = inpacket ! 0; i = inpacket ! 1; len = unat (un_be16 [inpacket ! 2, inpacket ! 3]) in
        if len < HEADERLEN then Some w
        else if length inpacket < len then Some w
        else if pw_state w \<in> {INITIAL, STARTING} then Some w
        else fsm_dispatch e code i (drop HEADERLEN (take len inpacket)) (take len inpacket) w)"

section \<open>What the automaton relies on\<close>

text \<open>A callback neither re-enters the automaton nor touches its timer, and leaves the MRU of the peer in the range of the buffer. The
  functions that make up options keep to the length they are given, and the check of a request answers with one of three codes.\<close>

abbreviation fsm_kind :: "('h, 'v) fsm_env \<Rightarrow> 'h el_kind" where
  "fsm_kind e \<equiv> (fe_handler e, fe_self e)"

definition pend :: "('h, 'v) fsm_env \<Rightarrow> ('h, 'v) ppp \<Rightarrow> nat" where
  "pend e w = el_pending (pw_el w) (fsm_kind e)"

definition mru_ok :: "('h, 'v) ppp \<Rightarrow> bool" where
  "mru_ok w \<longleftrightarrow> int HEADERLEN \<le> pw_mru w \<and> pw_mru w \<le> int PPP_MRU"

definition fsm_inert :: "('h, 'v) fsm_env \<Rightarrow> (('h, 'v) ppp \<Rightarrow> ('h, 'v) ppp) \<Rightarrow> bool" where
  "fsm_inert e g \<longleftrightarrow> (\<forall>w. pw_fsm (g w) = pw_fsm w \<and> pw_out (g w) = pw_out w \<and> pend e (g w) = pend e w \<and> (mru_ok w \<longrightarrow> mru_ok (g w)))"

definition cb_inert :: "('h, 'v) fsm_env \<Rightarrow> (('h, 'v) ppp \<Rightarrow> ('h, 'v) ppp) option \<Rightarrow> bool" where
  "cb_inert e cb \<longleftrightarrow> (\<forall>g. cb = Some g \<longrightarrow> fsm_inert e g)"

definition env_ok :: "('h, 'v) fsm_env \<Rightarrow> bool" where
  "env_ok e \<longleftrightarrow> fe_self e \<noteq> ELOOP_ALL_CTX \<and> (\<forall>n. fe_mem e n)
     \<and> cb_inert e (cb_resetci (fe_cb e)) \<and> cb_inert e (cb_up (fe_cb e)) \<and> cb_inert e (cb_down (fe_cb e))
     \<and> cb_inert e (cb_starting (fe_cb e)) \<and> cb_inert e (cb_finished (fe_cb e)) \<and> cb_inert e (cb_retransmit (fe_cb e))
     \<and> (\<forall>g. cb_cilen (fe_cb e) = Some g \<longrightarrow> fsm_inert e (\<lambda>w. snd (g w)))
     \<and> (\<forall>g n. cb_addci (fe_cb e) = Some g \<longrightarrow> fsm_inert e (\<lambda>w. snd (g n w)) \<and> (\<forall>w. int (length (fst (g n w))) \<le> max 0 n))
     \<and> (\<forall>g d. cb_ackci (fe_cb e) = Some g \<longrightarrow> fsm_inert e (\<lambda>w. snd (g d w)))
     \<and> (\<forall>g d. cb_nakci (fe_cb e) = Some g \<longrightarrow> fsm_inert e (\<lambda>w. snd (g d w)))
     \<and> (\<forall>g d. cb_rejci (fe_cb e) = Some g \<longrightarrow> fsm_inert e (\<lambda>w. snd (g d w)))
     \<and> (\<forall>g d r. cb_reqci (fe_cb e) = Some g \<longrightarrow> fsm_inert e (\<lambda>w. snd (snd (g d r w))) \<and> (\<forall>w. fst (g d r w) \<in> {CONFACK, CONFNAK, CONFREJ}))
     \<and> (\<forall>g c i d. cb_extcode (fe_cb e) = Some g \<longrightarrow> fsm_inert e (\<lambda>w. snd (g c i d w)))"

lemma env_okD:
  assumes "env_ok e"
  shows "fe_self e \<noteq> ELOOP_ALL_CTX" "fe_mem e n" "cb_inert e (cb_resetci (fe_cb e))" "cb_inert e (cb_up (fe_cb e))" "cb_inert e (cb_down (fe_cb e))"
    "cb_inert e (cb_starting (fe_cb e))" "cb_inert e (cb_finished (fe_cb e))" "cb_inert e (cb_retransmit (fe_cb e))"
  using assms unfolding env_ok_def by blast+

lemma fsm_inertD:
  assumes "fsm_inert e g"
  shows "pw_fsm (g w) = pw_fsm w" "pw_out (g w) = pw_out w" "pend e (g w) = pend e w" "mru_ok w \<Longrightarrow> mru_ok (g w)"
  using assms unfolding fsm_inert_def by blast+

section \<open>Actions\<close>

datatype rfc_action = Tlu | Tld | Tls | Tlf | Irc | Zrc | Scr | Sca | Scn | Str | Sta | Scj

fun fsm_act :: "fsm_out \<Rightarrow> rfc_action" where
  "fsm_act FoUp = Tlu"
| "fsm_act FoDown = Tld"
| "fsm_act FoStarting = Tls"
| "fsm_act FoFinished = Tlf"
| "fsm_act (FoSend b) = (if b ! 4 = CONFREQ then Scr else if b ! 4 = CONFACK then Sca else if b ! 4 = TERMREQ then Str
     else if b ! 4 = TERMACK then Sta else if b ! 4 = CODEREJ then Scj else Scn)"

definition acts :: "('h, 'v) ppp \<Rightarrow> rfc_action list" where
  "acts w = map fsm_act (pw_out w)"

lemma frame_code: "fsm_frame p c i d ! 4 = c"
  by (simp add: fsm_frame_def be16_def)

named_theorems fsm_simps \<open>what each step does to the automaton, its actions and its timer\<close>

lemma set_fsm_simps [fsm_simps]:
  "pw_fsm (set_fsm g w) = g (pw_fsm w)" "acts (set_fsm g w) = acts w" "pend e (set_fsm g w) = pend e w" "mru_ok (set_fsm g w) = mru_ok w"
  by (simp_all add: set_fsm_def acts_def pend_def mru_ok_def)

lemma goto_simps [fsm_simps]:
  "pw_fsm (goto s w) = (pw_fsm w)\<lparr>f_state := s\<rparr>" "acts (goto s w) = acts w" "pend e (goto s w) = pend e w" "mru_ok (goto s w) = mru_ok w"
  by (simp_all add: goto_def fsm_simps)

lemma timeout_simps [fsm_simps]:
  "pw_fsm (TIMEOUT e w) = pw_fsm w" "acts (TIMEOUT e w) = acts w" "mru_ok (TIMEOUT e w) = mru_ok w"
  "env_ok e \<Longrightarrow> pend e (TIMEOUT e w) = Suc (pend e w)"
  by (simp_all add: TIMEOUT_def acts_def mru_ok_def pend_def)
    (use el.pending_set [of "fe_clock e (pw_tick w)" "word_of_int (f_timeouttime (pw_fsm w))" 0 "fsm_kind e" "pw_el w" "fsm_kind e"]
      in \<open>simp add: el_set_def env_okD\<close>)

lemma untimeout_simps [fsm_simps]:
  "pw_fsm (UNTIMEOUT e w) = pw_fsm w" "acts (UNTIMEOUT e w) = acts w" "mru_ok (UNTIMEOUT e w) = mru_ok w"
  "env_ok e \<Longrightarrow> pend e (UNTIMEOUT e w) = 0"
  by (simp_all add: UNTIMEOUT_def acts_def mru_ok_def pend_def)
    (use el.pending_cancel [of "fsm_kind e" "pw_el w" "fsm_kind e"] in \<open>simp add: el_cancel_def el_kind_def env_okD\<close>)

lemma call_inert:
  assumes "cb_inert e cb"
  shows "pw_fsm (fsm_call ev cb w) = pw_fsm w" "acts (fsm_call ev cb w) = acts w @ (if cb = None then [] else [fsm_act ev])"
    "pend e (fsm_call ev cb w) = pend e w" "mru_ok w \<Longrightarrow> mru_ok (fsm_call ev cb w)"
    "pw_fsm (run_cb cb w) = pw_fsm w" "acts (run_cb cb w) = acts w" "pend e (run_cb cb w) = pend e w" "mru_ok w \<Longrightarrow> mru_ok (run_cb cb w)"
  using assms fsm_inertD [of e "the cb" w] fsm_inertD [of e "the cb" "w\<lparr>pw_out := pw_out w @ [ev]\<rparr>"]
  by (cases cb; simp add: cb_inert_def fsm_call_def run_cb_def acts_def; simp add: pend_def mru_ok_def)+

lemmas call_simps [fsm_simps] =
  call_inert [OF env_okD(3)] call_inert [OF env_okD(4)] call_inert [OF env_okD(5)] call_inert [OF env_okD(6)]
  call_inert [OF env_okD(7)] call_inert [OF env_okD(8)]

section \<open>The steps that send\<close>

definition sent :: "u8 \<Rightarrow> u8 \<Rightarrow> u8 list \<Rightarrow> ('h, 'v) ppp \<Rightarrow> ('h, 'v) ppp" where
  "sent code i d w = w\<lparr>pw_out := pw_out w @ [FoSend (fsm_frame (f_protocol (pw_fsm w)) code i (take (nat (pw_mru w) - HEADERLEN) d))]\<rparr>"

lemma sdata_sent [fsm_simps]: "mru_ok w \<Longrightarrow> fsm_sdata code i d w = Some (sent code i d w)"
  by (auto simp: fsm_sdata_def sent_def mru_ok_def Let_def HEADERLEN_def PPP_HDRLEN_def PPP_MRU_def outpacket_size_def min_def nat_diff_distrib)

lemma sent_simps [fsm_simps]:
  "pw_fsm (sent code i d w) = pw_fsm w" "pend e (sent code i d w) = pend e w" "mru_ok (sent code i d w) = mru_ok w"
  "acts (sent code i d w) = acts w @ [if code = CONFREQ then Scr else if code = CONFACK then Sca else if code = TERMREQ then Str
     else if code = TERMACK then Sta else if code = CODEREJ then Scj else Scn]"
  by (simp_all add: sent_def pend_def mru_ok_def acts_def frame_code)

lemma ci_inert:
  assumes "env_ok e"
  shows "pw_fsm (snd (fsm_ci (fe_cb e) w)) = pw_fsm w" "acts (snd (fsm_ci (fe_cb e) w)) = acts w" "pend e (snd (fsm_ci (fe_cb e) w)) = pend e w"
    "mru_ok w \<Longrightarrow> mru_ok (snd (fsm_ci (fe_cb e) w))" "mru_ok w \<Longrightarrow> length (fst (fsm_ci (fe_cb e) w)) \<le> PPP_MRU - HEADERLEN"
    "pw_out (snd (fsm_ci (fe_cb e) w)) = pw_out w"
proof -
  have *: "pw_fsm (snd (fsm_ci (fe_cb e) w)) = pw_fsm w \<and> pw_out (snd (fsm_ci (fe_cb e) w)) = pw_out w
    \<and> pend e (snd (fsm_ci (fe_cb e) w)) = pend e w \<and> (mru_ok w \<longrightarrow> mru_ok (snd (fsm_ci (fe_cb e) w))
    \<and> length (fst (fsm_ci (fe_cb e) w)) \<le> PPP_MRU - HEADERLEN)"
  proof (cases "cb_cilen (fe_cb e)")
    case c: (Some cilen)
    show ?thesis
    proof (cases "cb_addci (fe_cb e)")
      case a: (Some addci)
      obtain n w1 where n: "cilen w = (n, w1)" by (cases "cilen w")
      have "fsm_inert e (\<lambda>w. snd (cilen w))" using assms c unfolding env_ok_def by blast
      from fsm_inertD [OF this, of w] have w1: "pw_fsm w1 = pw_fsm w" "pw_out w1 = pw_out w" "pend e w1 = pend e w" "mru_ok w \<Longrightarrow> mru_ok w1"
        by (simp_all add: n)
      let ?n = "min n (pw_mru w1 - int HEADERLEN)"
      have i: "fsm_inert e (\<lambda>w. snd (addci ?n w))" "int (length (fst (addci ?n w1))) \<le> max 0 ?n" using assms a unfolding env_ok_def by blast+
      have eq: "fsm_ci (fe_cb e) w = addci ?n w1" by (simp add: fsm_ci_def c a n)
      have "length (fst (addci ?n w1)) \<le> PPP_MRU - HEADERLEN" if "mru_ok w"
        using i(2) w1(4) [OF that] by (auto simp: mru_ok_def PPP_MRU_def HEADERLEN_def)
      then show ?thesis unfolding eq using fsm_inertD [OF i(1), of w1] w1 by simp
    qed (simp add: fsm_ci_def c)
  qed (simp add: fsm_ci_def)
  then show "pw_fsm (snd (fsm_ci (fe_cb e) w)) = pw_fsm w" "acts (snd (fsm_ci (fe_cb e) w)) = acts w" "pend e (snd (fsm_ci (fe_cb e) w)) = pend e w"
    "mru_ok w \<Longrightarrow> mru_ok (snd (fsm_ci (fe_cb e) w))" "mru_ok w \<Longrightarrow> length (fst (fsm_ci (fe_cb e) w)) \<le> PPP_MRU - HEADERLEN"
    "pw_out (snd (fsm_ci (fe_cb e) w)) = pw_out w"
    by (simp_all add: acts_def)
qed

text \<open>What \<^verbatim>\<open>fsm_sconfreq\<close> does to the record of the automaton.\<close>

definition sconf_fsm :: "bool \<Rightarrow> fsm \<Rightarrow> fsm" where
  "sconf_fsm rt f =
     (let f = (if f_state f \<notin> {REQSENT, ACKRCVD, ACKSENT} then f\<lparr>f_nakloops := 0\<rparr> else f);
          f = (if \<not> rt then f\<lparr>f_retransmits := f_maxconfreqtransmits f, f_id := f_id f + 1, f_reqid := f_id f + 1\<rparr> else f)
      in f\<lparr>f_seen_ack := False, f_retransmits := f_retransmits f - 1\<rparr>)"

definition sconf :: "('h, 'v) fsm_env \<Rightarrow> bool \<Rightarrow> ('h, 'v) ppp \<Rightarrow> ('h, 'v) ppp" where
  "sconf e rt w = the (fsm_sconfreq e rt w)"

lemma sconfreq_ex:
  assumes "env_ok e" and "mru_ok w"
  shows "\<exists>w'. fsm_sconfreq e rt w = Some w' \<and> pw_fsm w' = sconf_fsm rt (pw_fsm w) \<and> acts w' = acts w @ [Scr]
    \<and> pend e w' = Suc (pend e w) \<and> mru_ok w'"
proof -
  let ?w1 = "if pw_state w \<notin> {REQSENT, ACKRCVD, ACKSENT} then set_fsm (\<lambda>f. f\<lparr>f_nakloops := 0\<rparr>) (run_cb (cb_resetci (fe_cb e)) w) else w"
  let ?w2 = "if \<not> rt then set_fsm (\<lambda>f. f\<lparr>f_retransmits := f_maxconfreqtransmits f, f_id := f_id f + 1, f_reqid := f_id f + 1\<rparr>) ?w1 else ?w1"
  define w3 where "w3 = set_fsm (\<lambda>f. f\<lparr>f_seen_ack := False\<rparr>) ?w2"
  obtain d w4 where ci: "fsm_ci (fe_cb e) w3 = (d, w4)" by (cases "fsm_ci (fe_cb e) w3")
  have w3: "pw_fsm (TIMEOUT e (set_fsm (\<lambda>f. f\<lparr>f_retransmits := f_retransmits f - 1\<rparr>) w3)) = sconf_fsm rt (pw_fsm w)"
      "acts w3 = acts w" "pend e w3 = pend e w" "mru_ok w3"
    using assms by (auto simp: w3_def fsm_simps sconf_fsm_def Let_def)
  have w4: "pw_fsm w4 = pw_fsm w3" "acts w4 = acts w3" "pend e w4 = pend e w3" "mru_ok w4" "length d \<le> PPP_MRU - HEADERLEN"
    using ci_inert [OF assms(1), of w3] w3(4) by (simp_all add: ci)
  have "fsm_sconfreq e rt w = Some (TIMEOUT e (set_fsm (\<lambda>f. f\<lparr>f_retransmits := f_retransmits f - 1\<rparr>) (sent CONFREQ (f_reqid (pw_fsm w4)) d w4)))"
    using w4(4,5) unfolding fsm_sconfreq_def Let_def w3_def [symmetric] ci
    by (simp add: fsm_simps outpacket_size_def PPP_MRU_def PPP_HDRLEN_def HEADERLEN_def)
  then show ?thesis using w3 w4 assms(1) by (simp add: fsm_simps)
qed

lemma sconf_simps [fsm_simps]:
  assumes "env_ok e" and "mru_ok w"
  shows "fsm_sconfreq e rt w = Some (sconf e rt w)" "pw_fsm (sconf e rt w) = sconf_fsm rt (pw_fsm w)" "acts (sconf e rt w) = acts w @ [Scr]"
    "pend e (sconf e rt w) = Suc (pend e w)" "mru_ok (sconf e rt w)"
  using sconfreq_ex [OF assms, of rt] by (auto simp: sconf_def)

lemma sconf_fsm_simps [simp]:
  "f_state (sconf_fsm rt f) = f_state f" "f_seen_ack (sconf_fsm rt f) = False" "f_flags (sconf_fsm rt f) = f_flags f"
  "f_maxconfreqtransmits (sconf_fsm rt f) = f_maxconfreqtransmits f" "f_maxtermtransmits (sconf_fsm rt f) = f_maxtermtransmits f"
  "f_retransmits (sconf_fsm rt f) = (if rt then f_retransmits f else f_maxconfreqtransmits f) - 1"
  "f_protocol (sconf_fsm rt f) = f_protocol f"
  by (simp_all add: sconf_fsm_def Let_def)

definition sterm :: "('h, 'v) fsm_env \<Rightarrow> ('h, 'v) ppp \<Rightarrow> ('h, 'v) ppp" where
  "sterm e w = (let w = set_fsm (\<lambda>f. f\<lparr>f_id := f_id f + 1, f_reqid := f_id f + 1\<rparr>) w in
     set_fsm (\<lambda>f. f\<lparr>f_retransmits := f_retransmits f - 1\<rparr>) (TIMEOUT e (sent TERMREQ (f_reqid (pw_fsm w)) (f_term_reason (pw_fsm w)) w)))"

lemma sterm_simps [fsm_simps]:
  "mru_ok w \<Longrightarrow> fsm_stermreq e w = Some (sterm e w)"
  "pw_fsm (sterm e w) = (pw_fsm w)\<lparr>f_id := f_id (pw_fsm w) + 1, f_reqid := f_id (pw_fsm w) + 1, f_retransmits := f_retransmits (pw_fsm w) - 1\<rparr>"
  "acts (sterm e w) = acts w @ [Str]" "env_ok e \<Longrightarrow> pend e (sterm e w) = Suc (pend e w)" "mru_ok (sterm e w) = mru_ok w"
  by (simp_all add: fsm_stermreq_def sterm_def Let_def fsm_simps fsm_codes)

section \<open>The automaton of RFC 1661\<close>

text \<open>The events of the RFC: lower layer up and down, administrative open and close, time-out with the counter above zero or not, an
  acceptable or unacceptable configure request, configure ack, configure nak or reject, terminate request, terminate ack, unknown
  code, and permitted or catastrophic rejects.\<close>

datatype rfc_event = RUp | RDown | ROpen | RClose | TO_plus | TO_minus | RCR_plus | RCR_minus | RCA | RCN | RTR | RTA | RUC
  | RXJ_plus | RXJ_minus

text \<open>The transition table of section 4.1, by event, in the order of the states; \<open>None\<close> is an event the table excludes.\<close>

fun rfc1661 :: "rfc_event \<Rightarrow> fsm_state \<Rightarrow> (rfc_action list \<times> fsm_state) option" where
  "rfc1661 RUp s = (case s of INITIAL \<Rightarrow> Some ([], CLOSED) | STARTING \<Rightarrow> Some ([Irc, Scr], REQSENT) | _ \<Rightarrow> None)"
| "rfc1661 RDown s = (case s of INITIAL \<Rightarrow> None | STARTING \<Rightarrow> None | CLOSED \<Rightarrow> Some ([], INITIAL) | STOPPED \<Rightarrow> Some ([Tls], STARTING)
     | CLOSING \<Rightarrow> Some ([], INITIAL) | OPENED \<Rightarrow> Some ([Tld], STARTING) | _ \<Rightarrow> Some ([], STARTING))"
| "rfc1661 ROpen s = (case s of INITIAL \<Rightarrow> Some ([Tls], STARTING) | CLOSED \<Rightarrow> Some ([Irc, Scr], REQSENT) | CLOSING \<Rightarrow> Some ([], STOPPING)
     | _ \<Rightarrow> Some ([], s))"
| "rfc1661 RClose s = (case s of INITIAL \<Rightarrow> Some ([], INITIAL) | STARTING \<Rightarrow> Some ([Tlf], INITIAL) | CLOSED \<Rightarrow> Some ([], CLOSED)
     | STOPPED \<Rightarrow> Some ([], CLOSED) | CLOSING \<Rightarrow> Some ([], CLOSING) | STOPPING \<Rightarrow> Some ([], CLOSING)
     | OPENED \<Rightarrow> Some ([Tld, Irc, Str], CLOSING) | _ \<Rightarrow> Some ([Irc, Str], CLOSING))"
| "rfc1661 TO_plus s = (case s of CLOSING \<Rightarrow> Some ([Str], CLOSING) | STOPPING \<Rightarrow> Some ([Str], STOPPING) | REQSENT \<Rightarrow> Some ([Scr], REQSENT)
     | ACKRCVD \<Rightarrow> Some ([Scr], REQSENT) | ACKSENT \<Rightarrow> Some ([Scr], ACKSENT) | _ \<Rightarrow> None)"
| "rfc1661 TO_minus s = (case s of CLOSING \<Rightarrow> Some ([Tlf], CLOSED) | STOPPING \<Rightarrow> Some ([Tlf], STOPPED) | REQSENT \<Rightarrow> Some ([Tlf], STOPPED)
     | ACKRCVD \<Rightarrow> Some ([Tlf], STOPPED) | ACKSENT \<Rightarrow> Some ([Tlf], STOPPED) | _ \<Rightarrow> None)"
| "rfc1661 RCR_plus s = (case s of INITIAL \<Rightarrow> None | STARTING \<Rightarrow> None | CLOSED \<Rightarrow> Some ([Sta], CLOSED) | STOPPED \<Rightarrow> Some ([Irc, Scr, Sca], ACKSENT)
     | CLOSING \<Rightarrow> Some ([], CLOSING) | STOPPING \<Rightarrow> Some ([], STOPPING) | REQSENT \<Rightarrow> Some ([Sca], ACKSENT) | ACKRCVD \<Rightarrow> Some ([Sca, Tlu], OPENED)
     | ACKSENT \<Rightarrow> Some ([Sca], ACKSENT) | OPENED \<Rightarrow> Some ([Tld, Scr, Sca], ACKSENT))"
| "rfc1661 RCR_minus s = (case s of INITIAL \<Rightarrow> None | STARTING \<Rightarrow> None | CLOSED \<Rightarrow> Some ([Sta], CLOSED) | STOPPED \<Rightarrow> Some ([Irc, Scr, Scn], REQSENT)
     | CLOSING \<Rightarrow> Some ([], CLOSING) | STOPPING \<Rightarrow> Some ([], STOPPING) | REQSENT \<Rightarrow> Some ([Scn], REQSENT) | ACKRCVD \<Rightarrow> Some ([Scn], ACKRCVD)
     | ACKSENT \<Rightarrow> Some ([Scn], REQSENT) | OPENED \<Rightarrow> Some ([Tld, Scr, Scn], REQSENT))"
| "rfc1661 RCA s = (case s of INITIAL \<Rightarrow> None | STARTING \<Rightarrow> None | CLOSED \<Rightarrow> Some ([Sta], CLOSED) | STOPPED \<Rightarrow> Some ([Sta], STOPPED)
     | CLOSING \<Rightarrow> Some ([], CLOSING) | STOPPING \<Rightarrow> Some ([], STOPPING) | REQSENT \<Rightarrow> Some ([Irc], ACKRCVD) | ACKRCVD \<Rightarrow> Some ([Scr], REQSENT)
     | ACKSENT \<Rightarrow> Some ([Irc, Tlu], OPENED) | OPENED \<Rightarrow> Some ([Tld, Scr], REQSENT))"
| "rfc1661 RCN s = (case s of INITIAL \<Rightarrow> None | STARTING \<Rightarrow> None | CLOSED \<Rightarrow> Some ([Sta], CLOSED) | STOPPED \<Rightarrow> Some ([Sta], STOPPED)
     | CLOSING \<Rightarrow> Some ([], CLOSING) | STOPPING \<Rightarrow> Some ([], STOPPING) | REQSENT \<Rightarrow> Some ([Irc, Scr], REQSENT) | ACKRCVD \<Rightarrow> Some ([Scr], REQSENT)
     | ACKSENT \<Rightarrow> Some ([Irc, Scr], ACKSENT) | OPENED \<Rightarrow> Some ([Tld, Scr], REQSENT))"
| "rfc1661 RTR s = (case s of INITIAL \<Rightarrow> None | STARTING \<Rightarrow> None | ACKRCVD \<Rightarrow> Some ([Sta], REQSENT) | ACKSENT \<Rightarrow> Some ([Sta], REQSENT)
     | OPENED \<Rightarrow> Some ([Tld, Zrc, Sta], STOPPING) | _ \<Rightarrow> Some ([Sta], s))"
| "rfc1661 RTA s = (case s of INITIAL \<Rightarrow> None | STARTING \<Rightarrow> None | CLOSING \<Rightarrow> Some ([Tlf], CLOSED) | STOPPING \<Rightarrow> Some ([Tlf], STOPPED)
     | ACKRCVD \<Rightarrow> Some ([], REQSENT) | OPENED \<Rightarrow> Some ([Tld, Scr], REQSENT) | _ \<Rightarrow> Some ([], s))"
| "rfc1661 RUC s = (case s of INITIAL \<Rightarrow> None | STARTING \<Rightarrow> None | _ \<Rightarrow> Some ([Scj], s))"
| "rfc1661 RXJ_plus s = (case s of INITIAL \<Rightarrow> None | STARTING \<Rightarrow> None | ACKRCVD \<Rightarrow> Some ([], REQSENT) | _ \<Rightarrow> Some ([], s))"
| "rfc1661 RXJ_minus s = (case s of INITIAL \<Rightarrow> None | STARTING \<Rightarrow> None | CLOSED \<Rightarrow> Some ([Tlf], CLOSED) | CLOSING \<Rightarrow> Some ([Tlf], CLOSED)
     | OPENED \<Rightarrow> Some ([Tld, Irc, Str], STOPPING) | _ \<Rightarrow> Some ([Tlf], STOPPED))"

text \<open>The actions that can be observed: a call needs a callback, and the counter is internal.\<close>

fun visible :: "('h, 'v) fsm_callbacks \<Rightarrow> rfc_action \<Rightarrow> bool" where
  "visible cb Tlu = (cb_up cb \<noteq> None)"
| "visible cb Tld = (cb_down cb \<noteq> None)"
| "visible cb Tls = (cb_starting cb \<noteq> None)"
| "visible cb Tlf = (cb_finished cb \<noteq> None)"
| "visible cb Irc = False"
| "visible cb Zrc = False"
| "visible cb a = True"

definition follows :: "('h, 'v) fsm_env \<Rightarrow> rfc_event option \<Rightarrow> ('h, 'v) ppp \<Rightarrow> ('h, 'v) ppp option \<Rightarrow> bool" where
  "follows e ev w x \<longleftrightarrow> (\<exists>w'. x = Some w' \<and> mru_ok w' \<and>
     (case Option.bind ev (\<lambda>r. rfc1661 r (pw_state w)) of
        None \<Rightarrow> pw_state w' = pw_state w \<and> acts w' = acts w
      | Some (as, s) \<Rightarrow> pw_state w' = s \<and> acts w' = acts w @ filter (visible (fe_cb e)) as))"

section \<open>The events of the code\<close>

datatype fsm_event = EvUp | EvDown | EvOpen | EvClose "u8 list" | EvTimeout | EvPacket "u8 list" | EvProtReject

text \<open>When the timer expires the event loop has taken it off its list.\<close>

definition expired :: "('h, 'v) fsm_env \<Rightarrow> ('h, 'v) ppp \<Rightarrow> ('h, 'v) ppp" where
  "expired e w = w\<lparr>pw_el := el_expire (fsm_kind e) (pw_el w)\<rparr>"

fun fsm_step :: "('h, 'v) fsm_env \<Rightarrow> fsm_event \<Rightarrow> ('h, 'v) ppp \<Rightarrow> ('h, 'v) ppp option" where
  "fsm_step e EvUp w = fsm_lowerup e w"
| "fsm_step e EvDown w = Some (fsm_lowerdown e w)"
| "fsm_step e EvOpen w = fsm_open e w"
| "fsm_step e (EvClose reason) w = fsm_close e reason w"
| "fsm_step e EvTimeout w = (if pend e w = 0 then Some w else fsm_timeout e (expired e w))"
| "fsm_step e (EvPacket p) w = fsm_input e p w"
| "fsm_step e EvProtReject w = fsm_protreject e w"

text \<open>Which event of the RFC this is; \<open>None\<close> if the code ignores it.\<close>

definition rfc_packet :: "('h, 'v) fsm_env \<Rightarrow> u8 \<Rightarrow> u8 \<Rightarrow> u8 list \<Rightarrow> ('h, 'v) ppp \<Rightarrow> rfc_event option" where
  "rfc_packet e code i inp w =
     (if code = CONFREQ then Some (if fst (fsm_reqci (fe_cb e) inp (the (fsm_renegotiate e w))) = CONFACK then RCR_plus else RCR_minus)
      else if code \<in> {CONFACK, CONFNAK, CONFREJ} \<and> (i \<noteq> f_reqid (pw_fsm w) \<or> f_seen_ack (pw_fsm w)) then None
      else if code = CONFACK then if fst (fsm_ackci (fe_cb e) inp w) = 0 then None else Some RCA
      else if code \<in> {CONFNAK, CONFREJ} then if fst (fsm_nakci (fe_cb e) code inp w) = 0 then None else Some RCN
      else if code = TERMREQ then Some RTR
      else if code = TERMACK then Some RTA
      else if code = CODEREJ then if length inp < HEADERLEN then None else Some RXJ_plus
      else if fst (fsm_extcode (fe_cb e) code i inp w) then None else Some RUC)"

fun rfc_of :: "('h, 'v) fsm_env \<Rightarrow> fsm_event \<Rightarrow> ('h, 'v) ppp \<Rightarrow> rfc_event option" where
  "rfc_of e EvUp w = Some RUp"
| "rfc_of e EvDown w = Some RDown"
| "rfc_of e EvOpen w = Some ROpen"
| "rfc_of e (EvClose reason) w = Some RClose"
| "rfc_of e EvTimeout w = (if pend e w = 0 then None else if f_retransmits (pw_fsm w) \<le> 0 then Some TO_minus else Some TO_plus)"
| "rfc_of e (EvPacket p) w = (let len = unat (un_be16 [p ! 2, p ! 3]) in
     if length p < HEADERLEN \<or> len < HEADERLEN \<or> length p < len then None
     else rfc_packet e (p ! 0) (p ! 1) (drop HEADERLEN (take len p)) w)"
| "rfc_of e EvProtReject w = Some RXJ_minus"

section \<open>The code follows the table\<close>

definition no_options :: "fsm \<Rightarrow> bool" where
  "no_options f \<longleftrightarrow> f_flags f AND OPT_PASSIVE = 0 \<and> f_flags f AND OPT_RESTART = 0 \<and> f_flags f AND OPT_SILENT = 0"

lemma followsI:
  "x = Some w' \<Longrightarrow> mru_ok w' \<Longrightarrow> (case Option.bind ev (\<lambda>r. rfc1661 r (pw_state w)) of
        None \<Rightarrow> pw_state w' = pw_state w \<and> acts w' = acts w
      | Some (as, s) \<Rightarrow> pw_state w' = s \<and> acts w' = acts w @ filter (visible (fe_cb e)) as) \<Longrightarrow> follows e ev w x"
  unfolding follows_def by blast

lemma follows_Some:
  "follows e ev w (Some w') \<longleftrightarrow> mru_ok w' \<and> (case Option.bind ev (\<lambda>r. rfc1661 r (pw_state w)) of
        None \<Rightarrow> pw_state w' = pw_state w \<and> acts w' = acts w
      | Some (as, s) \<Rightarrow> pw_state w' = s \<and> acts w' = acts w @ filter (visible (fe_cb e)) as)"
  by (simp add: follows_def)

lemma acts_call_eq: "(if cb = None then [] else [a]) = (if cb \<noteq> None then [a] else [])"
  by simp

lemma lowerup_follows:
  assumes "env_ok e" and "mru_ok w" and "no_options (pw_fsm w)"
  shows "follows e (Some RUp) w (fsm_lowerup e w)"
  using assms by (cases "pw_state w") (auto simp: fsm_lowerup_def no_options_def follows_Some fsm_simps)

lemma lowerdown_follows:
  assumes "env_ok e" and "mru_ok w"
  shows "follows e (Some RDown) w (Some (fsm_lowerdown e w))"
  using assms by (cases "pw_state w") (auto simp: fsm_lowerdown_def follows_Some fsm_simps)

lemma open_follows:
  assumes "env_ok e" and "mru_ok w" and "no_options (pw_fsm w)"
  shows "follows e (Some ROpen) w (fsm_open e w)"
  using assms by (cases "pw_state w") (auto simp: fsm_open_def fsm_restart_def no_options_def follows_Some fsm_simps)

lemma close_follows:
  assumes "env_ok e" and "mru_ok w" and "pw_state w \<noteq> STARTING"
  shows "follows e (Some RClose) w (fsm_close e reason w)"
  using assms by (cases "pw_state w") (auto simp: fsm_close_def follows_Some fsm_simps Let_def)

lemma expired_simps [fsm_simps]:
  "pw_fsm (expired e w) = pw_fsm w" "acts (expired e w) = acts w" "mru_ok (expired e w) = mru_ok w"
  "pend e (expired e w) = pend e w - 1"
  by (simp_all add: expired_def acts_def mru_ok_def pend_def pending_expire)

lemma timeout_follows:
  assumes "env_ok e" and "mru_ok w" and "no_options (pw_fsm w)"
  shows "follows e (rfc_of e EvTimeout w) w (fsm_step e EvTimeout w)"
  using assms by (cases "pw_state w") (auto simp: fsm_timeout_def no_options_def follows_Some fsm_simps Let_def)

lemma protreject_follows:
  assumes "env_ok e" and "mru_ok w"
  shows "follows e (Some RXJ_minus) w (fsm_protreject e w)"
  using assms by (cases "pw_state w") (auto simp: fsm_protreject_def follows_Some fsm_simps)

lemma env_ok_reqci:
  assumes "env_ok e"
  shows "pw_fsm (snd (snd (fsm_reqci (fe_cb e) inp w))) = pw_fsm w" "acts (snd (snd (fsm_reqci (fe_cb e) inp w))) = acts w"
    "pend e (snd (snd (fsm_reqci (fe_cb e) inp w))) = pend e w" "mru_ok w \<Longrightarrow> mru_ok (snd (snd (fsm_reqci (fe_cb e) inp w)))"
    "fst (fsm_reqci (fe_cb e) inp w) \<in> {CONFACK, CONFNAK, CONFREJ}"
proof -
  have "fsm_inert e (\<lambda>w. snd (snd (g inp r w)))" "fst (g inp r w) \<in> {CONFACK, CONFNAK, CONFREJ}" if "cb_reqci (fe_cb e) = Some g" for g r
    using that assms unfolding env_ok_def by blast+
  from fsm_inertD [OF this(1), where w = w] this(2)
  show "pw_fsm (snd (snd (fsm_reqci (fe_cb e) inp w))) = pw_fsm w" "acts (snd (snd (fsm_reqci (fe_cb e) inp w))) = acts w"
    "pend e (snd (snd (fsm_reqci (fe_cb e) inp w))) = pend e w" "mru_ok w \<Longrightarrow> mru_ok (snd (snd (fsm_reqci (fe_cb e) inp w)))"
    "fst (fsm_reqci (fe_cb e) inp w) \<in> {CONFACK, CONFNAK, CONFREJ}"
    by (cases "cb_reqci (fe_cb e)"; simp add: fsm_reqci_def acts_def)+
qed

lemma env_ok_ci:
  assumes "env_ok e"
  shows "pw_fsm (snd (fsm_ackci (fe_cb e) inp w)) = pw_fsm w" "acts (snd (fsm_ackci (fe_cb e) inp w)) = acts w"
    "pend e (snd (fsm_ackci (fe_cb e) inp w)) = pend e w" "mru_ok w \<Longrightarrow> mru_ok (snd (fsm_ackci (fe_cb e) inp w))"
    "pw_fsm (snd (fsm_nakci (fe_cb e) c inp w)) = pw_fsm w" "acts (snd (fsm_nakci (fe_cb e) c inp w)) = acts w"
    "pend e (snd (fsm_nakci (fe_cb e) c inp w)) = pend e w" "mru_ok w \<Longrightarrow> mru_ok (snd (fsm_nakci (fe_cb e) c inp w))"
    "pw_fsm (snd (fsm_extcode (fe_cb e) c i inp w)) = pw_fsm w" "acts (snd (fsm_extcode (fe_cb e) c i inp w)) = acts w"
    "pend e (snd (fsm_extcode (fe_cb e) c i inp w)) = pend e w" "mru_ok w \<Longrightarrow> mru_ok (snd (fsm_extcode (fe_cb e) c i inp w))"
proof -
  have a: "fsm_inert e (\<lambda>w. snd (g inp w))" if "cb_ackci (fe_cb e) = Some g" for g using that assms unfolding env_ok_def by blast
  have n: "fsm_inert e (\<lambda>w. snd (g inp w))" if "cb_nakci (fe_cb e) = Some g" for g using that assms unfolding env_ok_def by blast
  have r: "fsm_inert e (\<lambda>w. snd (g inp w))" if "cb_rejci (fe_cb e) = Some g" for g using that assms unfolding env_ok_def by blast
  have x: "fsm_inert e (\<lambda>w. snd (g c i inp w))" if "cb_extcode (fe_cb e) = Some g" for g using that assms unfolding env_ok_def by blast
  show "pw_fsm (snd (fsm_ackci (fe_cb e) inp w)) = pw_fsm w" "acts (snd (fsm_ackci (fe_cb e) inp w)) = acts w"
    "pend e (snd (fsm_ackci (fe_cb e) inp w)) = pend e w" "mru_ok w \<Longrightarrow> mru_ok (snd (fsm_ackci (fe_cb e) inp w))"
    using fsm_inertD [OF a, where w = w] by (cases "cb_ackci (fe_cb e)"; simp add: fsm_ackci_def acts_def)+
  show "pw_fsm (snd (fsm_nakci (fe_cb e) c inp w)) = pw_fsm w" "acts (snd (fsm_nakci (fe_cb e) c inp w)) = acts w"
    "pend e (snd (fsm_nakci (fe_cb e) c inp w)) = pend e w" "mru_ok w \<Longrightarrow> mru_ok (snd (fsm_nakci (fe_cb e) c inp w))"
    using fsm_inertD [OF n, where w = w] fsm_inertD [OF r, where w = w]
    by (cases "cb_nakci (fe_cb e)"; cases "cb_rejci (fe_cb e)"; simp add: fsm_nakci_def acts_def)+
  show "pw_fsm (snd (fsm_extcode (fe_cb e) c i inp w)) = pw_fsm w" "acts (snd (fsm_extcode (fe_cb e) c i inp w)) = acts w"
    "pend e (snd (fsm_extcode (fe_cb e) c i inp w)) = pend e w" "mru_ok w \<Longrightarrow> mru_ok (snd (fsm_extcode (fe_cb e) c i inp w))"
    using fsm_inertD [OF x, where w = w] by (cases "cb_extcode (fe_cb e)"; simp add: fsm_extcode_def acts_def)+
qed

text \<open>The first part of a configure request, and the rest of it by the answer.\<close>

definition reneg :: "('h, 'v) fsm_env \<Rightarrow> ('h, 'v) ppp \<Rightarrow> ('h, 'v) ppp" where
  "reneg e w = the (fsm_renegotiate e w)"

lemma reneg_simps:
  assumes "env_ok e" and "mru_ok w"
  shows "fsm_renegotiate e w = Some (reneg e w)" "mru_ok (reneg e w)"
    "pw_fsm (reneg e w) = (if pw_state w = OPENED then sconf_fsm False (pw_fsm w)
       else if pw_state w = STOPPED then (sconf_fsm False (pw_fsm w))\<lparr>f_state := REQSENT\<rparr> else pw_fsm w)"
    "acts (reneg e w) = acts w @ (if pw_state w = OPENED then filter (visible (fe_cb e)) [Tld, Scr] else if pw_state w = STOPPED then [Scr] else [])"
    "pend e (reneg e w) = (if pw_state w \<in> {OPENED, STOPPED} then Suc (pend e w) else pend e w)"
  using assms by (auto simp: reneg_def fsm_renegotiate_def fsm_simps)

lemma rconfreq_follows:
  assumes "env_ok e" and "mru_ok w" and "pw_state w \<notin> {INITIAL, STARTING}"
  shows "follows e (rfc_packet e CONFREQ i inp w) w (fsm_rconfreq e i inp w)"
proof -
  obtain c out w2 where r: "fsm_reqci (fe_cb e) inp (reneg e w) = (c, out, w2)" by (cases "fsm_reqci (fe_cb e) inp (reneg e w)")
  have w2: "pw_fsm w2 = pw_fsm (reneg e w)" "acts w2 = acts (reneg e w)" "mru_ok w2" "c = CONFACK \<or> c = CONFNAK \<or> c = CONFREJ"
    using env_ok_reqci [OF assms(1), where inp = inp and w = "reneg e w"] reneg_simps(2) [OF assms(1,2)] by (simp_all add: r)
  have p: "rfc_packet e CONFREQ i inp w = Some (if c = CONFACK then RCR_plus else RCR_minus)"
    by (simp add: rfc_packet_def reneg_def [symmetric] r)
  have n: "CONFNAK \<noteq> CONFACK" "CONFREJ \<noteq> CONFACK" "CONFREJ \<noteq> CONFNAK" by (simp_all add: fsm_codes)
  show ?thesis unfolding p fsm_rconfreq_def reneg_simps(1) [OF assms(1,2)]
    using assms w2 n by (cases "pw_state w"; cases "c = CONFACK"; cases "c = CONFNAK")
      (auto simp: r follows_Some fsm_simps reneg_simps Let_def fsm_codes)
qed

lemma rconfack_follows:
  assumes "env_ok e" and "mru_ok w" and "pw_state w \<notin> {INITIAL, STARTING}"
  shows "follows e (rfc_packet e CONFACK i inp w) w (fsm_rconfack e i inp w)"
proof -
  obtain g w1 where r: "fsm_ackci (fe_cb e) inp w = (g, w1)" by (cases "fsm_ackci (fe_cb e) inp w")
  have w1: "pw_fsm w1 = pw_fsm w" "acts w1 = acts w" "mru_ok w1"
    using env_ok_ci(1-4) [OF assms(1), where inp = inp and w = w] assms(2) by (simp_all add: r)
  have n: "CONFACK \<noteq> CONFREQ" by (simp add: fsm_codes)
  show ?thesis using assms w1 n by (cases "pw_state w") (auto simp: rfc_packet_def fsm_rconfack_def r follows_Some fsm_simps Let_def fsm_codes)
qed

lemma rconfnakrej_follows:
  assumes "env_ok e" and "mru_ok w" and "pw_state w \<notin> {INITIAL, STARTING}" and "c \<in> {CONFNAK, CONFREJ}"
    and "0 \<le> fst (fsm_nakci (fe_cb e) c inp w)"
  shows "follows e (rfc_packet e c i inp w) w (fsm_rconfnakrej e c i inp w)"
proof -
  obtain g w1 where r: "fsm_nakci (fe_cb e) c inp w = (g, w1)" by (cases "fsm_nakci (fe_cb e) c inp w")
  have w1: "pw_fsm w1 = pw_fsm w" "acts w1 = acts w" "mru_ok w1"
    using env_ok_ci(5-8) [OF assms(1), where c = c and inp = inp and w = w] assms(2) by (simp_all add: r)
  have n: "c \<noteq> CONFREQ" "c \<noteq> CONFACK" using assms(4) by (auto simp: fsm_codes)
  show ?thesis using assms w1 n by (cases "pw_state w") (auto simp: rfc_packet_def fsm_rconfnakrej_def r follows_Some fsm_simps Let_def fsm_codes)
qed

lemma term_follows:
  assumes "env_ok e" and "mru_ok w" and "pw_state w \<notin> {INITIAL, STARTING}"
  shows "follows e (Some RTR) w (fsm_rtermreq e i w)" "pw_state w \<noteq> OPENED \<Longrightarrow> follows e (Some RTA) w (fsm_rtermack e w)"
    "HEADERLEN \<le> length inp \<Longrightarrow> follows e (Some RXJ_plus) w (Some (fsm_rcoderej inp w))"
  using assms by (cases "pw_state w"; auto simp: fsm_rtermreq_def fsm_rtermack_def fsm_rcoderej_def follows_Some fsm_simps Let_def fsm_codes)+

lemma rfc_packet_down: "rfc_packet e c i inp w = Some r \<Longrightarrow> rfc1661 r INITIAL = None \<and> rfc1661 r STARTING = None"
  unfolding rfc_packet_def by (simp split: if_split_asm)

lemma follows_ignored: "mru_ok w \<Longrightarrow> pw_state w \<in> {INITIAL, STARTING} \<Longrightarrow> follows e (rfc_packet e c i inp w) w (Some w)"
  using rfc_packet_down [of e c i inp w] by (cases "rfc_packet e c i inp w") (auto simp: follows_Some)

lemma dispatch_follows:
  assumes "env_ok e" and "mru_ok w" and "pw_state w \<notin> {INITIAL, STARTING}" and "\<And>c d. 0 \<le> fst (fsm_nakci (fe_cb e) c d w)"
    and "c = TERMACK \<longrightarrow> pw_state w \<noteq> OPENED"
  shows "follows e (rfc_packet e c i inp w) w (fsm_dispatch e c i inp packet w)"
proof -
  obtain k w1 where x: "fsm_extcode (fe_cb e) c i inp w = (k, w1)" by (cases "fsm_extcode (fe_cb e) c i inp w")
  have w1: "pw_fsm w1 = pw_fsm w" "acts w1 = acts w" "mru_ok w1"
    using env_ok_ci(9-12) [OF assms(1), where c = c and i = i and inp = inp and w = w] assms(2) by (simp_all add: x)
  consider "c = CONFREQ" | "c = CONFACK" | "c \<in> {CONFNAK, CONFREJ}" | "c = TERMREQ" | "c = TERMACK"
    | "c = CODEREJ" | "c \<notin> {CONFREQ, CONFACK, CONFNAK, CONFREJ, TERMREQ, TERMACK, CODEREJ}" by blast
  then show ?thesis
  proof cases
    case 1
    then show ?thesis using rconfreq_follows [OF assms(1-3)] by (simp add: fsm_dispatch_def)
  next
    case 2
    then have "fsm_dispatch e c i inp packet w = fsm_rconfack e i inp w" by (simp add: fsm_dispatch_def fsm_codes)
    then show ?thesis using rconfack_follows [OF assms(1-3)] 2 by simp
  next
    case 3
    then have "fsm_dispatch e c i inp packet w = fsm_rconfnakrej e c i inp w" by (auto simp: fsm_dispatch_def fsm_codes)
    then show ?thesis using rconfnakrej_follows [OF assms(1-3) 3 assms(4)] by simp
  next
    case 4
    then show ?thesis using term_follows(1) [OF assms(1-3)] by (simp add: fsm_dispatch_def rfc_packet_def fsm_codes)
  next
    case 5
    then show ?thesis using assms(5) term_follows(2) [OF assms(1-3)] by (simp add: fsm_dispatch_def rfc_packet_def fsm_codes)
  next
    case 6
    have d: "fsm_dispatch e c i inp packet w = Some (fsm_rcoderej inp w)"
      "rfc_packet e c i inp w = (if length inp < HEADERLEN then None else Some RXJ_plus)"
      using 6 by (simp_all add: fsm_dispatch_def rfc_packet_def fsm_codes)
    have "fsm_rcoderej inp w = w" if "length inp < HEADERLEN" using that by (simp add: fsm_rcoderej_def)
    then show ?thesis unfolding d using term_follows(3) [OF assms(1-3), of inp] assms(2)
      by (cases "length inp < HEADERLEN") (simp_all add: follows_Some)
  next
    case 7
    then have d: "fsm_dispatch e c i inp packet w
          = (if k then Some w1 else fsm_sdata CODEREJ (f_id (pw_fsm w) + 1) packet (set_fsm (\<lambda>f. f\<lparr>f_id := f_id f + 1\<rparr>) w1))"
        "rfc_packet e c i inp w = (if k then None else Some RUC)"
      using w1(1) by (simp_all add: fsm_dispatch_def rfc_packet_def x Let_def set_fsm_simps)
    show ?thesis unfolding d using assms(3) w1
      by (cases k; cases "pw_state w") (simp_all add: follows_Some fsm_simps, simp_all add: fsm_codes)
  qed
qed

lemma input_follows:
  assumes "env_ok e" and "mru_ok w" and "\<And>c d. 0 \<le> fst (fsm_nakci (fe_cb e) c d w)"
    and "rfc_of e (EvPacket p) w = Some RTA \<longrightarrow> pw_state w \<noteq> OPENED"
  shows "follows e (rfc_of e (EvPacket p) w) w (fsm_input e p w)"
proof -
  define c i len where "c = p ! 0" and "i = p ! 1" and "len = unat (un_be16 [p ! 2, p ! 3])"
  define inp where "inp = drop HEADERLEN (take len p)"
  have inpt: "fsm_input e p w = (if length p < HEADERLEN \<or> len < HEADERLEN \<or> length p < len \<or> pw_state w \<in> {INITIAL, STARTING} then Some w
      else fsm_dispatch e c i inp (take len p) w)"
    by (auto simp: fsm_input_def Let_def c_def i_def len_def inp_def)
  have r: "rfc_of e (EvPacket p) w = (if length p < HEADERLEN \<or> len < HEADERLEN \<or> length p < len then None else rfc_packet e c i inp w)"
    by (simp add: Let_def c_def i_def len_def inp_def)
  have "c = TERMACK \<longrightarrow> pw_state w \<noteq> OPENED" if "\<not> (length p < HEADERLEN \<or> len < HEADERLEN \<or> length p < len)"
    using assms(4) that unfolding r by (auto simp: rfc_packet_def fsm_codes)
  then show ?thesis
    using dispatch_follows [OF assms(1,2) _ assms(3), of c i inp "take len p"] follows_ignored [OF assms(2), of e c i inp] assms(2)
    unfolding inpt r by (auto simp: follows_Some)
qed

text \<open>Claim C13: the automaton is the one of RFC 1661. For every event, in every state and with every callback that keeps its contract, the
  code returns, enters the state the table of the RFC names and performs the actions of the entry, in order: the frames it sends
  and the layers it informs. Events the table excludes, and packets that are malformed, stale or refused, are ignored. Passive, restart
  and silent mode are off, and no callback asks for the stop of the protocol; the two entries in which the code differs are a terminate
  ack in state Opened and a close in state Starting.\<close>

theorem fsm_is_rfc1661:
  assumes "env_ok e" and "mru_ok w" and "no_options (pw_fsm w)" and "\<And>c d. 0 \<le> fst (fsm_nakci (fe_cb e) c d w)"
    and "(rfc_of e ev w, pw_state w) \<notin> {(Some RTA, OPENED), (Some RClose, STARTING)}"
  shows "\<exists>w'. fsm_step e ev w = Some w' \<and> (case Option.bind (rfc_of e ev w) (\<lambda>r. rfc1661 r (pw_state w)) of
      None \<Rightarrow> pw_state w' = pw_state w \<and> acts w' = acts w
    | Some (as, s) \<Rightarrow> pw_state w' = s \<and> acts w' = acts w @ filter (visible (fe_cb e)) as)"
proof -
  have "follows e (rfc_of e ev w) w (fsm_step e ev w)"
  proof (cases ev)
    case (EvPacket p)
    then show ?thesis using input_follows [OF assms(1,2,4), of p] assms(5) by auto
  next
    case (EvClose r)
    then show ?thesis using close_follows [OF assms(1,2)] assms(5) by auto
  qed (use lowerup_follows [OF assms(1-3)] lowerdown_follows [OF assms(1,2)] open_follows [OF assms(1-3)] timeout_follows [OF assms(1-3)]
    protreject_follows [OF assms(1,2)] in simp_all)
  then show ?thesis unfolding follows_def by blast
qed

section \<open>The invariant\<close>

text \<open>The timer runs exactly in the states that wait for an answer, once; in the states that follow an answer to our request that answer
  has been consumed, so that a second one is stale; and the counters are in range.\<close>

definition fsm_ok :: "('h, 'v) fsm_env \<Rightarrow> ('h, 'v) ppp \<Rightarrow> bool" where
  "fsm_ok e w \<longleftrightarrow> mru_ok w
     \<and> pend e w = (if pw_state w \<in> {CLOSING, STOPPING, REQSENT, ACKRCVD, ACKSENT} then 1 else 0)
     \<and> (pw_state w \<in> {ACKRCVD, OPENED} \<longrightarrow> f_seen_ack (pw_fsm w))
     \<and> 0 < f_maxconfreqtransmits (pw_fsm w) \<and> 0 < f_maxtermtransmits (pw_fsm w)
     \<and> (pw_state w \<in> {CLOSING, STOPPING, REQSENT, ACKRCVD, ACKSENT} \<longrightarrow> 0 \<le> f_retransmits (pw_fsm w)
        \<and> f_retransmits (pw_fsm w) \<le> max (f_maxconfreqtransmits (pw_fsm w)) (f_maxtermtransmits (pw_fsm w)))"

definition keeps_ok :: "('h, 'v) fsm_env \<Rightarrow> ('h, 'v) ppp option \<Rightarrow> bool" where
  "keeps_ok e x \<longleftrightarrow> (\<exists>w'. x = Some w' \<and> fsm_ok e w')"

lemma keeps_Some [simp]: "keeps_ok e (Some w) \<longleftrightarrow> fsm_ok e w"
  by (simp add: keeps_ok_def)

lemma lowerup_ok: "env_ok e \<Longrightarrow> fsm_ok e w \<Longrightarrow> keeps_ok e (fsm_lowerup e w)"
  by (cases "pw_state w") (auto simp: fsm_lowerup_def fsm_ok_def fsm_simps)

lemma lowerdown_ok: "env_ok e \<Longrightarrow> fsm_ok e w \<Longrightarrow> fsm_ok e (fsm_lowerdown e w)"
  by (cases "pw_state w") (auto simp: fsm_lowerdown_def fsm_ok_def fsm_simps)

lemma restart_ok: "env_ok e \<Longrightarrow> fsm_ok e w \<Longrightarrow> keeps_ok e (fsm_restart e w)"
  by (simp add: fsm_restart_def lowerup_ok lowerdown_ok)

lemma open_ok: "env_ok e \<Longrightarrow> fsm_ok e w \<Longrightarrow> keeps_ok e (fsm_open e w)"
proof (cases "pw_state w")
  case CLOSING
  assume "env_ok e" "fsm_ok e w"
  moreover from this CLOSING have "fsm_ok e (goto STOPPING w)" by (auto simp: fsm_ok_def fsm_simps)
  ultimately show ?thesis using CLOSING by (simp add: fsm_open_def restart_ok)
qed (auto simp: fsm_open_def restart_ok, auto simp: fsm_ok_def fsm_simps)

lemma close_ok: "env_ok e \<Longrightarrow> fsm_ok e w \<Longrightarrow> keeps_ok e (fsm_close e reason w)"
  by (cases "pw_state w") (auto simp: fsm_close_def fsm_ok_def fsm_simps Let_def)

lemma timeout_ok: "env_ok e \<Longrightarrow> fsm_ok e w \<Longrightarrow> keeps_ok e (fsm_step e EvTimeout w)"
  by (cases "pw_state w") (auto simp: fsm_timeout_def fsm_ok_def fsm_simps Let_def)

lemma protreject_ok: "env_ok e \<Longrightarrow> fsm_ok e w \<Longrightarrow> keeps_ok e (fsm_protreject e w)"
  by (cases "pw_state w") (auto simp: fsm_protreject_def fsm_ok_def fsm_simps)

lemma rconfreq_ok:
  assumes "env_ok e" and "fsm_ok e w" and "pw_state w \<notin> {INITIAL, STARTING}"
  shows "keeps_ok e (fsm_rconfreq e i inp w)"
proof -
  have m: "mru_ok w" using assms(2) by (simp add: fsm_ok_def)
  obtain c out w2 where r: "fsm_reqci (fe_cb e) inp (reneg e w) = (c, out, w2)" by (cases "fsm_reqci (fe_cb e) inp (reneg e w)")
  have w2: "pw_fsm w2 = pw_fsm (reneg e w)" "pend e w2 = pend e (reneg e w)" "mru_ok w2"
    using env_ok_reqci [OF assms(1), where inp = inp and w = "reneg e w"] reneg_simps(2) [OF assms(1) m] by (simp_all add: r)
  show ?thesis unfolding fsm_rconfreq_def reneg_simps(1) [OF assms(1) m]
    using assms w2 m by (cases "pw_state w"; cases "c = CONFACK"; cases "c = CONFNAK")
      (auto simp: r fsm_ok_def fsm_simps reneg_simps Let_def)
qed

lemma rconfack_ok:
  assumes "env_ok e" and "fsm_ok e w"
  shows "keeps_ok e (fsm_rconfack e i inp w)"
proof -
  obtain g w1 where r: "fsm_ackci (fe_cb e) inp w = (g, w1)" by (cases "fsm_ackci (fe_cb e) inp w")
  have w1: "pw_fsm w1 = pw_fsm w" "pend e w1 = pend e w" "mru_ok w \<Longrightarrow> mru_ok w1"
    using env_ok_ci(1-4) [OF assms(1), where inp = inp and w = w] by (simp_all add: r)
  show ?thesis using assms w1 by (cases "pw_state w") (auto simp: fsm_rconfack_def r fsm_ok_def fsm_simps Let_def)
qed

lemma rconfnakrej_ok:
  assumes "env_ok e" and "fsm_ok e w"
  shows "keeps_ok e (fsm_rconfnakrej e c i inp w)"
proof -
  obtain g w1 where r: "fsm_nakci (fe_cb e) c inp w = (g, w1)" by (cases "fsm_nakci (fe_cb e) c inp w")
  have w1: "pw_fsm w1 = pw_fsm w" "pend e w1 = pend e w" "mru_ok w \<Longrightarrow> mru_ok w1"
    using env_ok_ci(5-8) [OF assms(1), where c = c and inp = inp and w = w] by (simp_all add: r)
  show ?thesis using assms w1 by (cases "pw_state w") (auto simp: fsm_rconfnakrej_def r fsm_ok_def fsm_simps Let_def)
qed

lemma term_ok:
  assumes "env_ok e" and "fsm_ok e w"
  shows "keeps_ok e (fsm_rtermreq e i w)" "pw_state w \<noteq> OPENED \<Longrightarrow> keeps_ok e (fsm_rtermack e w)" "fsm_ok e (fsm_rcoderej inp w)"
  using assms by (cases "pw_state w"; auto simp: fsm_rtermreq_def fsm_rtermack_def fsm_rcoderej_def fsm_ok_def fsm_simps Let_def)+

lemma dispatch_ok:
  assumes "env_ok e" and "fsm_ok e w" and "pw_state w \<notin> {INITIAL, STARTING}" and "c = TERMACK \<longrightarrow> pw_state w \<noteq> OPENED"
  shows "keeps_ok e (fsm_dispatch e c i inp packet w)"
proof -
  obtain k w1 where x: "fsm_extcode (fe_cb e) c i inp w = (k, w1)" by (cases "fsm_extcode (fe_cb e) c i inp w")
  have w1: "pw_fsm w1 = pw_fsm w" "pend e w1 = pend e w" "mru_ok w \<Longrightarrow> mru_ok w1"
    using env_ok_ci(9-12) [OF assms(1), where c = c and i = i and inp = inp and w = w] by (simp_all add: x)
  have "fsm_ok e w1" "keeps_ok e (fsm_sdata CODEREJ j packet (set_fsm (\<lambda>f. f\<lparr>f_id := f_id f + 1\<rparr>) w1))" for j
    using assms(2) w1 by (simp_all add: fsm_ok_def fsm_simps)
  then show ?thesis unfolding fsm_dispatch_def x
    using assms(4) rconfreq_ok [OF assms(1-3)] rconfack_ok [OF assms(1,2)] rconfnakrej_ok [OF assms(1,2)] term_ok [OF assms(1,2)]
    by (simp add: Let_def)
qed

lemma input_ok:
  assumes "env_ok e" and "fsm_ok e w" and "p ! 0 = TERMACK \<longrightarrow> pw_state w \<noteq> OPENED"
  shows "keeps_ok e (fsm_input e p w)"
  using assms(2,3) dispatch_ok [OF assms(1,2)] by (simp add: fsm_input_def Let_def)

definition quirk :: "fsm_event \<Rightarrow> fsm_state \<Rightarrow> bool" where
  "quirk ev s \<longleftrightarrow> s = OPENED \<and> (\<exists>p. ev = EvPacket p \<and> p ! 0 = TERMACK)"

lemma step_ok: "env_ok e \<Longrightarrow> fsm_ok e w \<Longrightarrow> \<not> quirk ev (pw_state w) \<Longrightarrow> keeps_ok e (fsm_step e ev w)"
  by (cases ev) (auto simp: lowerup_ok lowerdown_ok open_ok close_ok protreject_ok input_ok quirk_def simp del: fsm_step.simps(5) intro: timeout_ok)

section \<open>Runs\<close>

text \<open>The states an initialised automaton can reach, when no terminate ack arrives in state Opened.\<close>

inductive fsm_reach :: "('h, 'v) fsm_env \<Rightarrow> ('h, 'v) ppp \<Rightarrow> ('h, 'v) ppp \<Rightarrow> bool" for e w0 where
  reach_start: "fsm_reach e w0 (fsm_init w0)"
| reach_step: "fsm_reach e w0 w \<Longrightarrow> \<not> quirk ev (pw_state w) \<Longrightarrow> fsm_step e ev w = Some w' \<Longrightarrow> fsm_reach e w0 w'"

lemma reach_ok: "fsm_reach e w0 w \<Longrightarrow> env_ok e \<Longrightarrow> mru_ok w0 \<Longrightarrow> pend e w0 = 0 \<Longrightarrow> fsm_ok e w"
proof (induction rule: fsm_reach.induct)
  case reach_start
  then show ?case by (simp add: fsm_init_def fsm_ok_def fsm_simps)
next
  case (reach_step w ev w')
  then show ?case using step_ok [of e w ev] by (simp add: keeps_ok_def)
qed

definition example_fsm_cb :: "(char, nat) fsm_callbacks" where
  "example_fsm_cb = \<lparr>cb_resetci = None, cb_cilen = None, cb_addci = None, cb_ackci = None, cb_nakci = None, cb_rejci = None, cb_reqci = None,
     cb_up = Some (\<lambda>w. w\<lparr>pw_v := pw_v w + 1\<rparr>), cb_down = Some (\<lambda>w. w\<lparr>pw_v := pw_v w - 1\<rparr>), cb_starting = None, cb_finished = Some (\<lambda>w. w),
     cb_retransmit = None, cb_extcode = None\<rparr>"

definition example_fsm_env :: "(char, nat) fsm_env" where
  "example_fsm_env = \<lparr>fe_cb = example_fsm_cb, fe_handler = CHR ''f'', fe_self = 0x1000, fe_clock = (\<lambda>n. \<lparr>tv_sec = word_of_nat n, tv_usec = 0\<rparr>),
     fe_mem = (\<lambda>_. True)\<rparr>"

definition example_ppp :: "fsm_state \<Rightarrow> (char, nat) ppp" where
  "example_ppp s = \<lparr>pw_fsm = \<lparr>f_protocol = 0xC021, f_state = s, f_flags = 0, f_id = 1, f_reqid = 1, f_seen_ack = True, f_timeouttime = 3,
     f_maxconfreqtransmits = 10, f_retransmits = 9, f_maxtermtransmits = 2, f_nakloops = 0, f_maxnakloops = 5, f_term_reason = []\<rparr>,
     pw_el = eloop_init 0, pw_tick = 0, pw_mru = 1500, pw_out = [], pw_v = 0\<rparr>"

lemma example_fsm_ok:
  "env_ok example_fsm_env" "mru_ok (example_ppp s)" "pend example_fsm_env (example_ppp s) = 0" "no_options (pw_fsm (example_ppp s))"
  "s \<notin> {CLOSING, STOPPING, REQSENT, ACKRCVD, ACKSENT} \<Longrightarrow> fsm_ok example_fsm_env (example_ppp s)"
proof -
  show m: "mru_ok (example_ppp s)" by (simp add: mru_ok_def example_ppp_def HEADERLEN_def PPP_MRU_def)
  show p: "pend example_fsm_env (example_ppp s) = 0" by (simp add: pend_def el_pending_def example_ppp_def eloop_init_def)
  show "no_options (pw_fsm (example_ppp s))" by (simp add: no_options_def example_ppp_def)
  show "env_ok example_fsm_env"
    by (simp add: env_ok_def example_fsm_env_def example_fsm_cb_def ELOOP_ALL_CTX_def cb_inert_def fsm_inert_def pend_def mru_ok_def)
  show "s \<notin> {CLOSING, STOPPING, REQSENT, ACKRCVD, ACKSENT} \<Longrightarrow> fsm_ok example_fsm_env (example_ppp s)"
    using m p by (simp add: fsm_ok_def example_ppp_def)
qed

section \<open>The claims\<close>

theorem fsm_is_rfc1661_witness:
  "\<exists>w'. fsm_step example_fsm_env (EvPacket [TERMREQ, 7, 0, 4]) (example_ppp OPENED) = Some w' \<and> pw_state w' = STOPPING \<and> acts w' = [Tld, Sta]"
proof -
  let ?ev = "EvPacket [TERMREQ, 7, 0, 4]" and ?w = "example_ppp OPENED"
  have r: "rfc_of example_fsm_env ?ev ?w = Some RTR" by (simp add: HEADERLEN_def rfc_packet_def fsm_codes)
  have s: "pw_state ?w = OPENED" "acts ?w = []" "filter (visible (fe_cb example_fsm_env)) [Tld, Zrc, Sta] = [Tld, Sta]"
    by (simp_all add: example_ppp_def acts_def example_fsm_env_def example_fsm_cb_def)
  have n: "0 \<le> fst (fsm_nakci (fe_cb example_fsm_env) c d ?w)" for c d by (simp add: fsm_nakci_def example_fsm_env_def example_fsm_cb_def)
  show ?thesis using fsm_is_rfc1661 [OF example_fsm_ok(1,2,4) n, of ?ev] r s by simp
qed



fun fsm_timeouts :: "('h, 'v) fsm_env \<Rightarrow> nat \<Rightarrow> ('h, 'v) ppp \<Rightarrow> ('h, 'v) ppp option" where
  "fsm_timeouts e 0 w = Some w"
| "fsm_timeouts e (Suc n) w = do { w \<leftarrow> fsm_step e EvTimeout w; fsm_timeouts e n w }"

abbreviation closing :: "('h, 'v) ppp \<Rightarrow> bool" where
  "closing w \<equiv> pw_state w \<in> {CLOSING, STOPPING}"

lemma timeout_again:
  assumes "env_ok e" and "fsm_ok e w" and "pw_state w \<in> {CLOSING, STOPPING, REQSENT, ACKRCVD, ACKSENT}" and "0 < f_retransmits (pw_fsm w)"
  shows "\<exists>w'. fsm_step e EvTimeout w = Some w' \<and> fsm_ok e w' \<and> pw_state w' \<in> {CLOSING, STOPPING, REQSENT, ACKRCVD, ACKSENT}
    \<and> (pw_state w' = CLOSING) = (pw_state w = CLOSING) \<and> closing w' = closing w \<and> f_retransmits (pw_fsm w') = f_retransmits (pw_fsm w) - 1
    \<and> f_flags (pw_fsm w') = f_flags (pw_fsm w) \<and> acts w' = acts w @ [if closing w then Str else Scr]"
  using assms timeout_ok [OF assms(1,2)]
  by (cases "pw_state w") (auto simp: keeps_ok_def fsm_timeout_def fsm_simps fsm_ok_def)

lemma timeout_last:
  assumes "env_ok e" and "fsm_ok e w" and "pw_state w \<in> {CLOSING, STOPPING, REQSENT, ACKRCVD, ACKSENT}" and "f_retransmits (pw_fsm w) \<le> 0"
  shows "\<exists>w'. fsm_step e EvTimeout w = Some w' \<and> pend e w' = 0 \<and> pw_state w' = (if pw_state w = CLOSING then CLOSED else STOPPED)
    \<and> acts w' = acts w @ (if cb_finished (fe_cb e) \<noteq> None \<and> (closing w \<or> f_flags (pw_fsm w) AND OPT_PASSIVE = 0) then [Tlf] else [])"
  using assms by (cases "pw_state w") (auto simp: fsm_timeout_def fsm_simps fsm_ok_def Let_def)

text \<open>Claim C16: the automaton gives up. When no answer comes, it repeats its request as often as the counter allows and no more, and then, at the
  next time-out, is closed or stopped, tells the lower layer unless it is passive, and has no timer left.\<close>

theorem fsm_gives_up:
  assumes "env_ok e" and "fsm_ok e w" and "pw_state w \<in> {CLOSING, STOPPING, REQSENT, ACKRCVD, ACKSENT}" and "n = nat (f_retransmits (pw_fsm w))"
  shows "\<exists>w'. fsm_timeouts e (Suc n) w = Some w' \<and> pend e w' = 0 \<and> pw_state w' = (if pw_state w = CLOSING then CLOSED else STOPPED)
    \<and> acts w' = acts w @ replicate n (if closing w then Str else Scr)
        @ (if cb_finished (fe_cb e) \<noteq> None \<and> (closing w \<or> f_flags (pw_fsm w) AND OPT_PASSIVE = 0) then [Tlf] else [])"
  using assms(2-4)
proof (induction n arbitrary: w)
  case 0
  then show ?case using timeout_last [OF assms(1) 0(1,2)] by (auto simp del: fsm_step.simps)
next
  case (Suc n)
  then have p: "0 < f_retransmits (pw_fsm w)" by simp
  obtain w1 where w1: "fsm_step e EvTimeout w = Some w1" "fsm_ok e w1" "pw_state w1 \<in> {CLOSING, STOPPING, REQSENT, ACKRCVD, ACKSENT}"
      "(pw_state w1 = CLOSING) = (pw_state w = CLOSING)" "closing w1 = closing w" "f_retransmits (pw_fsm w1) = f_retransmits (pw_fsm w) - 1"
      "f_flags (pw_fsm w1) = f_flags (pw_fsm w)" "acts w1 = acts w @ [if closing w then Str else Scr]"
    using timeout_again [OF assms(1) Suc.prems(1,2) p] by blast
  have n: "n = nat (f_retransmits (pw_fsm w1))" using Suc.prems(3) w1(6) by simp
  obtain w' where "fsm_timeouts e (Suc n) w1 = Some w'" "pend e w' = 0" "pw_state w' = (if pw_state w1 = CLOSING then CLOSED else STOPPED)"
      "acts w' = acts w1 @ replicate n (if closing w1 then Str else Scr)
        @ (if cb_finished (fe_cb e) \<noteq> None \<and> (closing w1 \<or> f_flags (pw_fsm w1) AND OPT_PASSIVE = 0) then [Tlf] else [])"
    using Suc.IH [OF w1(2,3) n] by blast
  moreover have "fsm_timeouts e (Suc (Suc n)) w = fsm_timeouts e (Suc n) w1" by (subst fsm_timeouts.simps(2)) (simp only: w1(1) bind.bind_lunit)
  ultimately show ?case unfolding w1(4,5,7,8) by simp
qed

theorem fsm_gives_up_witness:
  "\<exists>w w'. fsm_open example_fsm_env (example_ppp CLOSED) = Some w \<and> fsm_timeouts example_fsm_env 10 w = Some w' \<and> pw_state w' = STOPPED
    \<and> acts w' = replicate 10 Scr @ [Tlf]"
proof -
  let ?w = "goto REQSENT (sconf example_fsm_env False (example_ppp CLOSED))"
  have o: "fsm_open example_fsm_env (example_ppp CLOSED) = Some ?w"
    using sconf_simps(1) [OF example_fsm_ok(1,2), of False CLOSED]
    by (simp add: fsm_open_def) (simp add: example_ppp_def)
  have k: "fsm_ok example_fsm_env ?w" using open_ok [OF example_fsm_ok(1), of "example_ppp CLOSED"] example_fsm_ok(5) [of CLOSED] o by simp
  have c: "f_maxconfreqtransmits (pw_fsm (example_ppp CLOSED)) = 10" "f_flags (pw_fsm (example_ppp CLOSED)) = 0" "acts (example_ppp CLOSED) = []"
    by (simp_all add: example_ppp_def acts_def)
  have f: "pw_state ?w = REQSENT" "9 = nat (f_retransmits (pw_fsm ?w))" "f_flags (pw_fsm ?w) = 0" "acts ?w = [Scr]"
    using example_fsm_ok(1,2) by (simp_all add: goto_simps sconf_simps c)
  have v: "cb_finished (fe_cb example_fsm_env) \<noteq> None" by (simp add: example_fsm_env_def example_fsm_cb_def)
  have t: "(10 :: nat) = Suc 9" by simp
  have "\<exists>w'. fsm_timeouts example_fsm_env (Suc 9) ?w = Some w' \<and> pend example_fsm_env w' = 0
      \<and> pw_state w' = (if pw_state ?w = CLOSING then CLOSED else STOPPED) \<and> acts w' = acts ?w @ replicate 9 (if closing ?w then Str else Scr)
        @ (if cb_finished (fe_cb example_fsm_env) \<noteq> None \<and> (closing ?w \<or> f_flags (pw_fsm ?w) AND OPT_PASSIVE = 0) then [Tlf] else [])"
    by (rule fsm_gives_up [OF example_fsm_ok(1) k _ f(2)]) (simp add: f(1))
  then obtain w' where "fsm_timeouts example_fsm_env (Suc 9) ?w = Some w'" "pw_state w' = STOPPED" "acts w' = Scr # replicate 9 Scr @ [Tlf]"
    unfolding f(1,3,4) using v by auto
  moreover have "Scr # replicate 9 Scr @ [Tlf] = replicate (Suc 9) Scr @ [Tlf]" by (simp only: replicate_Suc append_Cons)
  ultimately show ?thesis unfolding t using o by metis
qed

text \<open>Claim C17: a terminate ack in state Opened leaves the automaton in a state it should not be in. The upper layer is told that the link is down
  and a configure request is sent with its timer, but the state stays Opened where the RFC goes to Req-Sent. A close then starts a second
  timer beside the first.\<close>

theorem rtermack_opened:
  assumes "env_ok e" and "fsm_ok e w" and "pw_state w = OPENED"
  shows "\<exists>w1 w2. fsm_input e [TERMACK, i, 0, 4] w = Some w1 \<and> pw_state w1 = OPENED \<and> acts w1 = acts w @ filter (visible (fe_cb e)) [Tld, Scr]
    \<and> pend e w1 = 1 \<and> fsm_close e reason w1 = Some w2 \<and> pend e w2 = 2"
proof -
  let ?w1 = "sconf e False (fsm_call FoDown (cb_down (fe_cb e)) w)"
  have m: "mru_ok w" "pend e w = 0" using assms(2,3) by (simp_all add: fsm_ok_def)
  have d: "mru_ok (fsm_call FoDown (cb_down (fe_cb e)) w)" using m(1) assms(1) by (simp add: fsm_simps)
  have w1: "pw_state ?w1 = OPENED" "acts ?w1 = acts w @ filter (visible (fe_cb e)) [Tld, Scr]" "pend e ?w1 = 1" "mru_ok ?w1"
    using assms(1,3) m d by (simp_all add: fsm_simps)
  have "fsm_input e [TERMACK, i, 0, 4] w = fsm_rtermack e w"
    using assms(3) by (simp add: fsm_input_def fsm_dispatch_def HEADERLEN_def fsm_codes)
  then have "fsm_input e [TERMACK, i, 0, 4] w = Some ?w1" using assms(1,3) d by (simp add: fsm_rtermack_def fsm_simps)
  moreover have "\<exists>w2. fsm_close e reason ?w1 = Some w2 \<and> pend e w2 = 2"
    using assms(1) w1 by (simp add: fsm_close_def Let_def fsm_simps)
  ultimately show ?thesis using w1 by blast
qed

theorem rtermack_opened_witness:
  "\<exists>w1. fsm_input example_fsm_env [TERMACK, 1, 0, 4] (example_ppp OPENED) = Some w1 \<and> pw_state w1 = OPENED \<and> pend example_fsm_env w1 = 1"
  using rtermack_opened [OF example_fsm_ok(1), of "example_ppp OPENED" 1 "[]"] example_fsm_ok(5) [of OPENED]
  by (auto simp: example_ppp_def)

text \<open>Claim C18: the code reject can leave the output buffer. The packet that is sent back has a header of its own and the whole rejected packet
  behind it, bounded by the MRU the peer asked for but not by the buffer: once the peer has negotiated an MRU of at least 1504, a packet of
  1500 bytes with an unknown code is copied four bytes past the end.\<close>

theorem coderej_overflows:
  assumes "pw_state w \<notin> {INITIAL, STARTING}" and "1504 \<le> pw_mru w" and "length p = 1500" and "p ! 2 = 0x05" and "p ! 3 = 0xDC"
    and "p ! 0 \<notin> {CONFREQ, CONFACK, CONFNAK, CONFREJ, TERMREQ, TERMACK, CODEREJ}"
    and "fsm_extcode (fe_cb e) (p ! 0) (p ! 1) (drop HEADERLEN p) w = (False, w)"
  shows "fsm_input e p w = None"
proof -
  have l: "unat (un_be16 [p ! 2, p ! 3]) = 1500" using assms(4,5) by simp
  have "fsm_input e p w = fsm_dispatch e (p ! 0) (p ! 1) (drop HEADERLEN p) p w"
    using assms(1,3) l by (simp add: fsm_input_def HEADERLEN_def)
  also have "\<dots> = fsm_sdata CODEREJ (f_id (pw_fsm w) + 1) p (set_fsm (\<lambda>f. f\<lparr>f_id := f_id f + 1\<rparr>) w)"
    using assms(6,7) by (simp add: fsm_dispatch_def set_fsm_simps)
  also have "\<dots> = None" using assms(2,3)
    by (simp add: fsm_sdata_def set_fsm_def HEADERLEN_def PPP_HDRLEN_def PPP_MRU_def outpacket_size_def)
  finally show ?thesis .
qed

theorem coderej_overflows_witness:
  "fsm_input example_fsm_env ([99, 1, 0x05, 0xDC] @ replicate 1496 0) ((example_ppp REQSENT)\<lparr>pw_mru := 1504\<rparr>) = None"
proof (rule coderej_overflows)
  show "fsm_extcode (fe_cb example_fsm_env) (([99, 1, 0x05, 0xDC] @ replicate 1496 0) ! 0) (([99, 1, 0x05, 0xDC] @ replicate 1496 0) ! 1)
      (drop HEADERLEN ([99, 1, 0x05, 0xDC] @ replicate 1496 0)) ((example_ppp REQSENT)\<lparr>pw_mru := 1504\<rparr>) = (False, (example_ppp REQSENT)\<lparr>pw_mru := 1504\<rparr>)"
    by (simp add: fsm_extcode_def example_fsm_env_def example_fsm_cb_def)
qed (simp_all add: example_ppp_def fsm_codes)

end
