(* ===== verification/Ppp_Peers.thy ===== *)
theory Ppp_Peers
  imports Ppp_Fsm
begin

text \<open>
  Two automata of \<^verbatim>\<open>fsm.c\<close> on one link: what one hands to \<^verbatim>\<open>output\<close>, without the four bytes of the PPP header, is what the other gets as
  its input packet.
\<close>

definition last_sent :: "('h, 'v) ppp \<Rightarrow> u8 list" where
  "last_sent w = (case last (pw_out w) of FoSend b \<Rightarrow> drop PPP_HDRLEN b | _ \<Rightarrow> [])"

text \<open>Each side opens and finds its lower layer up, which makes it send its request. Then each request, and each answer to it, reaches the
  other side.\<close>

definition fsm_start :: "('h, 'v) fsm_env \<Rightarrow> ('h, 'v) ppp \<Rightarrow> ('h, 'v) ppp option" where
  "fsm_start e w = do { w \<leftarrow> fsm_open e w; fsm_lowerup e w }"

definition negotiate :: "('h, 'v) fsm_env \<Rightarrow> ('k, 'u) fsm_env \<Rightarrow> ('h, 'v) ppp \<Rightarrow> ('k, 'u) ppp \<Rightarrow> (('h, 'v) ppp \<times> ('k, 'u) ppp) option" where
  "negotiate ea eb a b = do {
     a0 \<leftarrow> fsm_start ea a;
     b0 \<leftarrow> fsm_start eb b;
     a1 \<leftarrow> fsm_input ea (last_sent b0) a0;
     b1 \<leftarrow> fsm_input eb (last_sent a0) b0;
     a2 \<leftarrow> fsm_input ea (last_sent b1) a1;
     b2 \<leftarrow> fsm_input eb (last_sent a1) b1;
     Some (a2, b2) }"

text \<open>The callbacks leave the MRU alone. A side accepts another when it acknowledges any options that one may send, unchanged, and it is settled
  when it recognises its own in an acknowledgement.\<close>

definition mru_kept :: "('h, 'v) fsm_env \<Rightarrow> bool" where
  "mru_kept e \<longleftrightarrow> (\<forall>w. pw_mru (run_cb (cb_resetci (fe_cb e)) w) = pw_mru w)
     \<and> (\<forall>ev w. pw_mru (fsm_call ev (cb_starting (fe_cb e)) w) = pw_mru w)
     \<and> (\<forall>w. pw_mru (snd (fsm_ci (fe_cb e) w)) = pw_mru w)
     \<and> (\<forall>d w. pw_mru (snd (snd (fsm_reqci (fe_cb e) d w))) = pw_mru w)"

definition accepts :: "('h, 'v) fsm_env \<Rightarrow> ('k, 'u) fsm_env \<Rightarrow> bool" where
  "accepts e p \<longleftrightarrow> (\<forall>v w. pw_mru v = 1500 \<longrightarrow>
     (\<exists>w'. fsm_reqci (fe_cb e) (fst (fsm_ci (fe_cb p) v)) w = (CONFACK, fst (fsm_ci (fe_cb p) v), w')))"

definition settled :: "('h, 'v) fsm_env \<Rightarrow> bool" where
  "settled e \<longleftrightarrow> (\<forall>v w. pw_mru v = 1500 \<longrightarrow> fst (fsm_ackci (fe_cb e) (fst (fsm_ci (fe_cb e) v)) w) \<noteq> 0)"

lemma mru_keptD:
  assumes "mru_kept e"
  shows "pw_mru (run_cb (cb_resetci (fe_cb e)) w) = pw_mru w" "pw_mru (fsm_call ev (cb_starting (fe_cb e)) w) = pw_mru w"
    "pw_mru (snd (fsm_ci (fe_cb e) w)) = pw_mru w" "pw_mru (snd (snd (fsm_reqci (fe_cb e) d w))) = pw_mru w"
  using assms unfolding mru_kept_def by blast+

lemma input_frame:
  assumes "length d \<le> 1496" and "pw_state w \<notin> {INITIAL, STARTING}"
  shows "fsm_input e (drop PPP_HDRLEN (fsm_frame p c i d)) w = fsm_dispatch e c i d ([c, i] @ be16 (word_of_nat (length d + 4)) @ d) w"
proof -
  let ?p = "[c, i] @ be16 (word_of_nat (length d + 4)) @ d"
  have p: "drop PPP_HDRLEN (fsm_frame p c i d) = ?p" by (simp add: fsm_frame_def PPP_HDRLEN_def be16_def HEADERLEN_def)
  have "[?p ! 2, ?p ! 3] = be16 (word_of_nat (length d + 4))" by (simp add: be16_def)
  then have l: "unat (un_be16 [?p ! 2, ?p ! 3]) = length d + 4"
    using assms(1) by (simp add: unat_of_nat take_bit_nat_eq_self del: of_nat_add)
  have "length ?p = length d + 4" "?p ! 0 = c" "?p ! 1 = i" "drop 4 ?p = d" by (simp_all add: be16_def)
  then show ?thesis unfolding p fsm_input_def Let_def l using assms(2) by (simp add: HEADERLEN_def)
qed

lemma sconf_out:
  assumes "env_ok e" and "mru_kept e" and "pw_mru w = 1500"
  shows "\<exists>v d. pw_out (sconf e False w) = pw_out w @ [FoSend (fsm_frame (f_protocol (pw_fsm w)) CONFREQ (f_reqid (pw_fsm (sconf e False w))) d)]
    \<and> pw_mru v = 1500 \<and> d = fst (fsm_ci (fe_cb e) v) \<and> length d \<le> 1496 \<and> pw_mru (sconf e False w) = 1500"
proof -
  define w1 where "w1 = (if pw_state w \<notin> {REQSENT, ACKRCVD, ACKSENT} then set_fsm (\<lambda>f. f\<lparr>f_nakloops := 0\<rparr>) (run_cb (cb_resetci (fe_cb e)) w) else w)"
  define w3 where "w3 = set_fsm (\<lambda>f. f\<lparr>f_seen_ack := False\<rparr>)
    (set_fsm (\<lambda>f. f\<lparr>f_retransmits := f_maxconfreqtransmits f, f_id := f_id f + 1, f_reqid := f_id f + 1\<rparr>) w1)"
  obtain d w4 where ci: "fsm_ci (fe_cb e) w3 = (d, w4)" by (cases "fsm_ci (fe_cb e) w3")
  have m: "mru_ok w" using assms(3) by (simp add: mru_ok_def HEADERLEN_def PPP_MRU_def)
  have o1: "pw_out (run_cb (cb_resetci (fe_cb e)) w) = pw_out w"
    using env_okD(3) [OF assms(1)] fsm_inertD(2) by (cases "cb_resetci (fe_cb e)") (auto simp: run_cb_def cb_inert_def)
  have w3: "pw_mru w3 = 1500" "pw_out w3 = pw_out w" "f_protocol (pw_fsm w3) = f_protocol (pw_fsm w)"
    using assms(3) mru_keptD(1) [OF assms(2)] o1 call_inert(5) [OF env_okD(3) [OF assms(1)]] by (simp_all add: w3_def w1_def set_fsm_def)
  have m3: "mru_ok w3" using w3(1) by (simp add: mru_ok_def HEADERLEN_def PPP_MRU_def)
  have w4: "pw_fsm w4 = pw_fsm w3" "length d \<le> 1496" "pw_mru w4 = 1500"
    using ci_inert(1) [OF assms(1), of w3] ci_inert(5) [OF assms(1) m3] mru_keptD(3) [OF assms(2), of w3] w3(1)
    by (simp_all add: ci PPP_MRU_def HEADERLEN_def)
  have o4: "pw_out w4 = pw_out w" using ci_inert(6) [OF assms(1), of w3] w3(2) by (simp add: ci)
  have m4: "mru_ok w4" using w4(3) by (simp add: mru_ok_def HEADERLEN_def PPP_MRU_def)
  have s: "sconf e False w = TIMEOUT e (set_fsm (\<lambda>f. f\<lparr>f_retransmits := f_retransmits f - 1\<rparr>) (sent CONFREQ (f_reqid (pw_fsm w4)) d w4))"
    using w4(2) m4 unfolding sconf_def fsm_sconfreq_def Let_def w1_def [symmetric]
    by (simp add: w3_def [symmetric] ci fsm_simps outpacket_size_def PPP_MRU_def PPP_HDRLEN_def HEADERLEN_def)
  have "f_reqid (pw_fsm (sconf e False w)) = f_reqid (pw_fsm w4)" unfolding s by (simp add: fsm_simps)
  moreover have "pw_out (sconf e False w) = pw_out w @ [FoSend (fsm_frame (f_protocol (pw_fsm w)) CONFREQ (f_reqid (pw_fsm w4)) d)]"
    unfolding s using w4 w3(3) o4 by (simp add: TIMEOUT_def set_fsm_def sent_def HEADERLEN_def)
  moreover have "pw_mru (sconf e False w) = 1500" unfolding s using w4(3) by (simp add: TIMEOUT_def set_fsm_def sent_def)
  moreover have "d = fst (fsm_ci (fe_cb e) w3)" by (simp add: ci)
  ultimately show ?thesis using w4(2) w3(1) by metis
qed

section \<open>The phases of a negotiation\<close>

lemma mru_1500: "pw_mru w = 1500 \<Longrightarrow> mru_ok w"
  by (simp add: mru_ok_def HEADERLEN_def PPP_MRU_def)

text \<open>Having sent its request, a side is in state Req-Sent with the answer outstanding.\<close>

lemma peer_start:
  assumes "env_ok e" and "mru_kept e" and "fsm_ok e w" and "pw_mru w = 1500" and "pw_state w = INITIAL" and "f_flags (pw_fsm w) AND OPT_SILENT = 0"
  shows "\<exists>w' p v d. fsm_start e w = Some w' \<and> pw_state w' = REQSENT \<and> fsm_ok e w' \<and> pw_mru w' = 1500 \<and> \<not> f_seen_ack (pw_fsm w')
    \<and> last_sent w' = drop PPP_HDRLEN (fsm_frame p CONFREQ (f_reqid (pw_fsm w')) d) \<and> d = fst (fsm_ci (fe_cb e) v) \<and> pw_mru v = 1500 \<and> length d \<le> 1496"
proof -
  define w1 where "w1 = fsm_call FoStarting (cb_starting (fe_cb e)) (goto STARTING w)"
  have o: "fsm_open e w = Some w1" using assms(5) by (simp add: fsm_open_def w1_def)
  have ok1: "fsm_ok e w1" using open_ok [OF assms(1,3)] by (simp add: o)
  have w1: "pw_mru w1 = 1500" "pw_state w1 = STARTING" "f_flags (pw_fsm w1) AND OPT_SILENT = 0"
    using assms by (simp_all add: w1_def mru_keptD fsm_simps) (simp add: goto_def set_fsm_def)
  obtain v d where c: "pw_out (sconf e False w1) = pw_out w1 @ [FoSend (fsm_frame (f_protocol (pw_fsm w1)) CONFREQ (f_reqid (pw_fsm (sconf e False w1))) d)]"
      "pw_mru v = 1500" "d = fst (fsm_ci (fe_cb e) v)" "length d \<le> 1496" "pw_mru (sconf e False w1) = 1500"
    using sconf_out [OF assms(1,2) w1(1)] by blast
  have l: "fsm_lowerup e w1 = Some (goto REQSENT (sconf e False w1))"
    using w1 assms(1) mru_1500 [OF w1(1)] by (simp add: fsm_lowerup_def fsm_simps)
  have ok: "fsm_ok e (goto REQSENT (sconf e False w1))" using lowerup_ok [OF assms(1) ok1] by (simp add: l)
  have "last_sent (goto REQSENT (sconf e False w1))
      = drop PPP_HDRLEN (fsm_frame (f_protocol (pw_fsm w1)) CONFREQ (f_reqid (pw_fsm (goto REQSENT (sconf e False w1)))) d)"
    using c(1) by (simp add: last_sent_def goto_def set_fsm_def)
  moreover have "fsm_start e w = Some (goto REQSENT (sconf e False w1))" by (simp add: fsm_start_def o l)
  moreover have "pw_mru (goto REQSENT (sconf e False w1)) = 1500" using c(5) by (simp add: goto_def set_fsm_def)
  moreover have "pw_state (goto REQSENT (sconf e False w1)) = REQSENT" "\<not> f_seen_ack (pw_fsm (goto REQSENT (sconf e False w1)))"
    using assms(1) mru_1500 [OF w1(1)] by (simp_all add: fsm_simps)
  ultimately show ?thesis using c(2-4) ok by blast
qed

text \<open>The request of the peer, acceptable, is acknowledged under its own identifier.\<close>

lemma peer_request:
  assumes "env_ok e" and "mru_kept e" and "fsm_ok e w" and "pw_mru w = 1500" and "pw_state w = REQSENT" and "length d \<le> 1496"
    and "\<And>u. \<exists>u'. fsm_reqci (fe_cb e) d u = (CONFACK, d, u')"
  shows "\<exists>w' q. fsm_input e (drop PPP_HDRLEN (fsm_frame p CONFREQ i d)) w = Some w' \<and> pw_state w' = ACKSENT \<and> fsm_ok e w'
    \<and> f_reqid (pw_fsm w') = f_reqid (pw_fsm w) \<and> f_seen_ack (pw_fsm w') = f_seen_ack (pw_fsm w)
    \<and> last_sent w' = drop PPP_HDRLEN (fsm_frame q CONFACK i d)"
proof -
  obtain u where r: "fsm_reqci (fe_cb e) d w = (CONFACK, d, u)" using assms(7) by blast
  have u: "pw_fsm u = pw_fsm w" "pw_mru u = 1500"
    using env_ok_reqci(1) [OF assms(1), of d w] mru_keptD(4) [OF assms(2), of d w] assms(4) by (simp_all add: r)
  define w' where "w' = set_fsm (\<lambda>f. f\<lparr>f_nakloops := 0\<rparr>) (goto ACKSENT (sent CONFACK i d u))"
  have rr: "fsm_rconfreq e i d w = Some w'"
    using assms(5) u mru_1500 [OF u(2)] by (simp add: fsm_rconfreq_def fsm_renegotiate_def r fsm_simps w'_def Let_def)
  have f: "fsm_input e (drop PPP_HDRLEN (fsm_frame p CONFREQ i d)) w = Some w'"
    using input_frame [OF assms(6), of w e p CONFREQ i] assms(5) by (simp add: fsm_dispatch_def rr)
  have "drop PPP_HDRLEN (fsm_frame p CONFREQ i d) ! 0 \<noteq> TERMACK" by (simp add: fsm_frame_def PPP_HDRLEN_def be16_def fsm_codes)
  then have ok: "fsm_ok e w'" using input_ok [OF assms(1,3), of "drop PPP_HDRLEN (fsm_frame p CONFREQ i d)"] by (simp add: f)
  have "last_sent w' = drop PPP_HDRLEN (fsm_frame (f_protocol (pw_fsm u)) CONFACK i d)"
    using assms(6) u(2) by (simp add: last_sent_def w'_def set_fsm_def goto_def sent_def HEADERLEN_def)
  moreover have "pw_state w' = ACKSENT" "f_reqid (pw_fsm w') = f_reqid (pw_fsm w)" "f_seen_ack (pw_fsm w') = f_seen_ack (pw_fsm w)"
    using u by (simp_all add: w'_def fsm_simps)
  ultimately show ?thesis using f ok by blast
qed

text \<open>The acknowledgement of the last request opens the link.\<close>

lemma peer_ack:
  assumes "env_ok e" and "fsm_ok e w" and "pw_state w = ACKSENT" and "\<not> f_seen_ack (pw_fsm w)" and "length d \<le> 1496"
    and "fst (fsm_ackci (fe_cb e) d w) \<noteq> 0"
  shows "\<exists>w'. fsm_input e (drop PPP_HDRLEN (fsm_frame p CONFACK (f_reqid (pw_fsm w)) d)) w = Some w' \<and> pw_state w' = OPENED \<and> fsm_ok e w'
    \<and> acts w' = acts w @ (if cb_up (fe_cb e) = None then [] else [Tlu])"
proof -
  obtain g u where r: "fsm_ackci (fe_cb e) d w = (g, u)" by (cases "fsm_ackci (fe_cb e) d w")
  have u: "pw_fsm u = pw_fsm w" "acts u = acts w" using env_ok_ci(1,2) [OF assms(1), of d w] by (simp_all add: r)
  define w' where "w' = fsm_call FoUp (cb_up (fe_cb e)) (set_fsm (\<lambda>f. f\<lparr>f_state := OPENED, f_retransmits := f_maxconfreqtransmits f\<rparr>)
    (UNTIMEOUT e (set_fsm (\<lambda>f. f\<lparr>f_seen_ack := True\<rparr>) u)))"
  have c: "CONFACK \<noteq> CONFREQ" "CONFACK \<noteq> TERMACK" by (simp_all add: fsm_codes)
  have f: "fsm_input e (drop PPP_HDRLEN (fsm_frame p CONFACK (f_reqid (pw_fsm w)) d)) w = Some w'"
    using input_frame [OF assms(5), of w e p CONFACK "f_reqid (pw_fsm w)"] assms u c
    by (simp add: fsm_dispatch_def fsm_rconfack_def r fsm_simps w'_def Let_def)
  have "drop PPP_HDRLEN (fsm_frame p CONFACK (f_reqid (pw_fsm w)) d) ! 0 \<noteq> TERMACK" using c by (simp add: fsm_frame_def PPP_HDRLEN_def be16_def)
  then have "fsm_ok e w'" using input_ok [OF assms(1,2), of "drop PPP_HDRLEN (fsm_frame p CONFACK (f_reqid (pw_fsm w)) d)"] by (simp add: f)
  moreover have "pw_state w' = OPENED" "acts w' = acts w @ (if cb_up (fe_cb e) = None then [] else [Tlu])"
    using assms(1) u by (simp_all add: w'_def fsm_simps)
  ultimately show ?thesis using f by blast
qed

section \<open>The claim\<close>

definition peer_ready :: "('h, 'v) fsm_env \<Rightarrow> ('h, 'v) ppp \<Rightarrow> bool" where
  "peer_ready e w \<longleftrightarrow> env_ok e \<and> mru_kept e \<and> settled e \<and> fsm_ok e w \<and> pw_mru w = 1500 \<and> pw_state w = INITIAL \<and> f_flags (pw_fsm w) AND OPT_SILENT = 0"

text \<open>Claim C15: two automata that accept each other's options, over a link that loses nothing, both reach state Opened with no timer left: each
  opens, sends its request, acknowledges the other's, and takes the other's acknowledgement as the answer to its own, upon which its last
  action is to tell the layer above.\<close>

theorem fsm_peers_open:
  assumes "peer_ready ea a" and "peer_ready eb b" and "accepts ea eb" and "accepts eb ea"
    and "cb_up (fe_cb ea) \<noteq> None" and "cb_up (fe_cb eb) \<noteq> None"
  shows "\<exists>a' b'. negotiate ea eb a b = Some (a', b') \<and> pw_state a' = OPENED \<and> pw_state b' = OPENED
    \<and> pend ea a' = 0 \<and> pend eb b' = 0 \<and> last (acts a') = Tlu \<and> last (acts b') = Tlu"
proof -
  note A = assms(1) [unfolded peer_ready_def] and B = assms(2) [unfolded peer_ready_def]
  obtain a0 pa va da where a0: "fsm_start ea a = Some a0" "pw_state a0 = REQSENT" "fsm_ok ea a0" "pw_mru a0 = 1500" "\<not> f_seen_ack (pw_fsm a0)"
      "last_sent a0 = drop PPP_HDRLEN (fsm_frame pa CONFREQ (f_reqid (pw_fsm a0)) da)" "da = fst (fsm_ci (fe_cb ea) va)" "pw_mru va = 1500" "length da \<le> 1496"
    using peer_start [of ea a] A by blast
  obtain b0 pb vb db where b0: "fsm_start eb b = Some b0" "pw_state b0 = REQSENT" "fsm_ok eb b0" "pw_mru b0 = 1500" "\<not> f_seen_ack (pw_fsm b0)"
      "last_sent b0 = drop PPP_HDRLEN (fsm_frame pb CONFREQ (f_reqid (pw_fsm b0)) db)" "db = fst (fsm_ci (fe_cb eb) vb)" "pw_mru vb = 1500" "length db \<le> 1496"
    using peer_start [of eb b] B by blast
  have ra: "\<exists>u'. fsm_reqci (fe_cb ea) db u = (CONFACK, db, u')" for u using assms(3) b0(7,8) unfolding accepts_def by blast
  have rb: "\<exists>u'. fsm_reqci (fe_cb eb) da u = (CONFACK, da, u')" for u using assms(4) a0(7,8) unfolding accepts_def by blast
  obtain a1 qa where a1: "fsm_input ea (last_sent b0) a0 = Some a1" "pw_state a1 = ACKSENT" "fsm_ok ea a1" "f_reqid (pw_fsm a1) = f_reqid (pw_fsm a0)"
      "\<not> f_seen_ack (pw_fsm a1)" "last_sent a1 = drop PPP_HDRLEN (fsm_frame qa CONFACK (f_reqid (pw_fsm b0)) db)"
    using peer_request [of ea a0 db, OF _ _ a0(3,4,2) b0(9) ra] A a0(5) b0(6) by metis
  obtain b1 qb where b1: "fsm_input eb (last_sent a0) b0 = Some b1" "pw_state b1 = ACKSENT" "fsm_ok eb b1" "f_reqid (pw_fsm b1) = f_reqid (pw_fsm b0)"
      "\<not> f_seen_ack (pw_fsm b1)" "last_sent b1 = drop PPP_HDRLEN (fsm_frame qb CONFACK (f_reqid (pw_fsm a0)) da)"
    using peer_request [of eb b0 da, OF _ _ b0(3,4,2) a0(9) rb] B b0(5) a0(6) by metis
  have ka: "fst (fsm_ackci (fe_cb ea) da u) \<noteq> 0" for u using A a0(7,8) unfolding settled_def by blast
  have kb: "fst (fsm_ackci (fe_cb eb) db u) \<noteq> 0" for u using B b0(7,8) unfolding settled_def by blast
  obtain a2 where a2: "fsm_input ea (last_sent b1) a1 = Some a2" "pw_state a2 = OPENED" "fsm_ok ea a2" "acts a2 = acts a1 @ [Tlu]"
    using peer_ack [of ea a1 da qb, OF _ a1(3,2,5) a0(9) ka] A b1(6) a1(4) assms(5) by auto
  obtain b2 where b2: "fsm_input eb (last_sent a1) b1 = Some b2" "pw_state b2 = OPENED" "fsm_ok eb b2" "acts b2 = acts b1 @ [Tlu]"
    using peer_ack [of eb b1 db qa, OF _ b1(3,2,5) b0(9) kb] B a1(6) b1(4) assms(6) by auto
  have "negotiate ea eb a b = Some (a2, b2)" by (simp add: negotiate_def a0(1) b0(1) a1(1) b1(1) a2(1) b2(1))
  moreover have "pend ea a2 = 0" "pend eb b2 = 0" using a2(2,3) b2(2,3) by (simp_all add: fsm_ok_def)
  ultimately show ?thesis using a2(2,4) b2(2,4) by simp
qed

text \<open>A side that asks for an MRU and takes no other option, and one that asks for nothing and takes that one.\<close>

definition example_mru_env :: "(char, nat) fsm_env" where
  "example_mru_env = example_fsm_env\<lparr>fe_cb := example_fsm_cb\<lparr>cb_cilen := Some (\<lambda>w. (4, w)), cb_addci := Some (\<lambda>n w. (take (nat n) [1, 4, 5, 220], w)),
     cb_ackci := Some (\<lambda>d w. (if d = [1, 4, 5, 220] then 1 else 0, w))\<rparr>\<rparr>"

definition example_taking_env :: "(char, nat) fsm_env" where
  "example_taking_env = example_fsm_env\<lparr>fe_cb := example_fsm_cb\<lparr>cb_reqci := Some (\<lambda>d r w. (if d = [1, 4, 5, 220] then CONFACK else CONFREJ, d, w))\<rparr>\<rparr>"

lemmas example_env_defs = example_mru_env_def example_taking_env_def example_fsm_env_def example_fsm_cb_def

lemma example_peers_ready:
  "peer_ready example_mru_env (example_ppp INITIAL)" "peer_ready example_taking_env (example_ppp INITIAL)"
  "accepts example_mru_env example_taking_env" "accepts example_taking_env example_mru_env"
proof -
  have w: "pw_mru (example_ppp INITIAL) = 1500" "pw_state (example_ppp INITIAL) = INITIAL" "f_flags (pw_fsm (example_ppp INITIAL)) = 0"
    by (simp_all add: example_ppp_def)
  have k: "fsm_ok e (example_ppp INITIAL)" for e
    by (simp add: fsm_ok_def mru_ok_def pend_def el_pending_def example_ppp_def eloop_init_def HEADERLEN_def PPP_MRU_def)
  have "env_ok example_mru_env" "env_ok example_taking_env"
    by (simp_all add: env_ok_def example_env_defs ELOOP_ALL_CTX_def cb_inert_def fsm_inert_def pend_def mru_ok_def)
      (auto simp: min_def)
  moreover have "mru_kept example_mru_env" "mru_kept example_taking_env"
    by (simp_all add: mru_kept_def example_env_defs fsm_call_def run_cb_def fsm_ci_def fsm_reqci_def)
  moreover have "settled example_mru_env" "settled example_taking_env"
    by (simp_all add: settled_def example_env_defs fsm_ci_def fsm_ackci_def HEADERLEN_def)
  ultimately show "peer_ready example_mru_env (example_ppp INITIAL)" "peer_ready example_taking_env (example_ppp INITIAL)"
    by (simp_all add: peer_ready_def k w)
  show "accepts example_mru_env example_taking_env" "accepts example_taking_env example_mru_env"
    by (simp_all add: accepts_def example_env_defs fsm_ci_def fsm_reqci_def HEADERLEN_def)
qed

theorem fsm_peers_open_witness:
  "\<exists>a' b'. negotiate example_mru_env example_taking_env (example_ppp INITIAL) (example_ppp INITIAL) = Some (a', b')
    \<and> pw_state a' = OPENED \<and> pw_state b' = OPENED"
proof -
  have "cb_up (fe_cb example_mru_env) \<noteq> None" "cb_up (fe_cb example_taking_env) \<noteq> None" by (simp_all add: example_env_defs)
  from fsm_peers_open [OF example_peers_ready this] show ?thesis by blast
qed

end
