(* ===== verification/Ppp_Fcs.thy ===== *)
theory Ppp_Fcs
  imports Prelude
begin

text \<open>
  The frame check sequence of PPP, \<^verbatim>\<open>src/progs.gpl/pppd.alpha/ppp_fcs.c\<close>: the table, the table driven loop, and its
  specification, the cyclic redundancy check of RFC 1662 with the polynomial 0x8408 processed bit by bit.
\<close>

unbundle bit_operations_syntax

definition fcstab :: "u16 list" where
  "fcstab = [
     0x0000, 0x1189, 0x2312, 0x329b, 0x4624, 0x57ad, 0x6536, 0x74bf, 0x8c48, 0x9dc1, 0xaf5a, 0xbed3, 0xca6c, 0xdbe5, 0xe97e, 0xf8f7,
     0x1081, 0x0108, 0x3393, 0x221a, 0x56a5, 0x472c, 0x75b7, 0x643e, 0x9cc9, 0x8d40, 0xbfdb, 0xae52, 0xdaed, 0xcb64, 0xf9ff, 0xe876,
     0x2102, 0x308b, 0x0210, 0x1399, 0x6726, 0x76af, 0x4434, 0x55bd, 0xad4a, 0xbcc3, 0x8e58, 0x9fd1, 0xeb6e, 0xfae7, 0xc87c, 0xd9f5,
     0x3183, 0x200a, 0x1291, 0x0318, 0x77a7, 0x662e, 0x54b5, 0x453c, 0xbdcb, 0xac42, 0x9ed9, 0x8f50, 0xfbef, 0xea66, 0xd8fd, 0xc974,
     0x4204, 0x538d, 0x6116, 0x709f, 0x0420, 0x15a9, 0x2732, 0x36bb, 0xce4c, 0xdfc5, 0xed5e, 0xfcd7, 0x8868, 0x99e1, 0xab7a, 0xbaf3,
     0x5285, 0x430c, 0x7197, 0x601e, 0x14a1, 0x0528, 0x37b3, 0x263a, 0xdecd, 0xcf44, 0xfddf, 0xec56, 0x98e9, 0x8960, 0xbbfb, 0xaa72,
     0x6306, 0x728f, 0x4014, 0x519d, 0x2522, 0x34ab, 0x0630, 0x17b9, 0xef4e, 0xfec7, 0xcc5c, 0xddd5, 0xa96a, 0xb8e3, 0x8a78, 0x9bf1,
     0x7387, 0x620e, 0x5095, 0x411c, 0x35a3, 0x242a, 0x16b1, 0x0738, 0xffcf, 0xee46, 0xdcdd, 0xcd54, 0xb9eb, 0xa862, 0x9af9, 0x8b70,
     0x8408, 0x9581, 0xa71a, 0xb693, 0xc22c, 0xd3a5, 0xe13e, 0xf0b7, 0x0840, 0x19c9, 0x2b52, 0x3adb, 0x4e64, 0x5fed, 0x6d76, 0x7cff,
     0x9489, 0x8500, 0xb79b, 0xa612, 0xd2ad, 0xc324, 0xf1bf, 0xe036, 0x18c1, 0x0948, 0x3bd3, 0x2a5a, 0x5ee5, 0x4f6c, 0x7df7, 0x6c7e,
     0xa50a, 0xb483, 0x8618, 0x9791, 0xe32e, 0xf2a7, 0xc03c, 0xd1b5, 0x2942, 0x38cb, 0x0a50, 0x1bd9, 0x6f66, 0x7eef, 0x4c74, 0x5dfd,
     0xb58b, 0xa402, 0x9699, 0x8710, 0xf3af, 0xe226, 0xd0bd, 0xc134, 0x39c3, 0x284a, 0x1ad1, 0x0b58, 0x7fe7, 0x6e6e, 0x5cf5, 0x4d7c,
     0xc60c, 0xd785, 0xe51e, 0xf497, 0x8028, 0x91a1, 0xa33a, 0xb2b3, 0x4a44, 0x5bcd, 0x6956, 0x78df, 0x0c60, 0x1de9, 0x2f72, 0x3efb,
     0xd68d, 0xc704, 0xf59f, 0xe416, 0x90a9, 0x8120, 0xb3bb, 0xa232, 0x5ac5, 0x4b4c, 0x79d7, 0x685e, 0x1ce1, 0x0d68, 0x3ff3, 0x2e7a,
     0xe70e, 0xf687, 0xc41c, 0xd595, 0xa12a, 0xb0a3, 0x8238, 0x93b1, 0x6b46, 0x7acf, 0x4854, 0x59dd, 0x2d62, 0x3ceb, 0x0e70, 0x1ff9,
     0xf78f, 0xe606, 0xd49d, 0xc514, 0xb1ab, 0xa022, 0x92b9, 0x8330, 0x7bc7, 0x6a4e, 0x58d5, 0x495c, 0x3de3, 0x2c6a, 0x1ef1, 0x0f78]"

definition PPPINITFCS16 :: u16 where "PPPINITFCS16 = 0xffff"
definition PPPGOODFCS16 :: u16 where "PPPGOODFCS16 = 0xf0b8"

fun pppfcs16 :: "u16 \<Rightarrow> u8 list \<Rightarrow> u16" where
  "pppfcs16 fcs [] = fcs"
| "pppfcs16 fcs (c # cp) = pppfcs16 (drop_bit 8 fcs XOR fcstab ! unat ((fcs XOR ucast c) AND 0xff)) cp"

section \<open>The specification\<close>

text \<open>One bit: shift right, and subtract the polynomial if a one fell out.\<close>

definition crc_bit :: "u16 \<Rightarrow> u16" where
  "crc_bit x = (if bit x 0 then drop_bit 1 x XOR 0x8408 else drop_bit 1 x)"

definition crc_byte :: "u16 \<Rightarrow> u8 \<Rightarrow> u16" where
  "crc_byte fcs c = (crc_bit ^^ 8) (fcs XOR ucast c)"

text \<open>The check computed for a message from an initial value.\<close>

definition crc :: "u16 \<Rightarrow> u8 list \<Rightarrow> u16" where
  "crc = foldl crc_byte"

section \<open>The table\<close>

lemma crc_bit_xor: "crc_bit (x XOR y) = crc_bit x XOR crc_bit y"
  by (cases "bit x 0"; cases "bit y 0") (simp_all add: crc_bit_def bit_xor_iff drop_bit_xor ac_simps)

lemma crc_bits_xor: "(crc_bit ^^ n) (x XOR y) = (crc_bit ^^ n) x XOR (crc_bit ^^ n) y"
  by (induction n) (simp_all add: crc_bit_xor)

lemma crc_bits_shift: "(\<And>k. k < n \<Longrightarrow> \<not> bit x k) \<Longrightarrow> (crc_bit ^^ n) x = drop_bit n x"
proof (induction n arbitrary: x)
  case (Suc n)
  have "crc_bit x = drop_bit 1 x" using Suc.prems [of 0] by (simp add: crc_bit_def)
  moreover have "(crc_bit ^^ n) (drop_bit 1 x) = drop_bit n (drop_bit 1 x)"
    by (rule Suc.IH) (use Suc.prems in \<open>simp add: bit_drop_bit_eq\<close>)
  ultimately show ?case by (simp add: funpow_Suc_right del: funpow.simps)
qed simp

text \<open>A table of a linear function is given by its values at the powers of two.\<close>

fun xor_table :: "u16 list \<Rightarrow> u16 list" where
  "xor_table [] = [0]"
| "xor_table (v # vs) = xor_table vs @ map (\<lambda>x. v XOR x) (xor_table vs)"

lemma length_xor_table: "length (xor_table vs) = 2 ^ length vs"
  by (induction vs) simp_all

lemma word_of_nat_high_bit:
  assumes "i < 2 ^ n"
  shows "(word_of_nat (2 ^ n + i) :: u16) = 2 ^ n XOR word_of_nat i"
proof -
  have "2 ^ n AND (word_of_nat i :: u16) = 0"
  proof (rule bit_word_eqI)
    fix k assume "k < LENGTH(16)"
    have "\<not> bit i n" using assms by (simp add: bit_iff_odd)
    then show "bit (2 ^ n AND (word_of_nat i :: u16)) k = bit (0 :: u16) k" by (auto simp: bit_and_iff bit_exp_iff bit_of_nat_iff)
  qed
  then show ?thesis by (simp add: disjunctive_xor_eq_or disjunctive_add_eq_or)
qed

lemma xor_table_nth:
  assumes "\<And>k. k < length vs \<Longrightarrow> rev vs ! k = (crc_bit ^^ 8) (2 ^ k)" and "i < 2 ^ length vs"
  shows "xor_table vs ! i = (crc_bit ^^ 8) (word_of_nat i)"
  using assms
proof (induction vs arbitrary: i)
  case Nil
  then show ?case by (simp add: crc_bits_shift)
next
  case (Cons v vs)
  let ?n = "length vs"
  have v: "v = (crc_bit ^^ 8) (2 ^ ?n)" using Cons.prems(1) [of ?n] by (simp add: nth_append)
  have ih: "xor_table vs ! j = (crc_bit ^^ 8) (word_of_nat j)" if "j < 2 ^ ?n" for j
    by (rule Cons.IH [OF _ that]) (use Cons.prems(1) in \<open>metis (no_types) length_Cons less_SucI length_rev nth_append rev.simps(2)\<close>)
  show ?case
  proof (cases "i < 2 ^ ?n")
    case True
    then show ?thesis using ih by (simp add: nth_append length_xor_table)
  next
    case False
    define j where "j = i - 2 ^ ?n"
    have j: "i = 2 ^ ?n + j" "j < 2 ^ ?n" using False Cons.prems(2) by (simp_all add: j_def)
    show ?thesis unfolding j(1) word_of_nat_high_bit [OF j(2)] crc_bits_xor v [symmetric]
      using ih [OF j(2)] j(2) by (simp add: nth_append length_xor_table)
  qed
qed

lemma fcstab_xor: "fcstab = xor_table [0x8408, 0x4204, 0x2102, 0x1081, 0x8c48, 0x4624, 0x2312, 0x1189]"
  by (simp add: fcstab_def)

lemma fcstab_nth: "i < 256 \<Longrightarrow> fcstab ! i = (crc_bit ^^ 8) (word_of_nat i)"
proof -
  have "rev [0x8408, 0x4204, 0x2102, 0x1081, 0x8c48, 0x4624, 0x2312, 0x1189] ! k = (crc_bit ^^ 8) (2 ^ k)" if "k < 8" for k
  proof -
    have "k \<in> {0, 1, 2, 3, 4, 5, 6, 7}" using that by auto
    then show ?thesis by (elim insertE emptyE; simp; code_simp)
  qed
  then show "i < 256 \<Longrightarrow> ?thesis" unfolding fcstab_xor by (intro xor_table_nth) simp_all
qed

lemma crc_byte_table: "crc_byte fcs c = drop_bit 8 fcs XOR fcstab ! unat ((fcs XOR ucast c) AND 0xff)"
proof -
  let ?x = "fcs XOR ucast c" and ?m = "0xff :: u16"
  have m: "?m = mask 8" by (simp add: mask_eq_exp_minus_1)
  have split: "?x = (?x AND ?m) XOR push_bit 8 (drop_bit 8 fcs)"
    by (rule bit_word_eqI) (auto simp: m bit_simps dest: bit_imp_le_length)
  have low: "unat (?x AND ?m) < 256"
    using and_mask_less' [of 8 ?x] by (simp add: m word_less_nat_alt)
  have "(crc_bit ^^ 8) (push_bit 8 (drop_bit 8 fcs)) = drop_bit 8 (push_bit 8 (drop_bit 8 fcs))"
    by (rule crc_bits_shift) (simp add: bit_simps)
  also have "\<dots> = drop_bit 8 fcs" by (rule bit_word_eqI) (auto simp: bit_simps dest: bit_imp_le_length)
  finally have "crc_byte fcs c = (crc_bit ^^ 8) (?x AND ?m) XOR drop_bit 8 fcs"
    unfolding crc_byte_def by (subst split) (simp only: crc_bits_xor)
  also have "(crc_bit ^^ 8) (?x AND ?m) = fcstab ! unat (?x AND ?m)" using fcstab_nth [OF low] by simp
  finally show ?thesis by (simp add: xor.commute)
qed

lemma pppfcs16_crc: "pppfcs16 fcs cp = crc fcs cp"
  by (induction cp arbitrary: fcs) (simp_all add: crc_def crc_byte_table)

lemma pppfcs16_append: "pppfcs16 fcs (xs @ ys) = pppfcs16 (pppfcs16 fcs xs) ys"
  by (simp add: pppfcs16_crc crc_def)

lemma below_16: "k < LENGTH(16) \<Longrightarrow> k \<in> {0, 1, 2, 3, 4, 5, 6, 7, 8, 9, 10, 11, 12, 13, 14, 15}"
  by (simp, presburger)

text \<open>Appending the complement of the check, low byte first, gives the good value.\<close>

lemma fcs_trailer:
  "pppfcs16 f [ucast (f XOR 0xFFFF), ucast (drop_bit 8 (f XOR 0xFFFF))] = PPPGOODFCS16"
proof -
  have a: "(f XOR ucast (ucast (f XOR 0xFFFF) :: u8)) AND 0xff = 0xff"
  proof (rule bit_word_eqI)
    fix k assume "k < LENGTH(16)"
    then have "k \<in> {0, 1, 2, 3, 4, 5, 6, 7, 8, 9, 10, 11, 12, 13, 14, 15}" by (rule below_16)
    then show "bit ((f XOR ucast (ucast (f XOR 0xFFFF) :: u8)) AND 0xff) k = bit (0xff :: u16) k"
      by (elim insertE emptyE) (simp_all add: bit_simps)
  qed
  let ?f = "drop_bit 8 f XOR 0x0f78"
  have t: "fcstab ! 255 = 0x0f78" "fcstab ! 0x87 = 0xf0b7" by (simp_all add: fcstab_def)
  have b: "(?f XOR ucast (ucast (drop_bit 8 (f XOR 0xFFFF)) :: u8)) AND 0xff = 0x87"
  proof (rule bit_word_eqI)
    fix k assume "k < LENGTH(16)"
    then have "k \<in> {0, 1, 2, 3, 4, 5, 6, 7, 8, 9, 10, 11, 12, 13, 14, 15}" by (rule below_16)
    then show "bit ((?f XOR ucast (ucast (drop_bit 8 (f XOR 0xFFFF)) :: u8)) AND 0xff) k = bit (0x87 :: u16) k"
      by (elim insertE emptyE) (simp_all add: bit_simps)
  qed
  have c: "drop_bit 8 ?f = 0x0f"
  proof (rule bit_word_eqI)
    fix k assume "k < LENGTH(16)"
    then have "k \<in> {0, 1, 2, 3, 4, 5, 6, 7, 8, 9, 10, 11, 12, 13, 14, 15}" by (rule below_16)
    then show "bit (drop_bit 8 ?f) k = bit (0x0f :: u16) k"
      by (elim insertE emptyE) (simp_all add: bit_simps)
  qed
  show ?thesis using a t(1) b c t(2) by (simp add: PPPGOODFCS16_def)
qed

text \<open>The step is one to one: the bit that was shifted out can be read off the result.\<close>

lemma crc_bit_zero: "crc_bit x = 0 \<Longrightarrow> x = 0"
proof (rule bit_word_eqI)
  fix k assume z: "crc_bit x = 0" and "k < LENGTH(16)"
  have "\<not> bit (crc_bit x) 15" using z by simp
  then have b: "\<not> bit x 0" by (auto simp: crc_bit_def bit_simps dest: bit_imp_le_length split: if_splits)
  then have "drop_bit 1 x = 0" using z by (simp add: crc_bit_def)
  then have "\<not> bit (drop_bit 1 x) j" for j by simp
  then show "bit x k = bit (0 :: u16) k" using b by (cases k) (auto simp: bit_drop_bit_eq)
qed

lemma crc_bits_zero: "(crc_bit ^^ n) x = 0 \<Longrightarrow> x = 0"
  by (induction n) (auto dest: crc_bit_zero)

lemma xor_cancel: "x XOR z = y XOR z \<longleftrightarrow> x = y" "x XOR y = 0 \<longleftrightarrow> x = y" for x y z :: u16
  by (auto simp: bit_eq_iff bit_xor_iff)

lemma crc_byte_inj: "crc_byte f c = crc_byte g d \<longleftrightarrow> f XOR ucast c = g XOR ucast d"
proof
  assume "crc_byte f c = crc_byte g d"
  then have "(crc_bit ^^ 8) ((f XOR ucast c) XOR (g XOR ucast d)) = 0" unfolding crc_byte_def by (simp only: crc_bits_xor xor_self_eq)
  then have "(f XOR ucast c) XOR (g XOR ucast d) = 0" by (rule crc_bits_zero)
  then show "f XOR ucast c = g XOR ucast d" by (simp only: xor_cancel)
qed (simp add: crc_byte_def)

lemma crc_inj: "crc f cp = crc g cp \<Longrightarrow> f = g"
proof (induction cp arbitrary: f g)
  case (Cons c cp)
  then have "crc (crc_byte f c) cp = crc (crc_byte g c) cp" by (simp add: crc_def)
  then have "f XOR ucast c = g XOR ucast c" using Cons.IH crc_byte_inj by blast
  then show ?case by (simp only: xor_cancel)
qed (simp add: crc_def)

lemma crc_byte_change: "c \<noteq> d \<Longrightarrow> crc f (xs @ c # ys) \<noteq> crc f (xs @ d # ys)"
proof
  assume "c \<noteq> d" "crc f (xs @ c # ys) = crc f (xs @ d # ys)"
  then have "crc (crc_byte (crc f xs) c) ys = crc (crc_byte (crc f xs) d) ys" by (simp add: crc_def)
  then have "crc f xs XOR ucast c = crc f xs XOR (ucast d :: u16)" using crc_inj crc_byte_inj by blast
  then have "ucast c XOR crc f xs = ucast d XOR crc f xs" by (simp only: xor.commute)
  then have "(ucast c :: u16) = ucast d" by (simp only: xor_cancel)
  then have "bit (ucast c :: u16) k = bit (ucast d :: u16) k" for k by simp
  note b = this [unfolded bit_ucast_iff]
  have "bit c k = bit d k" if "k < 16" for k using that b [of k] by simp
  then have "c = d" by (intro bit_word_eqI) simp
  then show False using \<open>c \<noteq> d\<close> by simp
qed

section \<open>The claims\<close>

text \<open>Claim C19: the table driven loop computes the check of RFC 1662: from every starting value and for every data it gives
  what dividing bit by bit by the polynomial gives.\<close>

theorem fcs_is_crc: "pppfcs16 fcs cp = crc fcs cp"
  by (rule pppfcs16_crc)

text \<open>Claim C20: the check accepts what a sender appends and detects a damaged byte. Data followed by the complement of their
  check, low byte first, give the good value, and a frame in which one byte differs from a good frame, in the data or in the
  check itself, does not give it.\<close>

theorem fcs_detects:
  "pppfcs16 PPPINITFCS16 (d @ [ucast (pppfcs16 PPPINITFCS16 d XOR 0xFFFF), ucast (drop_bit 8 (pppfcs16 PPPINITFCS16 d XOR 0xFFFF))])
      = PPPGOODFCS16
    \<and> (pppfcs16 PPPINITFCS16 (xs @ a # ys) = PPPGOODFCS16 \<and> a \<noteq> b \<longrightarrow> pppfcs16 PPPINITFCS16 (xs @ b # ys) \<noteq> PPPGOODFCS16)"
proof
  show "pppfcs16 PPPINITFCS16 (d @ [ucast (pppfcs16 PPPINITFCS16 d XOR 0xFFFF), ucast (drop_bit 8 (pppfcs16 PPPINITFCS16 d XOR 0xFFFF))])
      = PPPGOODFCS16" by (simp only: pppfcs16_append fcs_trailer)
  show "pppfcs16 PPPINITFCS16 (xs @ a # ys) = PPPGOODFCS16 \<and> a \<noteq> b \<longrightarrow> pppfcs16 PPPINITFCS16 (xs @ b # ys) \<noteq> PPPGOODFCS16"
    using crc_byte_change [of a b PPPINITFCS16 xs ys] unfolding pppfcs16_crc by auto
qed

theorem fcs_detects_witness:
  "pppfcs16 PPPINITFCS16 [0, 0] = PPPGOODFCS16 \<and> pppfcs16 PPPINITFCS16 [0, 1] \<noteq> PPPGOODFCS16"
proof -
  have i: "ucast (PPPINITFCS16 XOR 0xFFFF) = (0 :: u8)" "ucast (drop_bit 8 (PPPINITFCS16 XOR 0xFFFF)) = (0 :: u8)"
    by (simp_all add: PPPINITFCS16_def)
  have g: "pppfcs16 PPPINITFCS16 ([] @ [0, 0]) = PPPGOODFCS16"
    using conjunct1 [OF fcs_detects [where d = "[]"]] unfolding pppfcs16.simps(1) i .
  then have "pppfcs16 PPPINITFCS16 ([0] @ 1 # []) \<noteq> PPPGOODFCS16"
    using conjunct2 [OF fcs_detects [where xs = "[0]" and a = 0 and ys = "[]" and b = 1]] by simp
  then show ?thesis using g by simp
qed

end
