(* ===== verification/Pptp_Hdlc.thy ===== *)
theory Pptp_Hdlc
  imports Ppp_Fcs
begin

text \<open>
  The HDLC framing of the PPTP client, \<^verbatim>\<open>decaps_hdlc\<close> and \<^verbatim>\<open>encaps_hdlc\<close> of
  \<^verbatim>\<open>src/progs.gpl/pppd.alpha/pptp/pptp_gre.c\<close>, between the terminal of the PPP daemon and the tunnel.

  The frame in progress lives in static variables (\<open>hdlc\<close>) because a frame may be spread over several reads. The
  callback that takes a packet is an argument that acts on the state of the tunnel, of a type \<open>'g\<close>.
\<close>

definition PACKET_MAX :: nat where "PACKET_MAX = 8196"
definition HDLC_FLAG :: u8 where "HDLC_FLAG = 0x7E"
definition HDLC_ESCAPE :: u8 where "HDLC_ESCAPE = 0x7D"
definition HDLC_TRANSPARENCY :: u8 where "HDLC_TRANSPARENCY = 0x20"

text \<open>The first \<^verbatim>\<open>len\<close> bytes of \<^verbatim>\<open>copy\<close>, the variables \<^verbatim>\<open>escape\<close> and \<^verbatim>\<open>checkedsync\<close>, and the number of frames
  for which a bad check was logged, which is all the check leads to.\<close>

record hdlc =
  hd_copy :: "u8 list"
  hd_escape :: u8
  hd_checkedsync :: bool
  hd_badfcs :: nat

definition hdlc_init :: hdlc where
  "hdlc_init = \<lparr>hd_copy = [], hd_escape = 0, hd_checkedsync = False, hd_badfcs = 0\<rparr>"

definition hdlc_char :: "u8 \<Rightarrow> hdlc \<Rightarrow> hdlc" where
  "hdlc_char c h =
     (if hd_escape h = 0 \<and> c = HDLC_ESCAPE then h\<lparr>hd_escape := HDLC_TRANSPARENCY\<rparr>
      else (if length (hd_copy h) < PACKET_MAX then h\<lparr>hd_copy := hd_copy h @ [c XOR hd_escape h]\<rparr> else h)\<lparr>hd_escape := 0\<rparr>)"

fun hdlc_scan :: "(u8 list \<Rightarrow> 'g \<Rightarrow> int \<times> 'g) \<Rightarrow> u8 list \<Rightarrow> hdlc \<times> 'g \<Rightarrow> int \<times> hdlc \<times> 'g" where
  "hdlc_scan cb [] w = (0, w)"
| "hdlc_scan cb (c # cs) (h, g) =
     (if c \<noteq> HDLC_FLAG then hdlc_scan cb cs (hdlc_char c h, g)
      else if length (hd_copy h) < 4 \<or> hd_escape h \<noteq> 0 then hdlc_scan cb cs (h\<lparr>hd_copy := [], hd_escape := 0\<rparr>, g)
      else
        let h = (if pppfcs16 PPPINITFCS16 (hd_copy h) \<noteq> PPPGOODFCS16 then h\<lparr>hd_badfcs := hd_badfcs h + 1\<rparr> else h);
            h = h\<lparr>hd_copy := take (length (hd_copy h) - 2) (hd_copy h)\<rparr>;
            (status, g) = cb (hd_copy h) g
        in if status < 0 then (status, h, g) else hdlc_scan cb cs (h\<lparr>hd_copy := [], hd_escape := 0\<rparr>, g))"

text \<open>The argument \<open>buffer\<close> is what the one \<^verbatim>\<open>read\<close> gives, at most \<^verbatim>\<open>PACKET_MAX\<close> bytes; it is empty when the read fails or is
  at the end.\<close>

definition decaps_hdlc :: "bool \<Rightarrow> (u8 list \<Rightarrow> 'g \<Rightarrow> int \<times> 'g) \<Rightarrow> u8 list \<Rightarrow> hdlc \<times> 'g \<Rightarrow> int \<times> hdlc \<times> 'g" where
  "decaps_hdlc pptp_sync cb buffer w =
     (if buffer = [] then (-1, w)
      else
        let h = (fst w)\<lparr>hd_checkedsync := True\<rparr>; g = snd w in
        if pptp_sync then (let (status, g) = cb buffer g in if status < 0 then (status, h, g) else (0, h, g))
        else hdlc_scan cb buffer (h, g))"

definition hdlc_limit :: nat where "hdlc_limit = 2 * PACKET_MAX + 2"

definition hdlc_special :: "u8 \<Rightarrow> bool" where
  "hdlc_special c \<longleftrightarrow> c < 0x20 \<or> c = HDLC_FLAG \<or> c = HDLC_ESCAPE"

fun hdlc_put :: "u8 list \<Rightarrow> u8 list \<Rightarrow> u8 list" where
  "hdlc_put [] dest = dest"
| "hdlc_put (c # cs) dest =
     (if hdlc_limit \<le> length dest then dest
      else if hdlc_special c then
        let dest = dest @ [HDLC_ESCAPE] in
        hdlc_put cs (if length dest < hdlc_limit then dest @ [c XOR 0x20] else dest)
      else hdlc_put cs (dest @ [c]))"

text \<open>The bytes \<^verbatim>\<open>encaps_hdlc\<close> writes.\<close>

definition encaps_hdlc :: "bool \<Rightarrow> u8 list \<Rightarrow> u8 list" where
  "encaps_hdlc pptp_sync source =
     (if pptp_sync then source
      else
        let fcs = pppfcs16 PPPINITFCS16 source XOR 0xFFFF;
            dest = hdlc_put (source @ [ucast (fcs AND 0xFF), ucast (drop_bit 8 fcs AND 0xFF)]) [HDLC_FLAG]
        in if length dest < hdlc_limit then dest @ [HDLC_FLAG] else dest)"

declare pppfcs16.simps [simp del]

section \<open>Escaping\<close>

definition hdlc_esc :: "u8 \<Rightarrow> u8 list" where
  "hdlc_esc c = (if hdlc_special c then [HDLC_ESCAPE, c XOR 0x20] else [c])"

definition hdlc_body :: "u8 list \<Rightarrow> u8 list" where
  "hdlc_body cs = concat (map hdlc_esc cs)"

lemma hdlc_body_simps [simp]: "hdlc_body [] = []" "hdlc_body (c # cs) = hdlc_esc c @ hdlc_body cs"
  by (simp_all add: hdlc_body_def)

lemma length_hdlc_esc: "length (hdlc_esc c) \<le> 2" "1 \<le> length (hdlc_esc c)"
  by (simp_all add: hdlc_esc_def)

lemma length_hdlc_body: "length (hdlc_body cs) \<le> 2 * length cs"
proof (induction cs)
  case (Cons c cs)
  then show ?case using length_hdlc_esc(1) [of c] by simp
qed simp

lemma hdlc_put_body: "length dest + 2 * length cs < hdlc_limit \<Longrightarrow> hdlc_put cs dest = dest @ hdlc_body cs"
  by (induction cs arbitrary: dest) (simp_all add: hdlc_esc_def Let_def)

lemma special_checked:
  "list_all (\<lambda>c. hdlc_special c \<longrightarrow> c XOR 0x20 \<noteq> HDLC_FLAG \<and> 0x20 \<le> c XOR 0x20) (map word_of_int [0..255])"
  by code_simp

lemma special_xor: "hdlc_special c \<Longrightarrow> c XOR 0x20 \<noteq> HDLC_FLAG \<and> 0x20 \<le> c XOR 0x20"
proof -
  have "uint c \<in> set [0..255]" using uint_lt2p [of c] by simp
  then have "c \<in> set (map word_of_int [0..255])" by (metis (no_types) image_eqI set_map word_of_int_uint)
  then show "hdlc_special c \<Longrightarrow> ?thesis" using special_checked unfolding list_all_iff by blast
qed

lemma hdlc_esc_clean: "b \<in> set (hdlc_esc c) \<Longrightarrow> b \<noteq> HDLC_FLAG \<and> 0x20 \<le> b"
  using special_xor [of c] by (auto simp: hdlc_esc_def HDLC_ESCAPE_def HDLC_FLAG_def hdlc_special_def not_less split: if_splits)

lemma xor_xor_same: "(c XOR m) XOR m = c" for c m :: u8
  by (simp add: xor.assoc)

lemma scan_esc:
  assumes "length (hd_copy h) < PACKET_MAX" and "hd_escape h = 0"
  shows "hdlc_scan cb (hdlc_esc c @ cs) (h, g) = hdlc_scan cb cs (h\<lparr>hd_copy := hd_copy h @ [c]\<rparr>, g)"
proof (cases "hdlc_special c")
  case True
  then show ?thesis using assms special_xor [OF True] xor_xor_same [of c "0x20"]
    by (cases h) (simp add: hdlc_esc_def hdlc_char_def HDLC_TRANSPARENCY_def HDLC_ESCAPE_def HDLC_FLAG_def)
next
  case False
  then show ?thesis using assms
    by (cases h) (simp add: hdlc_esc_def hdlc_char_def hdlc_special_def)
qed

lemma scan_body:
  "length (hd_copy h) + length cs \<le> PACKET_MAX \<Longrightarrow> hd_escape h = 0 \<Longrightarrow>
     hdlc_scan cb (hdlc_body cs @ rest) (h, g) = hdlc_scan cb rest (h\<lparr>hd_copy := hd_copy h @ cs\<rparr>, g)"
  by (induction cs arbitrary: h) (simp_all add: scan_esc)

lemma scan_append:
  "hdlc_scan cb (xs @ ys) w = (let (status, w') = hdlc_scan cb xs w in if status < 0 then (status, w') else hdlc_scan cb ys w')"
  by (induction cb xs w rule: hdlc_scan.induct) (auto simp: Let_def split: prod.split)

lemma scan_status: "fst (hdlc_scan cb xs w) \<le> 0"
  by (induction cb xs w rule: hdlc_scan.induct) (auto simp: Let_def split: prod.split)

section \<open>Frames\<close>

definition hdlc_fcs :: "u8 list \<Rightarrow> u8 list" where
  "hdlc_fcs p = [ucast (pppfcs16 PPPINITFCS16 p XOR 0xFFFF), ucast (drop_bit 8 (pppfcs16 PPPINITFCS16 p XOR 0xFFFF))]"

definition hdlc_size_ok :: "u8 list \<Rightarrow> bool" where
  "hdlc_size_ok p \<longleftrightarrow> 2 \<le> length p \<and> length p + 2 \<le> PACKET_MAX"

lemma ucast_mask: "ucast (x AND 0xFF) = (ucast x :: u8)" for x :: u16
proof -
  have "x AND 0xFF = x AND mask 8" by (simp add: mask_eq_exp_minus_1)
  then show ?thesis by (simp add: bit_eq_iff bit_simps)
qed

lemma encaps_form:
  assumes "length p + 2 \<le> PACKET_MAX"
  shows "encaps_hdlc False p = HDLC_FLAG # hdlc_body (p @ hdlc_fcs p) @ [HDLC_FLAG]"
proof -
  have "hdlc_put (p @ hdlc_fcs p) [HDLC_FLAG] = HDLC_FLAG # hdlc_body (p @ hdlc_fcs p)"
    using hdlc_put_body [of "[HDLC_FLAG]" "p @ hdlc_fcs p"] assms by (simp add: hdlc_limit_def hdlc_fcs_def)
  moreover have "length (hdlc_body (p @ hdlc_fcs p)) \<le> 2 * PACKET_MAX"
    using length_hdlc_body [of "p @ hdlc_fcs p"] assms by (simp add: hdlc_fcs_def)
  ultimately show ?thesis unfolding encaps_hdlc_def ucast_mask hdlc_fcs_def by (simp add: Let_def hdlc_limit_def)
qed

lemma encaps_flag: "length p + 2 \<le> PACKET_MAX \<Longrightarrow> encaps_hdlc False p = HDLC_FLAG # tl (encaps_hdlc False p)"
  by (simp add: encaps_form)

lemma scan_flag_empty: "hd_copy h = [] \<Longrightarrow> hd_escape h = 0 \<Longrightarrow> hdlc_scan cb (HDLC_FLAG # cs) (h, g) = hdlc_scan cb cs (h, g)"
  by (cases h) simp

text \<open>A frame is delivered whether its check is good or not.\<close>

lemma scan_frame:
  assumes "4 \<le> length b" and "length b \<le> PACKET_MAX" and "hd_copy h = []" and "hd_escape h = 0" and "0 \<le> fst (cb (take (length b - 2) b) g)"
  shows "hdlc_scan cb (hdlc_body b @ HDLC_FLAG # cs) (h, g)
    = hdlc_scan cb cs (h\<lparr>hd_badfcs := hd_badfcs h + (if pppfcs16 PPPINITFCS16 b = PPPGOODFCS16 then 0 else 1)\<rparr>,
        snd (cb (take (length b - 2) b) g))"
  using assms by (cases h; cases "cb (take (length b - 2) b) g") (simp add: scan_body Let_def)

lemma scan_packet:
  assumes "hdlc_size_ok p" and "hd_copy h = []" and "hd_escape h = 0" and "0 \<le> fst (cb p g)"
  shows "hdlc_scan cb (encaps_hdlc False p @ cs) (h, g) = hdlc_scan cb cs (h, snd (cb p g))"
proof -
  let ?b = "p @ hdlc_fcs p"
  have l: "length ?b = length p + 2" "take (length ?b - 2) ?b = p" by (simp_all add: hdlc_fcs_def)
  have "pppfcs16 PPPINITFCS16 ?b = PPPGOODFCS16" unfolding hdlc_fcs_def pppfcs16_append fcs_trailer ..
  then show ?thesis
    using assms l scan_frame [of ?b h cb g cs] scan_flag_empty [of h cb "hdlc_body ?b @ HDLC_FLAG # cs" g]
    by (cases h) (simp add: encaps_form hdlc_size_ok_def)
qed

lemma scan_packets:
  assumes "\<And>p. p \<in> set ps \<Longrightarrow> hdlc_size_ok p" and "hd_copy h = []" and "hd_escape h = 0" and "\<And>p g. 0 \<le> fst (cb p g)"
  shows "hdlc_scan cb (concat (map (encaps_hdlc False) ps)) (h, g) = (0, h, fold (\<lambda>p g. snd (cb p g)) ps g)"
  using assms(1) by (induction ps arbitrary: g) (simp_all add: scan_packet assms(2-4))

section \<open>Reads\<close>

text \<open>Successive reads from the terminal.\<close>

fun pty_reads :: "(u8 list \<Rightarrow> 'g \<Rightarrow> int \<times> 'g) \<Rightarrow> u8 list list \<Rightarrow> hdlc \<times> 'g \<Rightarrow> int \<times> hdlc \<times> 'g" where
  "pty_reads cb [] w = (0, w)"
| "pty_reads cb (r # rs) w =
     (let (status, w) = decaps_hdlc False cb r w in if status < 0 then (status, w) else pty_reads cb rs w)"

lemma char_sync [simp]: "hd_checkedsync (hdlc_char c h) = hd_checkedsync h"
  by (simp add: hdlc_char_def)

lemma scan_keeps_sync: "hd_checkedsync (fst (snd (hdlc_scan cb xs w))) = hd_checkedsync (fst w)"
proof (induction xs arbitrary: w)
  case (Cons c cs)
  obtain h g where w: "w = (h, g)" by (cases w)
  show ?case unfolding w by (simp add: Cons.IH Let_def split: prod.split)
qed simp

lemma sync_set: "hd_checkedsync h \<Longrightarrow> h\<lparr>hd_checkedsync := True\<rparr> = h"
  by simp

lemma pty_reads_scan:
  "hd_checkedsync (fst w) \<Longrightarrow> [] \<notin> set rs \<Longrightarrow> pty_reads cb rs w = hdlc_scan cb (concat rs) w"
proof (induction rs arbitrary: w)
  case (Cons r rs)
  have d: "decaps_hdlc False cb r w = hdlc_scan cb r w"
    using Cons.prems by (cases w) (auto simp: decaps_hdlc_def sync_set)
  obtain st w' where h: "hdlc_scan cb r w = (st, w')" by (cases "hdlc_scan cb r w")
  have "hd_checkedsync (fst w')" using scan_keeps_sync [of cb r w] Cons.prems(1) by (simp add: h)
  then have "pty_reads cb rs w' = hdlc_scan cb (concat rs) w'" using Cons.IH Cons.prems(2) by simp
  then show ?case unfolding pty_reads.simps d concat.simps scan_append h by simp
qed simp

section \<open>The claims\<close>

text \<open>Claim C24: framing is transparent. Packets of two to 8194 bytes that are framed, put on the line one after the other and read back
  in pieces of any length reach the callback in order and unchanged, with a good check each, and the reader is left ready for
  the next frame.\<close>

theorem hdlc_roundtrip:
  assumes "\<And>p. p \<in> set ps \<Longrightarrow> hdlc_size_ok p" and "hd_copy h = []" and "hd_escape h = 0" and "\<And>p g. 0 \<le> fst (cb p g)"
    and "concat reads = concat (map (encaps_hdlc False) ps)" and "reads \<noteq> []" and "[] \<notin> set reads"
  shows "pty_reads cb reads (h, g) = (0, h\<lparr>hd_checkedsync := True\<rparr>, fold (\<lambda>p g. snd (cb p g)) ps g)"
proof -
  obtain r rs where r: "reads = r # rs" using assms(6) by (cases reads) auto
  have "pty_reads cb reads (h, g) = pty_reads cb reads (h\<lparr>hd_checkedsync := True\<rparr>, g)" 
    using assms(7) by (auto simp: r decaps_hdlc_def)
  also have "\<dots> = hdlc_scan cb (concat reads) (h\<lparr>hd_checkedsync := True\<rparr>, g)" by (rule pty_reads_scan) (use assms(7) in simp_all)
  also have "\<dots> = (0, h\<lparr>hd_checkedsync := True\<rparr>, fold (\<lambda>p g. snd (cb p g)) ps g)"
    unfolding assms(5) by (rule scan_packets) (use assms(1-4) in simp_all)
  finally show ?thesis .
qed

theorem hdlc_roundtrip_witness:
  "pty_reads (\<lambda>p g. (0, g @ [p])) [encaps_hdlc False [0xFF, 3] @ [HDLC_FLAG], tl (encaps_hdlc False [0x7E, 0x7D, 0])] (hdlc_init, [])
     = (0, hdlc_init\<lparr>hd_checkedsync := True\<rparr>, [[0xFF, 3], [0x7E, 0x7D, 0]])"
proof -
  have s: "hdlc_size_ok p" if "p \<in> set [[0xFF, 3], [0x7E, 0x7D, 0]]" for p
    using that by (auto simp: hdlc_size_ok_def PACKET_MAX_def)
  define A B where "A = encaps_hdlc False [0xFF, 3]" and "B = encaps_hdlc False [0x7E, 0x7D, 0]"
  have "B = HDLC_FLAG # tl B" unfolding B_def by (rule encaps_flag) (simp add: PACKET_MAX_def)
  then have "concat [A @ [HDLC_FLAG], tl B] = concat (map (encaps_hdlc False) [[0xFF, 3], [0x7E, 0x7D, 0]])"
    by (simp add: A_def [symmetric] B_def [symmetric])
  note c = this
  have "hdlc_esc x \<noteq> []" for x by (simp add: hdlc_esc_def)
  then have "tl B \<noteq> []" unfolding B_def by (subst encaps_form) (simp_all add: PACKET_MAX_def)
  then have n: "[] \<notin> set [A @ [HDLC_FLAG], tl B]" by auto
  show ?thesis unfolding A_def [symmetric] B_def [symmetric]
    by (subst hdlc_roundtrip [OF s _ _ _ c _ n]) (simp_all add: hdlc_init_def)
qed

lemma hdlc_put_line:
  "length dest \<le> hdlc_limit \<Longrightarrow> \<exists>body. hdlc_put cs dest = dest @ body \<and> length (dest @ body) \<le> hdlc_limit
     \<and> (\<forall>b \<in> set body. b \<noteq> HDLC_FLAG \<and> 0x20 \<le> b)"
proof (induction cs arbitrary: dest)
  case (Cons c cs)
  show ?case
  proof (cases "hdlc_limit \<le> length dest")
    case True
    then show ?thesis using Cons.prems by (intro exI [of _ "[]"]) simp
  next
    case False
    define e where "e = take (hdlc_limit - length dest) (hdlc_esc c)"
    have l: "length (dest @ e) \<le> hdlc_limit" using False by (simp add: e_def)
    have p: "hdlc_put (c # cs) dest = hdlc_put cs (dest @ e)"
      using False by (cases "hdlc_limit - length dest"; cases "hdlc_limit - length dest - 1") (auto simp: e_def hdlc_esc_def Let_def)
    have "\<forall>b \<in> set e. b \<noteq> HDLC_FLAG \<and> 0x20 \<le> b" using hdlc_esc_clean by (auto simp: e_def dest: in_set_takeD)
    moreover obtain body where "hdlc_put cs (dest @ e) = (dest @ e) @ body" "length ((dest @ e) @ body) \<le> hdlc_limit"
        "\<forall>b \<in> set body. b \<noteq> HDLC_FLAG \<and> 0x20 \<le> b" using Cons.IH [OF l] by blast
    ultimately show ?thesis unfolding p by (intro exI [of _ "e @ body"]) auto
  qed
qed simp

text \<open>What is written is safe for the line and for the buffer. After the opening flag there is no flag and no control
  character up to the closing one, and no packet, however long, makes more than the \<^verbatim>\<open>2 * PACKET_MAX + 2\<close> bytes of the
  buffer; a packet of at most 8194 bytes always gets its closing flag.\<close>

theorem encaps_hdlc_line:
  "\<exists>body. (encaps_hdlc False p = HDLC_FLAG # body \<or> encaps_hdlc False p = HDLC_FLAG # body @ [HDLC_FLAG])
    \<and> (\<forall>b \<in> set body. b \<noteq> HDLC_FLAG \<and> 0x20 \<le> b) \<and> length (encaps_hdlc False p) \<le> 2 * PACKET_MAX + 2
    \<and> (length p \<le> 8194 \<longrightarrow> encaps_hdlc False p = HDLC_FLAG # body @ [HDLC_FLAG])"
proof -
  let ?d = "p @ [ucast ((pppfcs16 PPPINITFCS16 p XOR 0xFFFF) AND 0xFF), ucast (drop_bit 8 (pppfcs16 PPPINITFCS16 p XOR 0xFFFF) AND 0xFF)]"
  obtain body where b: "hdlc_put ?d [HDLC_FLAG] = HDLC_FLAG # body" "length (HDLC_FLAG # body) \<le> hdlc_limit"
      "\<forall>b \<in> set body. b \<noteq> HDLC_FLAG \<and> 0x20 \<le> b"
    using hdlc_put_line [of "[HDLC_FLAG]" ?d] by (auto simp: hdlc_limit_def)
  have e: "encaps_hdlc False p = (if length (HDLC_FLAG # body) < hdlc_limit then HDLC_FLAG # body @ [HDLC_FLAG] else HDLC_FLAG # body)"
    unfolding encaps_hdlc_def Let_def b(1) by simp
  have "length (HDLC_FLAG # body) < hdlc_limit" if "length p \<le> 8194"
  proof -
    have "HDLC_FLAG # body = [HDLC_FLAG] @ hdlc_body ?d"
      using hdlc_put_body [of "[HDLC_FLAG]" ?d] b(1) that by (simp add: hdlc_limit_def PACKET_MAX_def)
    then show ?thesis using length_hdlc_body [of ?d] that by (simp add: hdlc_limit_def PACKET_MAX_def)
  qed
  then show ?thesis using b(2,3) e by (intro exI [of _ body]) (auto simp: hdlc_limit_def)
qed

theorem encaps_hdlc_line_witness:
  "\<exists>body. encaps_hdlc False [0xFF, 3] = HDLC_FLAG # body @ [HDLC_FLAG] \<and> (\<forall>b \<in> set body. 0x20 \<le> b)"
  using encaps_hdlc_line [of "[0xFF, 3]"] by auto

text \<open>Claim C26: the frame check is not enforced. A frame whose check is wrong is passed on like a good one, without its last two bytes;
  the only trace is a line in the log.\<close>

theorem bad_fcs_delivered:
  assumes "4 \<le> length b" and "length b \<le> PACKET_MAX" and "pppfcs16 PPPINITFCS16 b \<noteq> PPPGOODFCS16"
    and "hd_copy h = []" and "hd_escape h = 0" and "0 \<le> fst (cb (take (length b - 2) b) g)"
  shows "decaps_hdlc False cb (HDLC_FLAG # hdlc_body b @ [HDLC_FLAG]) (h, g)
    = (0, h\<lparr>hd_checkedsync := True, hd_badfcs := hd_badfcs h + 1\<rparr>, snd (cb (take (length b - 2) b) g))"
  using assms scan_frame [of b "h\<lparr>hd_checkedsync := True\<rparr>" cb g "[]"]
    scan_flag_empty [of "h\<lparr>hd_checkedsync := True\<rparr>" cb "hdlc_body b @ [HDLC_FLAG]" g]
  by (simp add: decaps_hdlc_def Let_def del: hdlc_scan.simps(2))

theorem bad_fcs_delivered_witness:
  "decaps_hdlc False (\<lambda>p g. (0, g @ [p])) (HDLC_FLAG # hdlc_body [0, 0, 0x47, 0x0E] @ [HDLC_FLAG]) (hdlc_init, [])
     = (0, hdlc_init\<lparr>hd_checkedsync := True, hd_badfcs := 1\<rparr>, [[0, 0]])"
proof -
  have z: "pppfcs16 PPPINITFCS16 [0, 0] = PPPGOODFCS16" using fcs_trailer [of PPPINITFCS16] by (simp add: PPPINITFCS16_def)
  have "ucast (PPPGOODFCS16 XOR 0xFFFF) = (0x47 :: u8)" "ucast (drop_bit 8 (PPPGOODFCS16 XOR 0xFFFF)) = (0x0F :: u8)"
    by (simp_all add: PPPGOODFCS16_def)
  then have "pppfcs16 PPPGOODFCS16 [0x47, 0x0F] = PPPGOODFCS16" using fcs_trailer [of PPPGOODFCS16] by simp
  then have "pppfcs16 PPPINITFCS16 ([0, 0, 0x47] @ 0x0F # []) = PPPGOODFCS16" using pppfcs16_append [of PPPINITFCS16 "[0, 0]" "[0x47, 0x0F]"] z by simp
  then have "pppfcs16 PPPINITFCS16 [0, 0, 0x47, 0x0E] \<noteq> PPPGOODFCS16"
    using crc_byte_change [of "0x0E" "0x0F" PPPINITFCS16 "[0, 0, 0x47]" "[]"] by (simp add: pppfcs16_crc)
  then show ?thesis using bad_fcs_delivered [of "[0, 0, 0x47, 0x0E]" hdlc_init "\<lambda>p g. (0, g @ [p])" "[]"]
    by (simp add: hdlc_init_def PACKET_MAX_def del: hdlc_body_simps)
qed

end
