(* ===== verification/Pptp_Queue.thy ===== *)
theory Pptp_Queue
  imports Sloop "HOL-Library.Multiset" "HOL-Library.Signed_Division"
begin

text \<open>
  The queue of packets that arrive before their turn, \<^verbatim>\<open>src/progs.gpl/pppd.alpha/pptp/pqueue.c\<close>.

  \<^item> The doubly linked queue and the list of free entries are lists in the order of their \<^verbatim>\<open>next\<close> pointers, and an entry of the
    queue is named by its position. An entry holds the first \<^verbatim>\<open>packlen\<close> bytes of its buffer and the capacity of the buffer.
  \<^item> \<^verbatim>\<open>seq\<close> is a C \<^verbatim>\<open>int\<close>: a word that is compared as a signed number.
  \<^item> The locale \<open>packet_queue\<close> is what the tunnel relies on.
\<close>

definition packet_timeout_usecs :: u32 where "packet_timeout_usecs = 300000"
definition MISSING_WINDOW :: u32 where "MISSING_WINDOW = 300"
definition MIN_CAPACITY :: nat where "MIN_CAPACITY = 128"

record pq_entry =
  pe_seq :: u32
  pe_expires :: timeval
  pe_packet :: "u8 list"
  pe_capacity :: nat

record pqueue =
  pq_list :: "pq_entry list"
  pq_free :: "pq_entry list"

definition pqueue_init :: pqueue where
  "pqueue_init = \<lparr>pq_list = [], pq_free = []\<rparr>"

text \<open>The first free entry with room, and the others.\<close>

fun pqueue_take :: "nat \<Rightarrow> pq_entry list \<Rightarrow> (pq_entry \<times> pq_entry list) option" where
  "pqueue_take n [] = None"
| "pqueue_take n (e # es) = (if n \<le> pe_capacity e then Some (e, es) else map_option (\<lambda>(x, xs). (x, e # xs)) (pqueue_take n es))"

text \<open>The fields of a new entry. The microseconds are carried over once, by division.\<close>

definition pqueue_expires :: "timeval \<Rightarrow> timeval" where
  "pqueue_expires now = (let us = sint (tv_usec now + packet_timeout_usecs) in
     \<lparr>tv_sec = tv_sec now + word_of_int (us sdiv 1000000), tv_usec = word_of_int (us smod 1000000)\<rparr>)"

text \<open>The argument \<open>mem\<close> answers the request for an entry or for a bigger buffer, and the request for the buffer of a new entry. An entry
  that cannot be completed is lost.\<close>

definition pqueue_fill :: "bool \<Rightarrow> timeval \<Rightarrow> u32 \<Rightarrow> u8 list \<Rightarrow> pq_entry \<Rightarrow> pq_entry option" where
  "pqueue_fill mem now seq packet e =
     (if pe_capacity e = 0 \<and> \<not> mem then None
      else Some \<lparr>pe_seq = seq, pe_expires = pqueue_expires now, pe_packet = packet,
        pe_capacity = (if pe_capacity e = 0 then (if length packet < MIN_CAPACITY then MIN_CAPACITY else length packet) else pe_capacity e)\<rparr>)"

definition pqueue_alloc :: "bool \<times> bool \<Rightarrow> timeval \<Rightarrow> u32 \<Rightarrow> u8 list \<Rightarrow> pqueue \<Rightarrow> pq_entry option \<times> pqueue" where
  "pqueue_alloc mem now seq packet q = (case pq_free q of
     [] \<Rightarrow>
       if \<not> fst mem then (None, q)
       else (pqueue_fill (snd mem) now seq packet \<lparr>pe_seq = 0, pe_expires = zero_timeval, pe_packet = [], pe_capacity = 0\<rparr>, q)
   | e # es \<Rightarrow>
       (case pqueue_take (length packet) (e # es) of
          Some (x, xs) \<Rightarrow> (pqueue_fill (snd mem) now seq packet x, q\<lparr>pq_free := xs\<rparr>)
        | None \<Rightarrow>
            if \<not> fst mem then (None, q\<lparr>pq_free := es\<rparr>)
            else (pqueue_fill (snd mem) now seq packet (e\<lparr>pe_capacity := length packet\<rparr>), q\<lparr>pq_free := es\<rparr>)))"

text \<open>The loop over the queue: \<open>None\<close> when it already has the packet.\<close>

fun pqueue_insert :: "pq_entry \<Rightarrow> pq_entry list \<Rightarrow> pq_entry list option" where
  "pqueue_insert e [] = Some [e]"
| "pqueue_insert e (x # xs) =
     (if pe_seq x = pe_seq e then None
      else if sint (pe_seq x) > sint (pe_seq e) then Some (e # x # xs)
      else map_option (\<lambda>ys. x # ys) (pqueue_insert e xs))"

definition pqueue_add :: "bool \<times> bool \<Rightarrow> timeval \<Rightarrow> u32 \<Rightarrow> u8 list \<Rightarrow> pqueue \<Rightarrow> int \<times> pqueue" where
  "pqueue_add mem now seq packet q = (case pqueue_alloc mem now seq packet q of
     (None, q) \<Rightarrow> (-1, q)
   | (Some e, q) \<Rightarrow> (case pqueue_insert e (pq_list q) of None \<Rightarrow> (-1, q) | Some es \<Rightarrow> (0, q\<lparr>pq_list := es\<rparr>)))"

definition pqueue_del :: "nat \<Rightarrow> pqueue \<Rightarrow> pqueue" where
  "pqueue_del i q = q\<lparr>pq_list := take i (pq_list q) @ drop (Suc i) (pq_list q), pq_free := pq_list q ! i # pq_free q\<rparr>"

definition pqueue_head :: "pqueue \<Rightarrow> pq_entry option" where
  "pqueue_head q = (case pq_list q of [] \<Rightarrow> None | e # _ \<Rightarrow> Some e)"

definition pqueue_expiry_time :: "timeval \<Rightarrow> pq_entry \<Rightarrow> u32" where
  "pqueue_expiry_time now e = (tv_sec (pe_expires e) - tv_sec now) * 1000000 + (tv_usec (pe_expires e) - tv_usec now)"

section \<open>Entries fit their buffers\<close>

lemma take_room: "pqueue_take n es = Some (x, xs) \<Longrightarrow> n \<le> pe_capacity x \<and> mset es = add_mset x (mset xs)"
  by (induction es arbitrary: xs) (auto split: if_splits)

lemma fill_entry:
  assumes "pqueue_fill mem now seq packet x = Some e" and "pe_capacity x = 0 \<or> length packet \<le> pe_capacity x"
  shows "pe_seq e = seq \<and> pe_packet e = packet \<and> pe_expires e = pqueue_expires now \<and> length packet \<le> pe_capacity e"
  using assms by (auto simp: pqueue_fill_def MIN_CAPACITY_def split: if_splits)

lemma alloc_fill:
  assumes "pqueue_alloc mem now seq packet q = (Some e, q')"
  shows "\<exists>x. pqueue_fill (snd mem) now seq packet x = Some e \<and> (pe_capacity x = 0 \<or> length packet \<le> pe_capacity x)"
proof (cases "pq_free q")
  case Nil
  then show ?thesis using assms by (auto simp: pqueue_alloc_def split: if_splits)
next
  case (Cons y ys)
  show ?thesis
  proof (cases "pqueue_take (length packet) (y # ys)")
    case None
    then show ?thesis using assms Cons by (auto simp: pqueue_alloc_def split: if_split_asm)
  next
    case (Some a)
    then show ?thesis using assms Cons take_room [of "length packet" "y # ys"]
      by (cases a) (simp add: pqueue_alloc_def del: pqueue_take.simps, blast)
  qed
qed

lemma alloc_entry:
  assumes "pqueue_alloc mem now seq packet q = (Some e, q')"
  shows "pe_seq e = seq" "pe_packet e = packet" "pe_expires e = pqueue_expires now" "length packet \<le> pe_capacity e"
  using alloc_fill [OF assms] fill_entry by blast+

lemma alloc_queue: "pq_list (snd (pqueue_alloc mem now seq packet q)) = pq_list q"
  by (auto simp: pqueue_alloc_def split: list.split option.split simp del: pqueue_take.simps)

section \<open>The contract of the queue\<close>

text \<open>The packets by their sequence numbers, in ascending order. Adding puts a packet in its place unless its number is there already or there
  is no memory, and deleting takes the first away.\<close>

locale packet_queue =
  fixes contents :: "'q \<Rightarrow> (int \<times> u8 list) list"
    and add :: "u32 \<Rightarrow> u8 list \<Rightarrow> 'q \<Rightarrow> 'q"
    and del :: "'q \<Rightarrow> 'q"
    and room :: "u8 list \<Rightarrow> 'q \<Rightarrow> bool"
  assumes contents_add: "sorted_wrt (<) (map fst (contents q)) \<Longrightarrow> contents (add s p q)
      = (if room p q \<and> sint s \<notin> fst ` set (contents q) then insort_key fst (sint s, p) (contents q) else contents q)"
    and contents_del: "contents q \<noteq> [] \<Longrightarrow> contents (del q) = tl (contents q)"
begin

definition ordered :: "'q \<Rightarrow> bool" where
  "ordered q \<longleftrightarrow> sorted_wrt (<) (map fst (contents q))"

lemma ordered_add:
  assumes "ordered q"
  shows "ordered (add s p q)"
proof -
  have s: "sorted (map fst (contents q))" "distinct (map fst (contents q))"
    using assms by (simp_all add: ordered_def strict_sorted_iff)
  have "sorted_wrt (<) (map fst (insort_key fst (sint s, p) (contents q)))" if "sint s \<notin> fst ` set (contents q)"
    using s that by (simp add: strict_sorted_iff sorted_insort_key distinct_map inj_on_def set_insort_key distinct_insort) (auto simp: inj_on_def image_iff)
  then show ?thesis using assms contents_add [of q s p] by (simp add: ordered_def)
qed

lemma ordered_del: "ordered q \<Longrightarrow> contents q \<noteq> [] \<Longrightarrow> ordered (del q)"
  by (cases "contents q") (simp_all add: ordered_def contents_del)

lemma set_add: "ordered q \<Longrightarrow> set (contents (add s p q))
    = (if room p q \<and> sint s \<notin> fst ` set (contents q) then insert (sint s, p) (set (contents q)) else set (contents q))"
  by (simp add: ordered_def contents_add set_insort_key)

lemma del_rest: "ordered q \<Longrightarrow> contents q = (k, p) # ps \<Longrightarrow> \<forall>x \<in> set (contents (del q)). k < fst x"
  by (simp add: ordered_def contents_del)

end

definition pq_contents :: "pqueue \<Rightarrow> (int \<times> u8 list) list" where
  "pq_contents q = map (\<lambda>e. (sint (pe_seq e), pe_packet e)) (pq_list q)"

definition pq_room :: "bool \<times> bool \<Rightarrow> timeval \<Rightarrow> u8 list \<Rightarrow> pqueue \<Rightarrow> bool" where
  "pq_room mem now packet q \<longleftrightarrow> fst (pqueue_alloc mem now 0 packet q) \<noteq> None"

lemma room_all [simp]: "pq_room (True, True) now packet q"
  by (auto simp: pq_room_def pqueue_alloc_def pqueue_fill_def split: list.splits option.splits)

lemma alloc_seq: "fst (pqueue_alloc mem now s packet q) \<noteq> None \<longleftrightarrow> pq_room mem now packet q"
  by (auto simp: pq_room_def pqueue_alloc_def pqueue_fill_def split: list.splits option.splits)

lemma sint_eqD: "sint a = sint b \<Longrightarrow> a = b"
  by (rule signed_word_eqI)

abbreviation pq_item :: "pq_entry \<Rightarrow> int \<times> u8 list" where
  "pq_item e \<equiv> (sint (pe_seq e), pe_packet e)"

lemma insert_contents:
  "sorted_wrt (<) (map (fst \<circ> pq_item) es) \<Longrightarrow>
     map_option (map pq_item) (pqueue_insert e es)
       = (if sint (pe_seq e) \<in> fst ` set (map pq_item es) then None else Some (insort_key fst (pq_item e) (map pq_item es)))"
proof (induction es)
  case (Cons x xs)
  consider "pe_seq x = pe_seq e" | "sint (pe_seq e) < sint (pe_seq x)" | "sint (pe_seq x) < sint (pe_seq e)"
    using sint_eqD [of "pe_seq x" "pe_seq e"] by linarith
  then show ?case
  proof cases
    case 2
    have "\<forall>y \<in> set xs. sint (pe_seq x) < sint (pe_seq y)" using Cons.prems by simp
    then have "\<forall>y \<in> set xs. sint (pe_seq e) < sint (pe_seq y)" using 2 by (meson less_trans)
    then have "sint (pe_seq e) \<notin> fst ` set (map pq_item xs)" by (auto simp: image_iff)
    then show ?thesis using 2 by (cases "pe_seq x = pe_seq e") simp_all
  next
    case 3
    then have ne: "pe_seq x \<noteq> pe_seq e" by auto
    have "map_option (map pq_item) (pqueue_insert e (x # xs)) = map_option ((#) (pq_item x)) (map_option (map pq_item) (pqueue_insert e xs))"
      using 3 ne by (simp add: option.map_comp comp_def)
    moreover have "sorted_wrt (<) (map (fst \<circ> pq_item) xs)" using Cons.prems by (simp add: comp_def)
    note Cons.IH [OF this]
    ultimately show ?thesis using 3 by (simp del: pqueue_insert.simps map_option_eq_Some)
  next
    case 1
    then show ?thesis by simp
  qed
qed simp

interpretation pq: packet_queue pq_contents "\<lambda>s p q. snd (pqueue_add mem now s p q)" "pqueue_del 0" "pq_room mem now" for mem now
proof unfold_locales
  fix q :: pqueue and s :: u32 and p :: "u8 list"
  assume srt: "sorted_wrt (<) (map fst (pq_contents q))"
  obtain x q1 where a: "pqueue_alloc mem now s p q = (x, q1)" by (cases "pqueue_alloc mem now s p q")
  have l: "pq_list q1 = pq_list q" using alloc_queue [of mem now s p q] by (simp add: a)
  show "pq_contents (snd (pqueue_add mem now s p q))
      = (if pq_room mem now p q \<and> sint s \<notin> fst ` set (pq_contents q) then insort_key fst (sint s, p) (pq_contents q) else pq_contents q)"
  proof (cases x)
    case None
    then show ?thesis using alloc_seq [of mem now s p q] l by (simp add: pqueue_add_def a pq_contents_def)
  next
    case (Some e)
    then have e: "pe_seq e = s" "pe_packet e = p" "pq_room mem now p q"
      using alloc_entry [of mem now s p q e q1] alloc_seq [of mem now s p q] by (simp_all add: a)
    have i: "map_option (map pq_item) (pqueue_insert e (pq_list q))
        = (if sint s \<in> fst ` set (pq_contents q) then None else Some (insort_key fst (sint s, p) (pq_contents q)))"
      using insert_contents [of "pq_list q" e] srt e by (simp add: pq_contents_def)
    show ?thesis using i e(3) l Some
      by (cases "pqueue_insert e (pq_list q)"; cases "sint s \<in> fst ` set (pq_contents q)") (simp_all add: pqueue_add_def a pq_contents_def)
  qed
next
  fix q :: pqueue assume "pq_contents q \<noteq> []"
  then show "pq_contents (pqueue_del 0 q) = tl (pq_contents q)" by (cases "pq_list q") (simp_all add: pq_contents_def pqueue_del_def)
qed

end
