(* ===== verification/Pptp_Gre.thy ===== *)
theory Pptp_Gre
  imports Pptp_Hdlc Pptp_Queue Ppp_Eloop
begin

text \<open>
  The tunnel of the PPTP client, the GRE part of \<^verbatim>\<open>src/progs.gpl/pppd.alpha/pptp/pptp_gre.c\<close>: packets from the terminal of the PPP daemon
  go out in numbered GRE packets, and GRE packets that come in are put in order and written to the terminal.

  \<^item> \<open>gre\<close> holds the static variables of the file with the queue and the event loop, and a log of what is written (\<open>gr_out\<close>). Between
    two calls the buffer \<^verbatim>\<open>gre_buff\<close> keeps what the last one left in it.
  \<^item> The clock, the allocator and the answers of \<^verbatim>\<open>write\<close> are functions of the number of times they have been asked (\<open>gr_tick\<close>).
  \<^item> \<^verbatim>\<open>fd\<close> in the functions below is always the tunnel's descriptor, which is also what the timer is registered with.
  \<^item> A copy from beyond the end of \<^verbatim>\<open>gre_buff\<close> is \<open>None\<close>.
\<close>

definition PPTP_GRE_PROTO :: u16 where "PPTP_GRE_PROTO = 0x880B"
definition PPTP_GRE_VER :: u8 where "PPTP_GRE_VER = 1"
definition PPTP_GRE_FLAG_C :: u8 where "PPTP_GRE_FLAG_C = 0x80"
definition PPTP_GRE_FLAG_R :: u8 where "PPTP_GRE_FLAG_R = 0x40"
definition PPTP_GRE_FLAG_K :: u8 where "PPTP_GRE_FLAG_K = 0x20"
definition PPTP_GRE_FLAG_S :: u8 where "PPTP_GRE_FLAG_S = 0x10"
definition PPTP_GRE_FLAG_A :: u8 where "PPTP_GRE_FLAG_A = 0x80"

lemmas gre_consts = PPTP_GRE_PROTO_def PPTP_GRE_VER_def PPTP_GRE_FLAG_C_def PPTP_GRE_FLAG_R_def PPTP_GRE_FLAG_K_def PPTP_GRE_FLAG_S_def
  PPTP_GRE_FLAG_A_def

definition gre_buff_size :: nat where "gre_buff_size = PACKET_MAX + 64"

text \<open>The size of \<^verbatim>\<open>struct pptp_gre_header\<close> and of its last two fields.\<close>

definition gre_header_size :: nat where "gre_header_size = 16"
definition gre_field_size :: nat where "gre_field_size = 4"

record gre_stats =
  rx_accepted :: u32
  rx_lost :: u32
  rx_underwin :: u32
  rx_overwin :: u32
  rx_buffered :: u32
  rx_errors :: u32
  rx_truncated :: u32
  rx_invalid :: u32
  rx_acks :: u32
  tx_sent :: u32
  tx_failed :: u32
  tx_short :: u32
  tx_acks :: u32
  tx_oversize :: u32
  pt_seq :: u32
  pt_time :: "64 word"
  st_rtt :: u32

definition gre_stats_init :: gre_stats where
  "gre_stats_init = \<lparr>rx_accepted = 0, rx_lost = 0, rx_underwin = 0, rx_overwin = 0, rx_buffered = 0, rx_errors = 0, rx_truncated = 0,
     rx_invalid = 0, rx_acks = 0, tx_sent = 0, tx_failed = 0, tx_short = 0, tx_acks = 0, tx_oversize = 0, pt_seq = 0, pt_time = 0, st_rtt = 0\<rparr>"

text \<open>What leaves the program: a packet for the tunnel, bytes for the terminal, and the calls into the control connection.\<close>

datatype gre_out = ToGre "u8 list" | ToPty "u8 list" | ConnClose | CallOpen | HungUp | Close int

record 'h gre =
  gr_pptp_fd :: int
  gr_gre_fd :: int
  gr_ack_sent :: u32
  gr_ack_recv :: u32
  gr_seq_sent :: u32
  gr_seq_recv :: u32
  gr_call_id :: u16
  gr_peer_call_id :: u16
  gr_stats :: gre_stats
  gr_buff :: "u8 list"
  gr_first :: bool
  gr_seq :: u32
  gr_ready :: bool
  gr_exit :: bool
  gr_pq :: pqueue
  gr_el :: "'h eloop"
  gr_tick :: nat
  gr_out :: "gre_out list"

record 'h gre_env =
  ge_handler :: 'h
  ge_fd :: u32
  ge_sync :: bool
  ge_clock :: "nat \<Rightarrow> timeval"
  ge_mem :: "nat \<Rightarrow> bool"
  ge_write :: "nat \<Rightarrow> u8 list \<Rightarrow> int"

text \<open>The answers of the system, one after the other.\<close>

definition gre_now :: "'h gre_env \<Rightarrow> 'h gre \<Rightarrow> timeval \<times> 'h gre" where
  "gre_now e w = (ge_clock e (gr_tick w), w\<lparr>gr_tick := gr_tick w + 1\<rparr>)"

definition gre_write :: "'h gre_env \<Rightarrow> gre_out \<Rightarrow> u8 list \<Rightarrow> 'h gre \<Rightarrow> int \<times> 'h gre" where
  "gre_write e out bytes w = (ge_write e (gr_tick w) bytes, w\<lparr>gr_out := gr_out w @ [out], gr_tick := gr_tick w + 1\<rparr>)"

definition gre_stat :: "(gre_stats \<Rightarrow> gre_stats) \<Rightarrow> 'h gre \<Rightarrow> 'h gre" where
  "gre_stat f w = w\<lparr>gr_stats := f (gr_stats w)\<rparr>"

definition WRAPPED :: "u32 \<Rightarrow> u32 \<Rightarrow> bool" where
  "WRAPPED curseq lastseq \<longleftrightarrow> curseq AND 0xffffff00 = 0 \<and> lastseq AND 0xffffff00 = 0xffffff00"

text \<open>The microseconds are computed in 32 bits before they become a 64 bit number.\<close>

definition time_now_usecs :: "timeval \<Rightarrow> 64 word" where
  "time_now_usecs tv = scast (tv_sec tv * 1000000 + tv_usec tv)"

definition init_vars :: "'h gre \<Rightarrow> 'h gre" where
  "init_vars w = w\<lparr>gr_pptp_fd := -1, gr_gre_fd := -1, gr_stats := gre_stats_init, gr_ack_sent := 0, gr_ack_recv := 0, gr_seq_sent := 0, gr_seq_recv := 0, gr_first := True,
     gr_seq := 1, gr_ready := False, gr_exit := False\<rparr>"

section \<open>Sending\<close>

text \<open>The timer that makes sure an acknowledgement is sent, half a second after a packet.\<close>

definition gre_arm :: "'h gre_env \<Rightarrow> 'h gre \<Rightarrow> 'h gre" where
  "gre_arm e w = w\<lparr>gr_el := snd (eloop_register_timeout (ge_mem e (gr_tick w)) (ge_clock e (gr_tick w)) 0 500000 (ge_handler e) 0 (ge_fd e) (gr_el w)),
     gr_tick := gr_tick w + 1\<rparr>"

definition gre_disarm :: "'h gre_env \<Rightarrow> 'h gre \<Rightarrow> 'h gre" where
  "gre_disarm e w = w\<lparr>gr_el := snd (eloop_cancel_timeout (ge_handler e) 0 (ge_fd e) (gr_el w))\<rparr>"

text \<open>The header in the buffer.\<close>

definition gre_put :: "nat \<Rightarrow> u8 list \<Rightarrow> 'h gre \<Rightarrow> 'h gre" where
  "gre_put i bs w = w\<lparr>gr_buff := take i (gr_buff w) @ bs @ drop (i + length bs) (gr_buff w)\<rparr>"

definition gre_header :: "u8 \<Rightarrow> u8 \<Rightarrow> u16 \<Rightarrow> u16 \<Rightarrow> u8 list" where
  "gre_header flags ver plen call_id = [flags, ver] @ be16 PPTP_GRE_PROTO @ be16 plen @ be16 call_id"

definition encaps_gre_ack :: "'h gre_env \<Rightarrow> 'h gre \<Rightarrow> int \<times> 'h gre" where
  "encaps_gre_ack e w =
     (let w = gre_put 0 (gre_header PPTP_GRE_FLAG_K PPTP_GRE_VER 0 (gr_peer_call_id w)) w in
      if gr_ack_sent w = gr_seq_recv w then (0, w)
      else
        let w = gre_put 0 (gre_header PPTP_GRE_FLAG_K (PPTP_GRE_VER OR PPTP_GRE_FLAG_A) 0 (gr_peer_call_id w) @ be32 (gr_seq_recv w)) w;
            w = gre_disarm e (w\<lparr>gr_ack_sent := gr_seq_recv w\<rparr>);
            n = gre_header_size - gre_field_size;
            (rc, w) = gre_write e (ToGre (take n (gr_buff w))) (take n (gr_buff w)) w;
            w = gre_stat (if rc < 0 then (\<lambda>s. s\<lparr>tx_failed := tx_failed s + 1\<rparr>)
              else if rc < int n then (\<lambda>s. s\<lparr>tx_short := tx_short s + 1\<rparr>) else (\<lambda>s. s\<lparr>tx_acks := tx_acks s + 1\<rparr>)) w
        in (rc, w))"

text \<open>The end of the sending of a packet, with its bytes in the buffer.\<close>

definition gre_emit :: "'h gre_env \<Rightarrow> nat \<Rightarrow> 'h gre \<Rightarrow> int \<times> 'h gre" where
  "gre_emit e n w =
     (let (rc, w) = gre_write e (ToGre (take n (gr_buff w))) (take n (gr_buff w)) w
      in (rc, if rc < 0 then gre_stat (\<lambda>s. s\<lparr>tx_failed := tx_failed s + 1\<rparr>) w
        else if rc < int n then gre_stat (\<lambda>s. s\<lparr>tx_short := tx_short s + 1\<rparr>) w
        else
          let (t, w) = gre_now e w in
          gre_stat (\<lambda>s. s\<lparr>tx_sent := tx_sent s + 1, pt_seq := gr_seq_sent w, pt_time := time_now_usecs t\<rparr>) w))"

definition encaps_gre_data :: "'h gre_env \<Rightarrow> u8 list \<Rightarrow> 'h gre \<Rightarrow> int \<times> 'h gre" where
  "encaps_gre_data e pack w =
     (let flags = PPTP_GRE_FLAG_K OR PPTP_GRE_FLAG_S; plen = word_of_nat (length pack);
          w = gre_put 0 (gre_header flags PPTP_GRE_VER plen (gr_peer_call_id w) @ be32 (gr_seq w)) w;
          (header_len, w) =
            (if gr_ack_sent w \<noteq> gr_seq_recv w then
               let w = gre_put 0 (gre_header flags (PPTP_GRE_VER OR PPTP_GRE_FLAG_A) plen (gr_peer_call_id w) @ be32 (gr_seq w) @ be32 (gr_seq_recv w)) w
               in (gre_header_size, gre_disarm e (w\<lparr>gr_ack_sent := gr_seq_recv w\<rparr>))
             else (gre_header_size - gre_field_size, w))
      in if PACKET_MAX + gre_header_size \<le> header_len + length pack
         then (0, gre_stat (\<lambda>s. s\<lparr>tx_oversize := tx_oversize s + 1\<rparr>) w)
         else
           let w = gre_put header_len pack w in
           gre_emit e (header_len + length pack) (w\<lparr>gr_seq_sent := gr_seq w, gr_seq := gr_seq w + 1\<rparr>))"

text \<open>A null pointer stands for an acknowledgement without data.\<close>

definition encaps_gre :: "'h gre_env \<Rightarrow> u8 list option \<Rightarrow> 'h gre \<Rightarrow> int \<times> 'h gre" where
  "encaps_gre e pack w = (case pack of None \<Rightarrow> encaps_gre_ack e w | Some p \<Rightarrow> encaps_gre_data e p w)"

definition gre_send_ack :: "'h gre_env \<Rightarrow> 'h gre \<Rightarrow> 'h gre" where
  "gre_send_ack e w = (if gr_ack_sent w \<noteq> gr_seq_recv w then snd (encaps_gre e None w) else w)"

section \<open>Receiving\<close>

text \<open>The callback of the receiving functions writes a frame to the terminal.\<close>

definition gre_deliver :: "'h gre_env \<Rightarrow> u8 list \<Rightarrow> 'h gre \<Rightarrow> int \<times> 'h gre" where
  "gre_deliver e pack w = (let bytes = encaps_hdlc (ge_sync e) pack in gre_write e (ToPty bytes) bytes w)"

definition gre_valid :: "u8 \<Rightarrow> u8 \<Rightarrow> u16 \<Rightarrow> bool" where
  "gre_valid flags ver protocol \<longleftrightarrow> \<not> (ver AND 0x7F \<noteq> PPTP_GRE_VER \<or> protocol \<noteq> PPTP_GRE_PROTO \<or> flags AND PPTP_GRE_FLAG_C \<noteq> 0
     \<or> flags AND PPTP_GRE_FLAG_R \<noteq> 0 \<or> flags AND PPTP_GRE_FLAG_K = 0 \<or> flags AND 0xF \<noteq> 0)"

text \<open>An acknowledgement. The mean of the round trip times is a division of signed numbers.\<close>

definition gre_ack :: "'h gre_env \<Rightarrow> u32 \<Rightarrow> 'h gre \<Rightarrow> 'h gre" where
  "gre_ack e ack w =
     (let w = (if ack > gr_ack_recv w then w\<lparr>gr_ack_recv := ack\<rparr> else w);
          w = (if WRAPPED ack (gr_ack_recv w) then w\<lparr>gr_ack_recv := ack\<rparr> else w)
      in if gr_ack_recv w = pt_seq (gr_stats w)
         then
           let (t, w) = gre_now e w;
               rtt = ucast (time_now_usecs t - pt_time (gr_stats w))
           in gre_stat (\<lambda>s. s\<lparr>st_rtt := word_of_int (sint (st_rtt s + rtt) sdiv 2)\<rparr>) w
         else w)"

text \<open>A packet by its number: the next one is passed on, an old one dropped, and an early one kept in the queue. The payload is an
  argument; reading it is part of the first and the third case.\<close>

definition gre_data :: "'h gre_env \<Rightarrow> u32 \<Rightarrow> u8 list option \<Rightarrow> 'h gre \<Rightarrow> (int \<times> 'h gre) option" where
  "gre_data e seq payload w =
     (if gr_first w \<or> seq = gr_seq_recv w + 1 \<or> WRAPPED seq (gr_seq_recv w) then do {
        let w = gre_stat (\<lambda>s. s\<lparr>rx_accepted := rx_accepted s + 1\<rparr>) w;
        let w = gre_arm e (w\<lparr>gr_first := False, gr_seq_recv := seq\<rparr>);
        p \<leftarrow> payload;
        Some (gre_deliver e p w) }
      else if seq < gr_seq_recv w + 1 \<or> WRAPPED (gr_seq_recv w) seq then
        Some (0, gre_stat (\<lambda>s. s\<lparr>rx_underwin := rx_underwin s + 1\<rparr>) w)
      else if seq < gr_seq_recv w + MISSING_WINDOW \<or> WRAPPED seq (gr_seq_recv w + MISSING_WINDOW) then do {
        p \<leftarrow> payload;
        let mem = (ge_mem e (gr_tick w), ge_mem e (gr_tick w + 1));
        let w = w\<lparr>gr_pq := snd (pqueue_add mem (ge_clock e (gr_tick w)) seq p (gr_pq w)), gr_tick := gr_tick w + 2\<rparr>;
        Some (0, gre_stat (\<lambda>s. s\<lparr>rx_buffered := rx_buffered s + 1\<rparr>) w) }
      else Some (0, gre_stat (\<lambda>s. s\<lparr>rx_overwin := rx_overwin s + 1\<rparr>) w))"

text \<open>The argument \<open>inp\<close> is what \<^verbatim>\<open>read\<close> gives, at most the size of the buffer, and is empty when it fails. The test for a truncated packet
  is made in unsigned arithmetic and does not count the IP header.\<close>

definition gre_parse :: "'h gre_env \<Rightarrow> u32 \<Rightarrow> 'h gre \<Rightarrow> (int \<times> 'h gre) option" where
  "gre_parse e status w =
     (let b = gr_buff w;
          ip_len = (if b ! 0 AND 0xF0 = 0x40 then unat (b ! 0 AND 0xF) * 4 else 0);
          flags = b ! ip_len; ver = b ! (ip_len + 1);
          protocol = un_be16 (take 2 (drop (ip_len + 2) b)); plen = un_be16 (take 2 (drop (ip_len + 4) b));
          seq = un_be32 (take 4 (drop (ip_len + 8) b)); ack = un_be32 (take 4 (drop (ip_len + 12) b))
      in if \<not> gre_valid flags ver protocol then Some (0, gre_stat (\<lambda>s. s\<lparr>rx_invalid := rx_invalid s + 1\<rparr>) w)
         else
           let w = (if ver AND PPTP_GRE_FLAG_A \<noteq> 0 then gre_ack e (if flags AND PPTP_GRE_FLAG_S \<noteq> 0 then ack else seq) w else w) in
           if flags AND PPTP_GRE_FLAG_S = 0 then Some (0, w)
           else
             let headersize = (if ver AND PPTP_GRE_FLAG_A = 0 then gre_header_size - gre_field_size else gre_header_size) in
             if status - word_of_nat headersize < ucast plen then Some (0, gre_stat (\<lambda>s. s\<lparr>rx_truncated := rx_truncated s + 1\<rparr>) w)
             else gre_data e seq (rdn b (ip_len + headersize) (unat plen)) w)"

definition decaps_gre :: "'h gre_env \<Rightarrow> u8 list \<Rightarrow> 'h gre \<Rightarrow> (int \<times> 'h gre) option" where
  "decaps_gre e inp w =
     (if inp = [] then Some (-1, gre_stat (\<lambda>s. s\<lparr>rx_errors := rx_errors s + 1\<rparr>) w)
      else gre_parse e (word_of_nat (length inp)) (w\<lparr>gr_buff := inp @ drop (length inp) (gr_buff w)\<rparr>))"

text \<open>The loop over the queue: whether its head is due, which asks for the time only when it is not the next packet, and the step.\<close>

definition gre_due :: "'h gre_env \<Rightarrow> pq_entry \<Rightarrow> 'h gre \<Rightarrow> bool \<times> 'h gre" where
  "gre_due e p w =
     (if pe_seq p = gr_seq_recv w + 1 \<or> WRAPPED (pe_seq p) (gr_seq_recv w) then (True, w)
      else let (t, w) = gre_now e w in (sint (pqueue_expiry_time t p) \<le> 0, w))"

definition gre_take :: "'h gre_env \<Rightarrow> pq_entry \<Rightarrow> 'h gre \<Rightarrow> int \<times> 'h gre" where
  "gre_take e p w =
     (let w = (if pe_seq p \<noteq> gr_seq_recv w + 1 \<and> \<not> WRAPPED (pe_seq p) (gr_seq_recv w)
            then gre_stat (\<lambda>s. s\<lparr>rx_lost := rx_lost s + (pe_seq p - gr_seq_recv w - 1)\<rparr>) w else w);
          (status, w) = gre_deliver e (pe_packet p) (w\<lparr>gr_seq_recv := pe_seq p\<rparr>);
          w = w\<lparr>gr_pq := pqueue_del 0 (gr_pq w)\<rparr>
      in if status < 0 then (status, w) else (0, gre_arm e w))"

lemma deliver_pq: "gr_pq (snd (gre_deliver e p w)) = gr_pq w"
  by (simp add: gre_deliver_def gre_write_def Let_def)

lemma due_pq: "gr_pq (snd (gre_due e p w)) = gr_pq w"
  by (simp add: gre_due_def gre_now_def)

lemma take_pq: "gr_pq (snd (gre_take e p w)) = pqueue_del 0 (gr_pq w)"
  by (simp add: gre_take_def Let_def gre_arm_def gre_stat_def gre_deliver_def gre_write_def split: prod.split)

lemma take_shorter:
  assumes "pqueue_head (gr_pq w) = Some p" and "(due, w1) = gre_due e p w" and "(status, w2) = gre_take e p w1"
  shows "length (pq_list (gr_pq w2)) < length (pq_list (gr_pq w))"
proof -
  have "gr_pq w1 = gr_pq w" "gr_pq w2 = pqueue_del 0 (gr_pq w1)"
    using due_pq [of e p w] take_pq [of e p w1] assms(2,3) by (metis snd_conv)+
  then show ?thesis using assms(1) by (simp add: pqueue_head_def pqueue_del_def split: list.splits)
qed

function dequeue_gre :: "'h gre_env \<Rightarrow> 'h gre \<Rightarrow> int \<times> 'h gre" where
  "dequeue_gre e w = (case pqueue_head (gr_pq w) of
     None \<Rightarrow> (0, w)
   | Some p \<Rightarrow>
       let (due, w) = gre_due e p w in
       if \<not> due then (0, w)
       else let (status, w) = gre_take e p w in if status < 0 then (status, w) else dequeue_gre e w)"
  by auto

termination
  by (relation "measure (\<lambda>(e, w). length (pq_list (gr_pq w)))") (simp_all add: take_shorter)

declare dequeue_gre.simps [simp del]

section \<open>The handlers\<close>

definition gre_handler :: "'h gre_env \<Rightarrow> u8 list \<Rightarrow> 'h gre \<Rightarrow> 'h gre option" where
  "gre_handler e inp w = do {
     (status, w) \<leftarrow> decaps_gre e inp w;
     if status < 0 then Some (w\<lparr>gr_out := gr_out w @ [ConnClose]\<rparr>)
     else
       let (status, w) = dequeue_gre e w in
       Some (if status < 0 then w\<lparr>gr_out := gr_out w @ [ConnClose]\<rparr> else w) }"

definition pty_handler :: "'h gre_env \<Rightarrow> u8 list \<Rightarrow> hdlc \<times> 'h gre \<Rightarrow> hdlc \<times> 'h gre" where
  "pty_handler e inp w =
     (let (status, h, w) = decaps_hdlc (ge_sync e) (\<lambda>p. encaps_gre e (Some p)) inp w in
      (h, if status < 0 then w\<lparr>gr_out := gr_out w @ [ConnClose]\<rparr> else w))"

text \<open>What the control connection tells the tunnel. Opening a call resets the counters and takes the identifiers of the call.\<close>

datatype call_state = CALL_OPEN_RQST | CALL_OPEN_DONE | CALL_OPEN_FAIL | CALL_CLOSE_RQST | CALL_CLOSE_DONE

datatype conn_state = CONN_OPEN_RQST | CONN_OPEN_FAIL | CONN_OPEN_DONE | CONN_CLOSE_RQST | CONN_CLOSE_DONE

definition call_callback :: "u16 \<times> u16 \<Rightarrow> bool \<Rightarrow> call_state \<Rightarrow> 'h gre \<Rightarrow> 'h gre" where
  "call_callback ids pptp_destroy_conn state w = (case state of
     CALL_OPEN_RQST \<Rightarrow> w
   | CALL_OPEN_DONE \<Rightarrow> w\<lparr>gr_ack_sent := 0, gr_ack_recv := 0, gr_seq_sent := 0, gr_seq_recv := 0, gr_call_id := fst ids, gr_peer_call_id := snd ids,
       gr_el := eloop_terminate (gr_el w), gr_ready := True\<rparr>
   | CALL_OPEN_FAIL \<Rightarrow> w\<lparr>gr_ready := False, gr_out := gr_out w @ [ConnClose]\<rparr>
   | CALL_CLOSE_RQST \<Rightarrow> w
   | CALL_CLOSE_DONE \<Rightarrow> (let w = w\<lparr>gr_ready := False\<rparr> in if \<not> pptp_destroy_conn then w\<lparr>gr_out := gr_out w @ [ConnClose]\<rparr> else w))"

definition conn_callback :: "conn_state \<Rightarrow> 'h gre \<Rightarrow> 'h gre" where
  "conn_callback state w = (case state of
     CONN_OPEN_RQST \<Rightarrow> w
   | CONN_OPEN_DONE \<Rightarrow> w\<lparr>gr_out := gr_out w @ [CallOpen]\<rparr>
   | CONN_OPEN_FAIL \<Rightarrow> w\<lparr>gr_el := eloop_terminate (gr_el w)\<rparr>
   | CONN_CLOSE_RQST \<Rightarrow> w\<lparr>gr_ready := False\<rparr>
   | CONN_CLOSE_DONE \<Rightarrow> 
       w\<lparr>gr_out := gr_out w @ [HungUp] @ map Close (filter (\<lambda>fd. fd > 0) [gr_pptp_fd w, gr_gre_fd w]), gr_el := eloop_terminate (gr_el w),
         gr_pptp_fd := -1, gr_gre_fd := -1, gr_ready := False, gr_exit := True\<rparr>)"

section \<open>The packets of the tunnel\<close>

definition gre_frame :: "u16 \<Rightarrow> u32 \<Rightarrow> u32 option \<Rightarrow> u8 list \<Rightarrow> u8 list" where
  "gre_frame call s ack p = gre_header (PPTP_GRE_FLAG_K OR PPTP_GRE_FLAG_S) (if ack = None then PPTP_GRE_VER else PPTP_GRE_VER OR PPTP_GRE_FLAG_A)
     (word_of_nat (length p)) call @ be32 s @ (case ack of None \<Rightarrow> [] | Some a \<Rightarrow> be32 a) @ p"

lemma length_header [simp]: "length (gre_header f v n c) = 8"
  by (simp add: gre_header_def)

lemma put_put: "length bs \<le> length cs \<Longrightarrow> length cs \<le> length (gr_buff w) \<Longrightarrow> gre_put 0 cs (gre_put 0 bs w) = gre_put 0 cs w"
  by (simp add: gre_put_def)

lemma put_length [simp]: "i + length bs \<le> length (gr_buff w) \<Longrightarrow> length (gr_buff (gre_put i bs w)) = length (gr_buff w)"
  by (simp add: gre_put_def)

lemma put_append: "length bs + length cs \<le> length (gr_buff w) \<Longrightarrow> take (length bs + length cs) (gr_buff (gre_put (length bs) cs (gre_put 0 bs w))) = bs @ cs"
  by (simp add: gre_put_def)

text \<open>What sending a packet does: the packet carries the next number, and the acknowledgement that is outstanding.\<close>

definition gre_due_ack :: "'h gre \<Rightarrow> u32 option" where
  "gre_due_ack w = (if gr_ack_sent w \<noteq> gr_seq_recv w then Some (gr_seq_recv w) else None)"

named_theorems gre_simps \<open>what the steps of the tunnel change\<close>

lemma gre_base_simps [gre_simps]:
  "gr_seq_recv (gre_stat f w) = gr_seq_recv w" "gr_pq (gre_stat f w) = gr_pq w" "gr_out (gre_stat f w) = gr_out w" "gr_first (gre_stat f w) = gr_first w"
  "gr_seq (gre_stat f w) = gr_seq w" "gr_buff (gre_stat f w) = gr_buff w" "gr_ack_sent (gre_stat f w) = gr_ack_sent w" "gr_el (gre_stat f w) = gr_el w"
  "gr_peer_call_id (gre_stat f w) = gr_peer_call_id w"
  "gr_seq_recv (gre_arm e w) = gr_seq_recv w" "gr_pq (gre_arm e w) = gr_pq w" "gr_out (gre_arm e w) = gr_out w" "gr_first (gre_arm e w) = gr_first w"
  "gr_seq (gre_arm e w) = gr_seq w" "gr_buff (gre_arm e w) = gr_buff w" "gr_ack_sent (gre_arm e w) = gr_ack_sent w"
  "gr_peer_call_id (gre_arm e w) = gr_peer_call_id w"
  "gr_seq_recv (gre_disarm e w) = gr_seq_recv w" "gr_pq (gre_disarm e w) = gr_pq w" "gr_out (gre_disarm e w) = gr_out w"
  "gr_first (gre_disarm e w) = gr_first w" "gr_seq (gre_disarm e w) = gr_seq w" "gr_buff (gre_disarm e w) = gr_buff w"
  "gr_ack_sent (gre_disarm e w) = gr_ack_sent w" "gr_peer_call_id (gre_disarm e w) = gr_peer_call_id w"
  "gr_seq_recv (gre_put i bs w) = gr_seq_recv w" "gr_pq (gre_put i bs w) = gr_pq w" "gr_out (gre_put i bs w) = gr_out w"
  "gr_first (gre_put i bs w) = gr_first w" "gr_seq (gre_put i bs w) = gr_seq w" "gr_ack_sent (gre_put i bs w) = gr_ack_sent w"
  "gr_el (gre_put i bs w) = gr_el w" "gr_peer_call_id (gre_put i bs w) = gr_peer_call_id w"
  by (simp_all add: gre_stat_def gre_arm_def gre_disarm_def gre_put_def)

lemma emit_simps [gre_simps]:
  "gr_out (snd (gre_emit e n w)) = gr_out w @ [ToGre (take n (gr_buff w))]" "gr_seq_recv (snd (gre_emit e n w)) = gr_seq_recv w"
  "gr_pq (snd (gre_emit e n w)) = gr_pq w" "gr_first (snd (gre_emit e n w)) = gr_first w" "gr_seq (snd (gre_emit e n w)) = gr_seq w"
  "gr_buff (snd (gre_emit e n w)) = gr_buff w" "gr_ack_sent (snd (gre_emit e n w)) = gr_ack_sent w" "gr_el (snd (gre_emit e n w)) = gr_el w"
  "gr_peer_call_id (snd (gre_emit e n w)) = gr_peer_call_id w" "fst (gre_emit e n w) = ge_write e (gr_tick w) (take n (gr_buff w))"
  by (simp_all add: gre_emit_def gre_write_def gre_now_def gre_stat_def Let_def)

lemma encaps_data_emit:
  assumes "length (gr_buff w) = gre_buff_size" and "length p < PACKET_MAX"
  shows "\<exists>w'. encaps_gre_data e p w = gre_emit e (length (gre_frame (gr_peer_call_id w) (gr_seq w) (gre_due_ack w) p)) w'
    \<and> take (length (gre_frame (gr_peer_call_id w) (gr_seq w) (gre_due_ack w) p)) (gr_buff w') = gre_frame (gr_peer_call_id w) (gr_seq w) (gre_due_ack w) p
    \<and> length (gr_buff w') = gre_buff_size \<and> gr_seq w' = gr_seq w + 1 \<and> gr_ack_sent w' = gr_seq_recv w \<and> gr_seq_recv w' = gr_seq_recv w
    \<and> gr_pq w' = gr_pq w \<and> gr_first w' = gr_first w \<and> gr_out w' = gr_out w \<and> gr_peer_call_id w' = gr_peer_call_id w
    \<and> gr_el w' = (if gre_due_ack w = None then gr_el w else gr_el (gre_disarm e w))"
proof -
  let ?c = "gr_peer_call_id w" and ?f = "PPTP_GRE_FLAG_K OR PPTP_GRE_FLAG_S" and ?n = "word_of_nat (length p) :: u16"
  define h where "h = gre_header ?f PPTP_GRE_VER ?n ?c @ be32 (gr_seq w)"
  define ha where "ha = gre_header ?f (PPTP_GRE_VER OR PPTP_GRE_FLAG_A) ?n ?c @ be32 (gr_seq w) @ be32 (gr_seq_recv w)"
  have l: "length h = 12" "length ha = 16" by (simp_all add: h_def ha_def)
  have b: "length (gr_buff w) = 8260" "length p < 8196" using assms by (simp_all add: gre_buff_size_def PACKET_MAX_def)
  show ?thesis
  proof (cases "gr_ack_sent w = gr_seq_recv w")
    case True
    define v where "v = gre_put 12 p (gre_put 0 h w)"
    define w' where "w' = v\<lparr>gr_seq_sent := gr_seq v, gr_seq := gr_seq v + 1\<rparr>"
    have f: "gre_frame ?c (gr_seq w) (gre_due_ack w) p = h @ p" using True by (simp add: gre_frame_def gre_due_ack_def h_def)
    have "encaps_gre_data e p w = gre_emit e (12 + length p) w'"
      using True b(2) by (simp add: encaps_gre_data_def h_def [symmetric] v_def w'_def gre_simps PACKET_MAX_def gre_header_size_def gre_field_size_def Let_def)
    moreover have "take (12 + length p) (gr_buff w') = h @ p" "length (gr_buff w') = gre_buff_size"
      using put_append [of h p w] b l assms(1) by (simp_all add: v_def w'_def)
    moreover have "gr_seq w' = gr_seq w + 1" "gr_ack_sent w' = gr_seq_recv w" "gr_seq_recv w' = gr_seq_recv w" "gr_pq w' = gr_pq w"
      "gr_first w' = gr_first w" "gr_out w' = gr_out w" "gr_peer_call_id w' = gr_peer_call_id w" "gr_el w' = gr_el w"
      using True by (simp_all add: w'_def v_def gre_simps)
    ultimately show ?thesis using True l unfolding f by (intro exI [of _ w']) (simp add: gre_due_ack_def)
  next
    case False
    define u where "u = (gre_put 0 ha w)\<lparr>gr_ack_sent := gr_seq_recv w\<rparr>"
    define v where "v = gre_put 16 p (gre_disarm e u)"
    define w' where "w' = v\<lparr>gr_seq_sent := gr_seq v, gr_seq := gr_seq v + 1\<rparr>"
    have f: "gre_frame ?c (gr_seq w) (gre_due_ack w) p = ha @ p" using False by (simp add: gre_frame_def gre_due_ack_def ha_def)
    have pp: "gre_put 0 ha (gre_put 0 h w) = gre_put 0 ha w" by (rule put_put) (simp_all add: l b)
    have "encaps_gre_data e p w = gre_emit e (16 + length p) w'"
      using False b(2) pp
      by (simp add: encaps_gre_data_def h_def [symmetric] ha_def [symmetric] u_def v_def w'_def gre_simps PACKET_MAX_def gre_header_size_def Let_def)
    moreover have "take (16 + length p) (gr_buff w') = ha @ p" "length (gr_buff w') = gre_buff_size"
      using put_append [of ha p w] b l assms(1) by (simp_all add: v_def w'_def u_def gre_put_def gre_disarm_def)
    moreover have "gr_seq w' = gr_seq w + 1" "gr_ack_sent w' = gr_seq_recv w" "gr_seq_recv w' = gr_seq_recv w" "gr_pq w' = gr_pq w"
      "gr_first w' = gr_first w" "gr_out w' = gr_out w" "gr_peer_call_id w' = gr_peer_call_id w" "gr_el w' = gr_el (gre_disarm e w)"
      by (simp_all add: w'_def v_def u_def gre_simps) (simp add: gre_disarm_def gre_simps)
    ultimately show ?thesis using False l unfolding f by (intro exI [of _ w']) (simp add: gre_due_ack_def)
  qed
qed

lemma encaps_data_sent:
  assumes "length (gr_buff w) = gre_buff_size" and "length p < PACKET_MAX" and "w' = snd (encaps_gre_data e p w)"
  shows "gr_out w' = gr_out w @ [ToGre (gre_frame (gr_peer_call_id w) (gr_seq w) (gre_due_ack w) p)]" "gr_seq w' = gr_seq w + 1"
    "gr_ack_sent w' = gr_seq_recv w" "gr_seq_recv w' = gr_seq_recv w" "gr_pq w' = gr_pq w" "gr_first w' = gr_first w"
    "gr_peer_call_id w' = gr_peer_call_id w" "length (gr_buff w') = gre_buff_size"
    "gr_el w' = (if gre_due_ack w = None then gr_el w else gr_el (gre_disarm e w))"
  using encaps_data_emit [OF assms(1,2), of e] unfolding assms(3) by (auto simp: gre_simps)

text \<open>What reading a packet back does, behind any IP header.\<close>

definition ip_header :: "u8 list \<Rightarrow> bool" where
  "ip_header ih \<longleftrightarrow> ih \<noteq> [] \<and> ih ! 0 AND 0xF0 = 0x40 \<and> length ih = unat (ih ! 0 AND 0xF) * 4"

definition gre_take_ack :: "'h gre_env \<Rightarrow> u32 option \<Rightarrow> 'h gre \<Rightarrow> 'h gre" where
  "gre_take_ack e ack w = (case ack of None \<Rightarrow> w | Some a \<Rightarrow> gre_ack e a w)"

lemma frame_fields:
  assumes "b = gre_frame call s ack p @ rest"
  shows "b ! 0 = PPTP_GRE_FLAG_K OR PPTP_GRE_FLAG_S" "b ! 1 = (if ack = None then PPTP_GRE_VER else PPTP_GRE_VER OR PPTP_GRE_FLAG_A)"
    "take 2 (drop 2 b) = be16 PPTP_GRE_PROTO" "take 2 (drop 4 b) = be16 (word_of_nat (length p))" "take 4 (drop 8 b) = be32 s"
    "ack = Some a \<Longrightarrow> take 4 (drop 12 b) = be32 a" "take (length p) (drop (if ack = None then 12 else 16) b) = p"
    "length (gre_frame call s ack p) = (if ack = None then 12 else 16) + length p"
  unfolding assms by (cases ack; simp add: gre_frame_def gre_header_def be16_def be32_def)+

lemma gre_flags:
  "gre_valid (PPTP_GRE_FLAG_K OR PPTP_GRE_FLAG_S) PPTP_GRE_VER PPTP_GRE_PROTO" "(PPTP_GRE_FLAG_K OR PPTP_GRE_FLAG_S) AND PPTP_GRE_FLAG_S \<noteq> 0"
  "gre_valid (PPTP_GRE_FLAG_K OR PPTP_GRE_FLAG_S) (PPTP_GRE_VER OR PPTP_GRE_FLAG_A) PPTP_GRE_PROTO"
  "PPTP_GRE_VER AND PPTP_GRE_FLAG_A = 0" "(PPTP_GRE_VER OR PPTP_GRE_FLAG_A) AND PPTP_GRE_FLAG_A \<noteq> 0"
  by (simp_all add: gre_valid_def gre_consts)

lemma gre_ack_buff: "gr_buff (gre_ack e a w) = gr_buff w"
  by (simp add: gre_ack_def gre_now_def gre_stat_def Let_def)

text \<open>The test for truncated packets counts the IP header as data: \<open>n\<close> bytes were read.\<close>

lemma parse_frame:
  assumes "ip_header ih" and "length p < 65536" and "gr_buff v = ih @ gre_frame call s ack p @ rest"
    and "(if ack = None then 12 else 16) + length p \<le> n" and "n \<le> gre_buff_size"
  shows "gre_parse e (word_of_nat n) v = gre_data e s (Some p) (gre_take_ack e ack v)"
proof -
  define b where "b = gre_frame call s ack p @ rest"
  define hs where "hs = (if ack = None then gre_header_size - gre_field_size else gre_header_size)"
  note F = frame_fields [OF b_def]
  have ih: "ih \<noteq> []" "ih ! 0 AND 0xF0 = 0x40" "unat (ih ! 0 AND 0xF) * 4 = length ih" using assms(1) by (simp_all add: ip_header_def)
  have hs: "hs = (if ack = None then 12 else 16)" by (simp add: hs_def gre_header_size_def gre_field_size_def)
  have lb: "hs + length p \<le> length b" using F(8) by (simp add: b_def hs)
  have nth: "(ih @ b) ! length ih = b ! 0" "(ih @ b) ! Suc (length ih) = b ! Suc 0" "(ih @ b) ! 0 = ih ! 0" using ih(1) by (simp_all add: nth_append)
  have plen: "unat (word_of_nat (length p) :: u16) = length p" using assms(2) by (simp add: unat_of_nat take_bit_nat_eq_self)
  have trunc: "\<not> (word_of_nat n - word_of_nat hs :: u32) < ucast (word_of_nat (length p) :: u16)"
  proof -
    have n: "hs + length p \<le> n" "n \<le> 8260" using assms(4,5) hs by (simp_all add: gre_buff_size_def PACKET_MAX_def)
    then have "word_of_nat n - word_of_nat hs = (word_of_nat (n - hs) :: u32)" by (simp add: of_nat_diff)
    moreover have "unat (word_of_nat (n - hs) :: u32) = n - hs" using n by (simp add: unat_of_nat take_bit_nat_eq_self del: of_nat_diff)
    moreover have "unat (ucast (word_of_nat (length p) :: u16) :: u32) = length p" using plen n by (simp add: unsigned_ucast_eq take_bit_nat_eq_self)
    ultimately show ?thesis using n by (simp add: word_less_nat_alt del: of_nat_diff)
  qed
  have rdn: "rdn (ih @ b) (length ih + hs) (length p) = Some p" using F(7) lb by (simp add: rdn_def hs)
  have v: "gr_buff v = ih @ b" using assms(3) by (simp add: b_def)
  show ?thesis unfolding gre_parse_def v Let_def nth ih(2) if_True ih(3)
    using F(1-6) gre_flags trunc rdn plen
    by (cases ack) (simp_all add: nth hs gre_take_ack_def gre_header_size_def gre_field_size_def)
qed

lemma decaps_frame:
  assumes "ip_header ih" and "length p < 65536" and "length (ih @ gre_frame call s ack p) \<le> gre_buff_size"
  shows "decaps_gre e (ih @ gre_frame call s ack p) w
    = gre_data e s (Some p) (gre_take_ack e ack (w\<lparr>gr_buff := ih @ gre_frame call s ack p @ drop (length (ih @ gre_frame call s ack p)) (gr_buff w)\<rparr>))"
proof -
  let ?f = "gre_frame call s ack p"
  have "(if ack = None then 12 else 16) + length p \<le> length (ih @ ?f)" using frame_fields(8) [where rest = "[]", OF refl, of call s ack p] by simp
  from parse_frame [OF assms(1,2) _ this assms(3), where v = "w\<lparr>gr_buff := ih @ ?f @ drop (length (ih @ ?f)) (gr_buff w)\<rparr>"]
  show ?thesis using assms(1) by (simp add: decaps_gre_def ip_header_def)
qed

end
