(* ===== verification/Pptp_Tunnel.thy ===== *)
theory Pptp_Tunnel
  imports Pptp_Gre "HOL-Library.Sublist"
begin

text \<open>
  Two ends of a PPTP tunnel. One end numbers the packets of its terminal and sends them, the network between loses, repeats and
  reorders what it carries, and the other end puts what arrives in order again (\<open>Pptp_Gre\<close>).

  \<^item> The events of an end are packets from the tunnel, bytes from the terminal and the timer of the acknowledgements, in any order.
  \<^item> Sequence numbers stay below the middle of their range (\<open>gre_limit\<close>), where the queue's comparison of signed numbers and the wrap
    around of the counters are not reached; \<open>Pptp_Limits\<close> shows what happens beyond.
\<close>

section \<open>Sequence numbers\<close>

definition gre_limit :: nat where "gre_limit = 2 ^ 31 - 301"

lemma unat_seq: "j < 2 ^ 32 \<Longrightarrow> unat (word_of_nat j :: u32) = j"
  by (simp add: unat_of_nat take_bit_nat_eq_self)

lemma seq_arith:
  assumes "j \<le> gre_limit" and "m \<le> gre_limit"
  shows "(word_of_nat j :: u32) = word_of_nat m + 1 \<longleftrightarrow> j = m + 1" "(word_of_nat j :: u32) < word_of_nat m + 1 \<longleftrightarrow> j \<le> m"
    "(word_of_nat j :: u32) < word_of_nat m + MISSING_WINDOW \<longleftrightarrow> j < m + 300" "sint (word_of_nat j :: u32) = int j"
proof -
  have u: "unat (word_of_nat j :: u32) = j" "unat (word_of_nat (m + 1) :: u32) = m + 1" "unat (word_of_nat (m + 300) :: u32) = m + 300"
    by (rule unat_seq, use assms in \<open>simp add: gre_limit_def\<close>)+
  have w: "word_of_nat m + 1 = (word_of_nat (m + 1) :: u32)" "word_of_nat m + MISSING_WINDOW = (word_of_nat (m + 300) :: u32)"
    by (simp_all add: MISSING_WINDOW_def)
  show "(word_of_nat j :: u32) = word_of_nat m + 1 \<longleftrightarrow> j = m + 1" unfolding w using u by (metis (no_types))
  show "(word_of_nat j :: u32) < word_of_nat m + 1 \<longleftrightarrow> j \<le> m" unfolding w word_less_nat_alt u by auto
  show "(word_of_nat j :: u32) < word_of_nat m + MISSING_WINDOW \<longleftrightarrow> j < m + 300" unfolding w word_less_nat_alt u ..
  show "sint (word_of_nat j :: u32) = int j" using assms(1) by (simp add: sint_uint signed_take_bit_int_eq_self gre_limit_def unsigned_of_nat take_bit_int_eq_self take_bit_nat_eq_self)
qed

lemma not_wrapped: "m \<le> gre_limit \<Longrightarrow> \<not> WRAPPED a (word_of_nat m)"
proof
  assume m: "m \<le> gre_limit" and "WRAPPED a (word_of_nat m)"
  then have "0xffffff00 AND (word_of_nat m :: u32) = 0xffffff00" by (simp add: WRAPPED_def and.commute)
  then have "0xffffff00 \<le> (word_of_nat m :: u32)" using word_and_le1 [of "0xffffff00" "word_of_nat m :: u32"] by simp
  then show False using m by (simp add: word_le_nat_alt unat_seq gre_limit_def)
qed

section \<open>The receiving end\<close>

fun pty_bytes :: "gre_out \<Rightarrow> u8 list list" where
  "pty_bytes (ToPty b) = [b]"
| "pty_bytes _ = []"

definition to_pty :: "'h gre \<Rightarrow> u8 list list" where
  "to_pty w = concat (map pty_bytes (gr_out w))"

text \<open>The packets \<open>ps\<close> were sent with the numbers from 1. After number \<open>m\<close> has been passed on, the terminal has got some of the packets up to
  it, in order, and the queue holds later ones, each under its own number.\<close>

definition early :: "u8 list list \<Rightarrow> nat \<Rightarrow> int \<times> u8 list \<Rightarrow> bool" where
  "early ps m x \<longleftrightarrow> int m < fst x \<and> fst x \<le> int (length ps) \<and> snd x = ps ! (nat (fst x) - 1)"

definition rx_ok :: "'h gre_env \<Rightarrow> u8 list list \<Rightarrow> nat \<Rightarrow> 'h gre \<Rightarrow> bool" where
  "rx_ok e ps m w \<longleftrightarrow> length (gr_buff w) = gre_buff_size \<and> m \<le> length ps \<and> gr_seq_recv w = word_of_nat m
     \<and> (gr_first w \<longrightarrow> m = 0 \<and> pq_contents (gr_pq w) = []) \<and> pq.ordered (gr_pq w) \<and> (\<forall>x \<in> set (pq_contents (gr_pq w)). early ps m x)
     \<and> (\<exists>ds. subseq ds (take m ps) \<and> to_pty w = map (encaps_hdlc (ge_sync e)) ds)"

text \<open>Between two events the packet that is next is not in the queue.\<close>

definition rx_idle :: "'h gre_env \<Rightarrow> u8 list list \<Rightarrow> nat \<Rightarrow> 'h gre \<Rightarrow> bool" where
  "rx_idle e ps m w \<longleftrightarrow> rx_ok e ps m w \<and> int m + 1 \<notin> fst ` set (pq_contents (gr_pq w))"

lemma deliver_simps [gre_simps]:
  "gr_seq_recv (snd (gre_deliver e p w)) = gr_seq_recv w" "gr_pq (snd (gre_deliver e p w)) = gr_pq w" "gr_first (snd (gre_deliver e p w)) = gr_first w"
  "gr_buff (snd (gre_deliver e p w)) = gr_buff w" "to_pty (snd (gre_deliver e p w)) = to_pty w @ [encaps_hdlc (ge_sync e) p]"
  "gr_ack_sent (snd (gre_deliver e p w)) = gr_ack_sent w" "gr_el (snd (gre_deliver e p w)) = gr_el w"
  "fst (gre_deliver e p w) = ge_write e (gr_tick w) (encaps_hdlc (ge_sync e) p)"
  by (simp_all add: gre_deliver_def gre_write_def to_pty_def Let_def)

lemma to_pty_cong [gre_simps]:
  "to_pty (gre_stat f w) = to_pty w" "to_pty (gre_arm e w) = to_pty w" "to_pty (gre_disarm e w) = to_pty w" "to_pty (gre_put i bs w) = to_pty w"
  "to_pty (w\<lparr>gr_first := b\<rparr>) = to_pty w" "to_pty (w\<lparr>gr_seq_recv := s\<rparr>) = to_pty w" "to_pty (w\<lparr>gr_pq := q\<rparr>) = to_pty w" "to_pty (w\<lparr>gr_tick := n\<rparr>) = to_pty w"
  "to_pty (w\<lparr>gr_buff := bf\<rparr>) = to_pty w"
  by (simp_all add: to_pty_def gre_simps)

lemma subseq_later:
  assumes "subseq ds (take m ps)" and "m < j" and "j \<le> length ps"
  shows "subseq (ds @ [ps ! (j - 1)]) (take j ps)"
proof -
  have "take j ps = take (j - 1) ps @ [ps ! (j - 1)]" using assms(2,3) take_Suc_conv_app_nth [of "j - 1" ps] by simp
  moreover have "take (j - 1) ps = take m ps @ take (j - 1 - m) (drop m ps)" using assms(2) by (metis add_diff_inverse_nat not_less_eq Suc_diff_1 gr_implies_not0 not_gr_zero take_add)
  then have "subseq ds (take (j - 1) ps)" using assms(1) by (metis prefix_def subseq_order.order_trans prefix_imp_subseq)
  ultimately show ?thesis by (simp add: list_emb_append_mono)
qed

text \<open>Passing packet \<open>j\<close> on, from the network or from the queue.\<close>

lemma rx_pass:
  assumes "rx_ok e ps m w" and "m < j" and "j \<le> length ps"
    and "gr_seq_recv v = word_of_nat j" and "\<not> gr_first v" and "pq.ordered (gr_pq v)" and "\<forall>x \<in> set (pq_contents (gr_pq v)). early ps j x"
    and "length (gr_buff v) = length (gr_buff w)" and "to_pty v = to_pty w @ [encaps_hdlc (ge_sync e) (ps ! (j - 1))]"
  shows "rx_ok e ps j v"
proof -
  obtain ds where "subseq ds (take m ps)" "to_pty w = map (encaps_hdlc (ge_sync e)) ds" using assms(1) by (auto simp: rx_ok_def)
  then have "subseq (ds @ [ps ! (j - 1)]) (take j ps)" "to_pty v = map (encaps_hdlc (ge_sync e)) (ds @ [ps ! (j - 1)])"
    using subseq_later assms(2,3,9) by simp_all
  then show ?thesis using assms unfolding rx_ok_def by auto
qed

text \<open>What a data packet does.\<close>

lemma data_effect:
  assumes "gr_seq_recv w = word_of_nat m" and "m \<le> gre_limit" and "j \<le> gre_limit"
  shows "\<exists>st w'. gre_data e (word_of_nat j) (Some p) w = Some (st, w') \<and> gr_buff w' = gr_buff w \<and> \<not> gr_first w'
    \<and> (if gr_first w \<or> j = m + 1
       then (\<exists>n. st = ge_write e n (encaps_hdlc (ge_sync e) p)) \<and> gr_seq_recv w' = word_of_nat j \<and> gr_pq w' = gr_pq w
         \<and> to_pty w' = to_pty w @ [encaps_hdlc (ge_sync e) p]
       else st = 0 \<and> gr_seq_recv w' = word_of_nat m \<and> to_pty w' = to_pty w
         \<and> gr_pq w' = (if m < j \<and> j < m + 300
             then snd (pqueue_add (ge_mem e (gr_tick w), ge_mem e (gr_tick w + 1)) (ge_clock e (gr_tick w)) (word_of_nat j) p (gr_pq w)) else gr_pq w))"
proof -
  note a = seq_arith [OF assms(3,2)] not_wrapped [OF assms(2)] not_wrapped [OF assms(3)]
  have nw: "\<not> WRAPPED (word_of_nat j) (word_of_nat m + MISSING_WINDOW)"
  proof -
    have "word_of_nat m + MISSING_WINDOW = (word_of_nat (m + 300) :: u32)" by (simp add: MISSING_WINDOW_def)
    moreover have "unat (word_of_nat (m + 300) :: u32) = m + 300" by (rule unat_seq) (use assms(2) in \<open>simp add: gre_limit_def\<close>)
    ultimately have "\<not> 0xffffff00 \<le> (word_of_nat m + MISSING_WINDOW :: u32)" using assms(2) by (simp add: word_le_nat_alt gre_limit_def)
    then show ?thesis using word_and_le1 [of "0xffffff00" "word_of_nat m + MISSING_WINDOW"] by (auto simp: WRAPPED_def and.commute)
  qed
  consider "gr_first w \<or> j = m + 1" | "\<not> gr_first w" "j \<le> m" | "\<not> gr_first w" "m + 1 < j" "j < m + 300" | "\<not> gr_first w" "m + 300 \<le> j" by linarith
  then show ?thesis
  proof cases
    case 1
    define v where "v = gre_arm e ((gre_stat (\<lambda>s. s\<lparr>rx_accepted := rx_accepted s + 1\<rparr>) w)\<lparr>gr_first := False, gr_seq_recv := word_of_nat j\<rparr>)"
    obtain st w' where d: "gre_deliver e p v = (st, w')" by (cases "gre_deliver e p v")
    have "gre_data e (word_of_nat j) (Some p) w = Some (st, w')" using 1 assms(1) a d by (auto simp: gre_data_def Let_def v_def)
    moreover have "gr_buff v = gr_buff w" "\<not> gr_first v" "gr_seq_recv v = word_of_nat j" "gr_pq v = gr_pq w" "to_pty v = to_pty w"
      by (simp_all add: v_def gre_simps)
    ultimately show ?thesis using 1 deliver_simps [of e p v, unfolded d] by auto
  next
    case 2
    then show ?thesis using assms(1) a by (auto simp: gre_data_def gre_simps)
  next
    case 3
    then show ?thesis using assms(1) a nw by (auto simp: gre_data_def gre_simps Let_def)
  next
    case 4
    then show ?thesis using assms(1) a nw by (auto simp: gre_data_def gre_simps)
  qed
qed

definition writes_ok :: "'h gre_env \<Rightarrow> bool" where
  "writes_ok e \<longleftrightarrow> (\<forall>n b. 0 \<le> ge_write e n b)"

lemma rx_data:
  assumes "rx_idle e ps m w" and "writes_ok e" and "length ps \<le> gre_limit" and "1 \<le> j" and "j \<le> length ps"
  shows "\<exists>st w' m'. gre_data e (word_of_nat j) (Some (ps ! (j - 1))) w = Some (st, w') \<and> 0 \<le> st \<and> rx_ok e ps m' w'"
proof -
  have ok: "rx_ok e ps m w" and nx: "int m + 1 \<notin> fst ` set (pq_contents (gr_pq w))" using assms(1) by (simp_all add: rx_idle_def)
  have s: "gr_seq_recv w = word_of_nat m" "m \<le> gre_limit" "j \<le> gre_limit" using ok assms(3,5) by (simp_all add: rx_ok_def)
  obtain st w' where d: "gre_data e (word_of_nat j) (Some (ps ! (j - 1))) w = Some (st, w')"
      "gr_buff w' = gr_buff w" "\<not> gr_first w'"
      "if gr_first w \<or> j = m + 1
       then (\<exists>n. st = ge_write e n (encaps_hdlc (ge_sync e) (ps ! (j - 1)))) \<and> gr_seq_recv w' = word_of_nat j \<and> gr_pq w' = gr_pq w
         \<and> to_pty w' = to_pty w @ [encaps_hdlc (ge_sync e) (ps ! (j - 1))]
       else st = 0 \<and> gr_seq_recv w' = word_of_nat m \<and> to_pty w' = to_pty w
         \<and> gr_pq w' = (if m < j \<and> j < m + 300
             then snd (pqueue_add (ge_mem e (gr_tick w), ge_mem e (gr_tick w + 1)) (ge_clock e (gr_tick w)) (word_of_nat j) (ps ! (j - 1)) (gr_pq w)) else gr_pq w)"
    using data_effect [OF s, of e "ps ! (j - 1)"] by blast
  show ?thesis
  proof (cases "gr_first w \<or> j = m + 1")
    case True
    have "early ps j x" if "x \<in> set (pq_contents (gr_pq w))" for x
    proof (cases "gr_first w")
      case False
      have "early ps m x" using ok that by (auto simp: rx_ok_def)
      moreover have "fst x \<noteq> int m + 1" using nx that by (metis image_eqI)
      ultimately show ?thesis using True False by (simp add: early_def)
    qed (use that ok in \<open>simp add: rx_ok_def\<close>)
    moreover have "m < j" using True ok assms(4) by (auto simp: rx_ok_def)
    ultimately have "rx_ok e ps j w'" using True d(2-4) ok assms(5) by (intro rx_pass [OF ok]) (auto simp: rx_ok_def)
    moreover have "0 \<le> st" using d(4) True assms(2) by (auto simp: writes_ok_def)
    ultimately show ?thesis using d(1) by blast
  next
    case False
    then have q: "st = 0" "gr_seq_recv w' = word_of_nat m" "to_pty w' = to_pty w" using d(4) by simp_all
    have "pq.ordered (gr_pq w')" "\<forall>x \<in> set (pq_contents (gr_pq w')). early ps m x"
      using d(4) False ok pq.ordered_add pq.set_add seq_arith(4) [OF s(3,2)] assms(5) by (auto simp: rx_ok_def early_def)
    then have "rx_ok e ps m w'" using q d(2,3) ok unfolding rx_ok_def by auto
    then show ?thesis using d(1) q(1) by auto
  qed
qed

lemma take_effect:
  "gr_seq_recv (snd (gre_take e p w)) = pe_seq p" "gr_first (snd (gre_take e p w)) = gr_first w" "gr_pq (snd (gre_take e p w)) = pqueue_del 0 (gr_pq w)"
  "gr_buff (snd (gre_take e p w)) = gr_buff w" "to_pty (snd (gre_take e p w)) = to_pty w @ [encaps_hdlc (ge_sync e) (pe_packet p)]"
  "writes_ok e \<Longrightarrow> fst (gre_take e p w) = 0"
  by (simp_all add: gre_take_def Let_def case_prod_beta gre_simps writes_ok_def not_less)

lemma rx_take:
  assumes "rx_ok e ps m w" and "writes_ok e" and "length ps \<le> gre_limit" and "pqueue_head (gr_pq w) = Some p"
  shows "\<exists>j. pe_seq p = word_of_nat j \<and> m < j \<and> fst (gre_take e p w) = 0 \<and> rx_ok e ps j (snd (gre_take e p w))"
proof -
  let ?w = "snd (gre_take e p w)"
  obtain xs where c: "pq_contents (gr_pq w) = (sint (pe_seq p), pe_packet p) # xs"
    using assms(4) by (auto simp: pqueue_head_def pq_contents_def split: list.splits)
  have "early ps m (sint (pe_seq p), pe_packet p)" using assms(1) c by (simp add: rx_ok_def)
  then obtain j where j: "sint (pe_seq p) = int j" "m < j" "j \<le> length ps" "pe_packet p = ps ! (j - 1)"
    by (auto simp: early_def dest!: zero_le_imp_eq_int [OF order.trans [OF of_nat_0_le_iff less_imp_le]])
  have seq: "pe_seq p = word_of_nat j" using j(1,3) seq_arith(4) [of j m] assms(1,3) by (intro sint_eqD) (simp add: rx_ok_def)
  note st = take_effect(6) [OF assms(2), of p w] and w = take_effect(1-5) [of e p w, unfolded seq j(4)]
  have o: "pq.ordered (gr_pq w)" "pq_contents (gr_pq w) \<noteq> []" "\<not> gr_first w" using assms(1) c by (auto simp: rx_ok_def)
  have "\<forall>x \<in> set xs. int j < fst x" using o(1) c j(1) by (simp add: pq.ordered_def)
  then have "\<forall>x \<in> set (pq_contents (gr_pq ?w)). early ps j x"
    using assms(1) c w(3) pq.contents_del [OF o(2)] by (auto simp: rx_ok_def early_def)
  then have "rx_ok e ps j ?w" using pq.ordered_del [OF o(1,2)] w o(3) by (intro rx_pass [OF assms(1) j(2,3)]) simp_all
  then show ?thesis using seq j(2) st by blast
qed

lemma tick_ok: "rx_ok e ps m (w\<lparr>gr_tick := n\<rparr>) = rx_ok e ps m w"
  by (simp add: rx_ok_def gre_simps)

lemma due_tick: "\<exists>n. snd (gre_due e p w) = w\<lparr>gr_tick := n\<rparr>"
  by (cases w) (simp add: gre_due_def gre_now_def)

lemma rx_dequeue:
  assumes "writes_ok e" and "length ps \<le> gre_limit"
  shows "rx_ok e ps m w \<Longrightarrow> \<exists>m' w'. dequeue_gre e w = (0, w') \<and> rx_idle e ps m' w'"
proof (induction "length (pq_list (gr_pq w))" arbitrary: m w rule: less_induct)
  case less
  show ?case
  proof (cases "pqueue_head (gr_pq w)")
    case None
    then have "pq_contents (gr_pq w) = []" by (simp add: pqueue_head_def pq_contents_def split: list.splits)
    then have "rx_idle e ps m w" using less.prems by (simp add: rx_idle_def)
    then show ?thesis using None by (subst dequeue_gre.simps) auto
  next
    case (Some p)
    obtain due w1 where d: "gre_due e p w = (due, w1)" by (cases "gre_due e p w")
    obtain n where w1: "w1 = w\<lparr>gr_tick := n\<rparr>" using due_tick [of e p w] d by auto
    have ok1: "rx_ok e ps m w1" and h1: "pqueue_head (gr_pq w1) = Some p" using less.prems Some by (simp_all add: w1 tick_ok)
    obtain j where j: "pe_seq p = word_of_nat j" "m < j" "fst (gre_take e p w1) = 0" "rx_ok e ps j (snd (gre_take e p w1))"
      using rx_take [OF ok1 assms h1] by blast
    show ?thesis
    proof (cases due)
      case True
      obtain w2 where t: "gre_take e p w1 = (0, w2)" using j(3) by (cases "gre_take e p w1") simp
      have "length (pq_list (gr_pq w2)) < length (pq_list (gr_pq w))" using take_shorter [OF Some d [symmetric] t [symmetric]] .
      from less.hyps [OF this, of j] obtain m' w' where "dequeue_gre e w2 = (0, w')" "rx_idle e ps m' w'" using j(4) t by auto
      then show ?thesis using Some d t True by (subst dequeue_gre.simps) auto
    next
      case False
      then have ne: "pe_seq p \<noteq> word_of_nat m + 1" using d less.prems by (auto simp: gre_due_def rx_ok_def split: if_splits)
      have lim: "m \<le> gre_limit" using less.prems assms(2) by (simp add: rx_ok_def)
      obtain xs where c: "pq_contents (gr_pq w) = (sint (pe_seq p), pe_packet p) # xs"
        using Some by (auto simp: pqueue_head_def pq_contents_def split: list.splits)
      have "j \<le> gre_limit" using j(4) assms(2) by (simp add: rx_ok_def)
      from seq_arith(1,4) [OF this lim] have k: "sint (pe_seq p) = int j" "j \<noteq> m + 1" using ne j(1) by auto
      have "\<forall>x \<in> set xs. int j < fst x" using less.prems c k(1) by (simp add: rx_ok_def pq.ordered_def)
      then have "int m + 1 \<notin> fst ` set (pq_contents (gr_pq w))" using k j(2) by (fastforce simp: c)
      then have "rx_idle e ps m w1" using ok1 by (simp add: rx_idle_def w1)
      then show ?thesis using Some d False by (subst dequeue_gre.simps) auto
    qed
  qed
qed

text \<open>The other steps leave the receiver alone.\<close>

definition rx_same :: "'h gre \<Rightarrow> 'h gre \<Rightarrow> bool" where
  "rx_same w w' \<longleftrightarrow> gr_seq_recv w' = gr_seq_recv w \<and> gr_pq w' = gr_pq w \<and> gr_first w' = gr_first w \<and> to_pty w' = to_pty w
     \<and> (length (gr_buff w) = gre_buff_size \<longrightarrow> length (gr_buff w') = gre_buff_size)"

lemma rx_same_idle: "rx_same w w' \<Longrightarrow> rx_idle e ps m w \<Longrightarrow> rx_idle e ps m w'"
  by (auto simp: rx_same_def rx_idle_def rx_ok_def)

lemma rx_same_trans: "rx_same w w' \<Longrightarrow> rx_same w' w'' \<Longrightarrow> rx_same w w''"
  by (simp add: rx_same_def)

lemma ack_same: "rx_same w (gre_ack e a w)"
  by (simp add: rx_same_def gre_ack_def gre_now_def gre_stat_def Let_def to_pty_def)

lemma close_same: "rx_same w (w\<lparr>gr_out := gr_out w @ [ConnClose]\<rparr>)"
  by (simp add: rx_same_def to_pty_def)

lemma buff_same: "length b = gre_buff_size \<Longrightarrow> rx_same w (w\<lparr>gr_buff := b\<rparr>)"
  by (simp add: rx_same_def to_pty_def)

lemma emit_same: "rx_same w (snd (gre_emit e n w))"
  by (simp add: rx_same_def gre_simps to_pty_def)

lemma put_same: "i + length bs \<le> gre_buff_size \<Longrightarrow> rx_same w (gre_put i bs w)"
  by (simp add: rx_same_def gre_simps)

lemma disarm_same: "rx_same w (gre_disarm e w)" "rx_same w (gre_stat f w)" "rx_same w (w\<lparr>gr_ack_sent := s\<rparr>)" "rx_same w (w\<lparr>gr_seq_sent := s, gr_seq := n\<rparr>)"
  "rx_same w (w\<lparr>gr_el := el\<rparr>)"
  by (simp_all add: rx_same_def gre_simps to_pty_def)

lemma encaps_data_same: "rx_same w (snd (encaps_gre_data e p w))"
proof -
  define c where "c = gr_peer_call_id w"
  let ?f = "PPTP_GRE_FLAG_K OR PPTP_GRE_FLAG_S" and ?n = "word_of_nat (length p) :: u16"
  define w1 where "w1 = gre_put 0 (gre_header ?f PPTP_GRE_VER ?n c @ be32 (gr_seq w)) w"
  define w2 where "w2 = gre_put 0 (gre_header ?f (PPTP_GRE_VER OR PPTP_GRE_FLAG_A) ?n c @ be32 (gr_seq w) @ be32 (gr_seq_recv w)) w1"
  define hw where "hw = (if gr_ack_sent w1 \<noteq> gr_seq_recv w1 then (gre_header_size, gre_disarm e (w2\<lparr>gr_ack_sent := gr_seq_recv w1\<rparr>))
    else (gre_header_size - gre_field_size, w1))"
  have "rx_same w w1" unfolding w1_def by (rule put_same) (simp add: gre_buff_size_def PACKET_MAX_def)
  moreover have "rx_same w1 w2" unfolding w2_def by (rule put_same) (simp add: gre_buff_size_def PACKET_MAX_def)
  moreover have "rx_same w2 (gre_disarm e (w2\<lparr>gr_ack_sent := gr_seq_recv w1\<rparr>))" using disarm_same(1,3) rx_same_trans by blast
  ultimately have hw: "rx_same w (snd hw)" unfolding hw_def using rx_same_trans [of w w1] rx_same_trans [of w1 w2] by auto
  have e: "encaps_gre_data e p w = (if PACKET_MAX + gre_header_size \<le> fst hw + length p
      then (0, gre_stat (\<lambda>s. s\<lparr>tx_oversize := tx_oversize s + 1\<rparr>) (snd hw))
      else gre_emit e (fst hw + length p) ((gre_put (fst hw) p (snd hw))\<lparr>gr_seq_sent := gr_seq (gre_put (fst hw) p (snd hw)),
        gr_seq := gr_seq (gre_put (fst hw) p (snd hw)) + 1\<rparr>))"
    by (simp add: encaps_gre_data_def Let_def hw_def w2_def w1_def c_def gre_simps)
  show ?thesis
  proof (cases "PACKET_MAX + gre_header_size \<le> fst hw + length p")
    case True
    then show ?thesis using rx_same_trans [OF hw disarm_same(2)] by (simp add: e)
  next
    case False
    then have "rx_same (snd hw) (gre_put (fst hw) p (snd hw))" by (intro put_same) (simp add: gre_buff_size_def gre_header_size_def)
    then show ?thesis using False rx_same_trans [OF hw] rx_same_trans [OF disarm_same(4) emit_same] rx_same_trans by (simp add: e) blast
  qed
qed

lemma encaps_ack_same: "rx_same w (snd (encaps_gre_ack e w))"
  by (simp add: rx_same_def encaps_gre_ack_def Let_def case_prod_beta gre_simps gre_write_def to_pty_def gre_buff_size_def PACKET_MAX_def)

lemma send_ack_same: "rx_same w (gre_send_ack e w)"
  using encaps_ack_same [of w e] by (simp add: gre_send_ack_def encaps_gre_def rx_same_def)

section \<open>The packets of the terminal\<close>

text \<open>The packets in a stretch of bytes from the terminal, and the framing state behind it.\<close>

fun hdlc_decode :: "hdlc \<Rightarrow> u8 list \<Rightarrow> hdlc \<times> u8 list list" where
  "hdlc_decode h [] = (h, [])"
| "hdlc_decode h (c # cs) =
     (if c \<noteq> HDLC_FLAG then hdlc_decode (hdlc_char c h) cs
      else if length (hd_copy h) < 4 \<or> hd_escape h \<noteq> 0 then hdlc_decode (h\<lparr>hd_copy := [], hd_escape := 0\<rparr>) cs
      else
        let h1 = (if pppfcs16 PPPINITFCS16 (hd_copy h) \<noteq> PPPGOODFCS16 then h\<lparr>hd_badfcs := hd_badfcs h + 1\<rparr> else h);
            (h2, ps) = hdlc_decode (h1\<lparr>hd_copy := [], hd_escape := 0\<rparr>) cs
        in (h2, take (length (hd_copy h) - 2) (hd_copy h) # ps))"

lemma scan_decode:
  assumes "\<And>p g. 0 \<le> fst (cb p g)"
  shows "hdlc_scan cb bs (h, g) = (0, fst (hdlc_decode h bs), fold (\<lambda>p g. snd (cb p g)) (snd (hdlc_decode h bs)) g)"
proof (induction bs arbitrary: h g)
  case (Cons c cs)
  have "\<not> fst (cb p g) < 0" for p g using assms by (simp add: not_less)
  then show ?case by (simp add: Cons.IH Let_def case_prod_beta)
qed simp

lemma decode_append:
  "hdlc_decode h (as @ bs) = (fst (hdlc_decode (fst (hdlc_decode h as)) bs), snd (hdlc_decode h as) @ snd (hdlc_decode (fst (hdlc_decode h as)) bs))"
  by (induction as arbitrary: h) (simp_all add: Let_def case_prod_beta)

lemma scan_keeps:
  assumes "\<And>p g. Q g \<Longrightarrow> Q (snd (cb p g))"
  shows "Q (snd w) \<Longrightarrow> Q (snd (snd (hdlc_scan cb bs w)))"
proof (induction bs arbitrary: w)
  case (Cons c cs)
  obtain h g where w: "w = (h, g)" by (cases w)
  show ?case using Cons assms by (simp add: w Let_def case_prod_beta)
qed simp

lemma decode_sync: "hdlc_decode (h\<lparr>hd_checkedsync := b\<rparr>) bs = ((fst (hdlc_decode h bs))\<lparr>hd_checkedsync := b\<rparr>, snd (hdlc_decode h bs))"
proof (induction bs arbitrary: h)
  case (Cons c cs)
  have c: "hdlc_char c (h\<lparr>hd_checkedsync := b\<rparr>) = (hdlc_char c h)\<lparr>hd_checkedsync := b\<rparr>" by (simp add: hdlc_char_def)
  have k: "h\<lparr>hd_checkedsync := b, hd_copy := [], hd_escape := 0\<rparr> = (h\<lparr>hd_copy := [], hd_escape := 0\<rparr>)\<lparr>hd_checkedsync := b\<rparr>"
    "h\<lparr>hd_checkedsync := b, hd_badfcs := n, hd_copy := [], hd_escape := 0\<rparr> = (h\<lparr>hd_badfcs := n, hd_copy := [], hd_escape := 0\<rparr>)\<lparr>hd_checkedsync := b\<rparr>" for n
    by simp_all
  show ?case by (simp add: c k Cons.IH Let_def case_prod_beta)
qed simp

lemma decode_frames:
  assumes "\<And>p. p \<in> set ps \<Longrightarrow> hdlc_size_ok p" and "hd_copy h = []" and "hd_escape h = 0"
  shows "hdlc_decode h (concat (map (encaps_hdlc False) ps)) = (h, ps)"
proof -
  let ?cb = "\<lambda>p g. (0 :: int, g @ [p])"
  have "fold (\<lambda>p g. snd (?cb p g)) xs g = g @ xs" for xs and g :: "u8 list list" by (induction xs arbitrary: g) simp_all
  then show ?thesis using scan_packets [OF assms, where cb = ?cb and g = "[]"] scan_decode [where cb = ?cb and h = h and g = "[]"]
    by (cases "hdlc_decode h (concat (map (encaps_hdlc False) ps))") simp
qed

section \<open>Runs of an end\<close>

datatype tunnel_ev = FromGre "u8 list" | FromPty "u8 list" | AckTimer

definition ack_kind :: "'h gre_env \<Rightarrow> 'h el_kind" where
  "ack_kind e = (ge_handler e, ge_fd e)"

fun tunnel_step :: "'h gre_env \<Rightarrow> tunnel_ev \<Rightarrow> hdlc \<times> 'h gre \<Rightarrow> (hdlc \<times> 'h gre) option" where
  "tunnel_step e (FromGre b) w = map_option (Pair (fst w)) (gre_handler e b (snd w))"
| "tunnel_step e (FromPty b) w = Some (pty_handler e b w)"
| "tunnel_step e AckTimer w = Some (fst w, gre_send_ack e ((snd w)\<lparr>gr_el := el_expire (ack_kind e) (gr_el (snd w))\<rparr>))"

fun tunnel_run :: "'h gre_env \<Rightarrow> tunnel_ev list \<Rightarrow> hdlc \<times> 'h gre \<Rightarrow> (hdlc \<times> 'h gre) option" where
  "tunnel_run e [] w = Some w"
| "tunnel_run e (ev # evs) w = do { w \<leftarrow> tunnel_step e ev w; tunnel_run e evs w }"

lemma pty_handler_keeps:
  assumes "\<And>p g. Q g \<Longrightarrow> Q (snd (encaps_gre_data e p g))" and "\<And>g. Q g \<Longrightarrow> Q (g\<lparr>gr_out := gr_out g @ [ConnClose]\<rparr>)" and "Q (snd w)"
  shows "Q (snd (pty_handler e b w))"
proof -
  define cb where "cb = (\<lambda>p. encaps_gre e (Some p))"
  have cb: "Q (snd (cb p g))" if "Q g" for p g using assms(1) [OF that] by (simp add: cb_def encaps_gre_def)
  have "Q (snd (snd (decaps_hdlc (ge_sync e) cb b w)))"
    using scan_keeps [of Q cb, OF cb, where w = "((fst w)\<lparr>hd_checkedsync := True\<rparr>, snd w)" and bs = b] cb assms(3)
    by (simp add: decaps_hdlc_def Let_def case_prod_beta)
  then show ?thesis unfolding pty_handler_def cb_def [symmetric] using assms(2) by (simp add: case_prod_beta)
qed

lemma pty_handler_same: "rx_same w (snd (pty_handler e b (h, w)))"
proof (rule pty_handler_keeps [where Q = "rx_same w"])
  show "rx_same w (snd (encaps_gre_data e p g))" if "rx_same w g" for p g by (rule rx_same_trans [OF that encaps_data_same])
  show "rx_same w (g\<lparr>gr_out := gr_out g @ [ConnClose]\<rparr>)" if "rx_same w g" for g by (rule rx_same_trans [OF that close_same])
qed (simp add: rx_same_def)

text \<open>A packet without data.\<close>

definition gre_ack_frame :: "u16 \<Rightarrow> u32 \<Rightarrow> u8 list" where
  "gre_ack_frame call a = gre_header PPTP_GRE_FLAG_K (PPTP_GRE_VER OR PPTP_GRE_FLAG_A) 0 call @ be32 a"

lemma decaps_ack_frame:
  assumes "ip_header ih" and "length (ih @ gre_ack_frame call a) \<le> gre_buff_size" and "length (gr_buff w) = gre_buff_size"
  shows "\<exists>w'. decaps_gre e (ih @ gre_ack_frame call a) w = Some (0, w') \<and> rx_same w w'"
proof -
  define b where "b = gre_ack_frame call a @ drop (length (ih @ gre_ack_frame call a)) (gr_buff w)"
  have n: "ih \<noteq> []" "ih ! 0 AND 0xF0 = 0x40" "unat (ih ! 0 AND 0xF) * 4 = length ih" using assms(1) by (simp_all add: ip_header_def)
  have l: "length (ih @ b) = gre_buff_size" using assms(2,3) by (simp add: b_def)
  have f: "b ! 0 = PPTP_GRE_FLAG_K" "b ! Suc 0 = PPTP_GRE_VER OR PPTP_GRE_FLAG_A" "take 2 (drop 2 b) = be16 PPTP_GRE_PROTO" "take 4 (drop 8 b) = be32 a"
    by (simp_all add: b_def gre_ack_frame_def gre_header_def be16_def be32_def)
  have nth: "(ih @ b) ! length ih = b ! 0" "(ih @ b) ! Suc (length ih) = b ! Suc 0" "(ih @ b) ! 0 = ih ! 0" using n(1) by (simp_all add: nth_append)
  have v: "gre_valid PPTP_GRE_FLAG_K (PPTP_GRE_VER OR PPTP_GRE_FLAG_A) PPTP_GRE_PROTO" "PPTP_GRE_FLAG_K AND PPTP_GRE_FLAG_S = 0"
      "(PPTP_GRE_VER OR PPTP_GRE_FLAG_A) AND PPTP_GRE_FLAG_A \<noteq> 0"
    by (simp_all add: gre_valid_def gre_consts)
  have p: "gre_parse e st v = Some (0, gre_ack e a v)" if "gr_buff v = ih @ b" for st v
    unfolding gre_parse_def that Let_def nth n(2) if_True n(3) using f v by (simp add: nth)
  have "decaps_gre e (ih @ gre_ack_frame call a) w = Some (0, gre_ack e a (w\<lparr>gr_buff := ih @ b\<rparr>))"
    using n(1) p [of "w\<lparr>gr_buff := ih @ b\<rparr>"] by (simp add: decaps_gre_def b_def)
  moreover have "rx_same w (gre_ack e a (w\<lparr>gr_buff := ih @ b\<rparr>))" using rx_same_trans [OF buff_same ack_same] l by blast
  ultimately show ?thesis by blast
qed

section \<open>What the network brings\<close>

text \<open>A packet of an end that has sent \<open>ps\<close>, and such a packet behind an IP header as it is read from the raw socket.\<close>

definition tx_frame :: "u16 \<Rightarrow> u8 list list \<Rightarrow> u8 list \<Rightarrow> bool" where
  "tx_frame c ps f \<longleftrightarrow> (\<exists>j ack. 1 \<le> j \<and> j \<le> length ps \<and> f = gre_frame c (word_of_nat j) ack (ps ! (j - 1))) \<or> (\<exists>a. f = gre_ack_frame c a)"

definition read_as :: "u8 list \<Rightarrow> u8 list \<Rightarrow> bool" where
  "read_as f b \<longleftrightarrow> (\<exists>ih. ip_header ih \<and> b = ih @ f \<and> length b \<le> gre_buff_size)"

lemma rx_same_ok: "rx_same w w' \<Longrightarrow> rx_ok e ps m w \<Longrightarrow> rx_ok e ps m w'"
  by (auto simp: rx_same_def rx_ok_def)

lemma take_ack_same: "rx_same w (gre_take_ack e ack w)"
  by (cases ack) (simp_all add: gre_take_ack_def ack_same, simp add: rx_same_def)

lemma decaps_read:
  assumes "read_as (gre_frame c s ack p) b" and "length (gr_buff w) = gre_buff_size"
  shows "\<exists>v. rx_same w v \<and> decaps_gre e b w = gre_data e s (Some p) v"
proof -
  let ?f = "gre_frame c s ack p"
  obtain ih where b: "ip_header ih" "b = ih @ ?f" "length (ih @ ?f) \<le> gre_buff_size" using assms(1) by (auto simp: read_as_def)
  define u where "u = w\<lparr>gr_buff := b @ drop (length b) (gr_buff w)\<rparr>"
  have "rx_same w u" using b assms(2) unfolding u_def by (intro buff_same) simp
  then have v: "rx_same w (gre_take_ack e ack u)" by (rule rx_same_trans [OF _ take_ack_same])
  have l: "length p < 65536" using b(3) frame_fields(8) [where rest = "[]", OF refl, of c s ack p] by (simp add: gre_buff_size_def PACKET_MAX_def)
  have "decaps_gre e b w = gre_data e s (Some p) (gre_take_ack e ack u)"
    unfolding b(2) u_def by (subst decaps_frame [OF b(1) l b(3)]) simp
  then show ?thesis using v by blast
qed

lemma rx_decaps:
  assumes "rx_idle e ps m w" and "writes_ok e" and "length ps \<le> gre_limit" and "tx_frame c ps f" and "read_as f b"
  shows "\<exists>st w' m'. decaps_gre e b w = Some (st, w') \<and> 0 \<le> st \<and> rx_ok e ps m' w'"
proof -
  obtain ih where b: "ip_header ih" "b = ih @ f" "length (ih @ f) \<le> gre_buff_size" using assms(5) by (auto simp: read_as_def)
  have l: "length (gr_buff w) = gre_buff_size" using assms(1) by (simp add: rx_idle_def rx_ok_def)
  from assms(4) consider j ack where "1 \<le> j" "j \<le> length ps" "f = gre_frame c (word_of_nat j) ack (ps ! (j - 1))" | a where "f = gre_ack_frame c a"
    unfolding tx_frame_def by blast
  then show ?thesis
  proof cases
    case 1
    then obtain v where "rx_same w v" "decaps_gre e b w = gre_data e (word_of_nat j) (Some (ps ! (j - 1))) v"
      using decaps_read [OF assms(5) [unfolded 1(3)] l] by blast
    then show ?thesis using rx_data [OF rx_same_idle [OF _ assms(1)] assms(2,3) 1(1,2)] by simp
  next
    case 2
    then show ?thesis using decaps_ack_frame [OF b(1) _ l, of c a e] b rx_same_ok assms(1) by (fastforce simp: rx_idle_def)
  qed
qed

lemma rx_handler:
  assumes "rx_idle e ps m w" and "writes_ok e" and "length ps \<le> gre_limit" and "tx_frame c ps f" and "read_as f b"
  shows "\<exists>w' m'. gre_handler e b w = Some w' \<and> rx_idle e ps m' w'"
proof -
  obtain st w1 m1 where d: "decaps_gre e b w = Some (st, w1)" "0 \<le> st" "rx_ok e ps m1 w1" using rx_decaps [OF assms] by blast
  obtain m2 w2 where "dequeue_gre e w1 = (0, w2)" "rx_idle e ps m2 w2" using rx_dequeue [OF assms(2,3) d(3)] by blast
  then show ?thesis using d by (auto simp: gre_handler_def)
qed

lemma rx_run:
  assumes "writes_ok e" and "length ps \<le> gre_limit" and "\<And>b. FromGre b \<in> set evs \<Longrightarrow> \<exists>f. tx_frame c ps f \<and> read_as f b"
  shows "rx_idle e ps m w \<Longrightarrow> \<exists>h' w' m'. tunnel_run e evs (h, w) = Some (h', w') \<and> rx_idle e ps m' w'"
  using assms(3)
proof (induction evs arbitrary: h w m)
  case (Cons ev evs)
  have "\<exists>h1 w1 m1. tunnel_step e ev (h, w) = Some (h1, w1) \<and> rx_idle e ps m1 w1"
  proof (cases ev)
    case (FromGre b)
    then obtain f where "tx_frame c ps f" "read_as f b" using Cons.prems(2) by auto
    then show ?thesis using rx_handler [OF Cons.prems(1) assms(1,2)] by (fastforce simp: FromGre)
  next
    case (FromPty b)
    then show ?thesis using rx_same_idle [OF pty_handler_same Cons.prems(1)] by (cases "pty_handler e b (h, w)") (metis snd_conv tunnel_step.simps(2))
  next
    case AckTimer
    then show ?thesis using rx_same_idle [OF rx_same_trans [OF disarm_same(5) send_ack_same] Cons.prems(1)] by (auto intro: exI [of _ m])
  qed
  then show ?case using Cons.IH Cons.prems(2) by (fastforce simp del: tunnel_step.simps)
qed auto

section \<open>The sending end\<close>

definition tx_ok :: "u16 \<Rightarrow> u8 list list \<Rightarrow> 'h gre \<Rightarrow> bool" where
  "tx_ok c ps w \<longleftrightarrow> gr_seq w = word_of_nat (length ps + 1) \<and> gr_peer_call_id w = c \<and> length (gr_buff w) = gre_buff_size
     \<and> (\<forall>f. ToGre f \<in> set (gr_out w) \<longrightarrow> tx_frame c ps f)"

definition tx_same :: "'h gre \<Rightarrow> 'h gre \<Rightarrow> bool" where
  "tx_same w w' \<longleftrightarrow> gr_seq w' = gr_seq w \<and> gr_peer_call_id w' = gr_peer_call_id w \<and> length (gr_buff w') = length (gr_buff w)
     \<and> (\<forall>f. ToGre f \<in> set (gr_out w') \<longleftrightarrow> ToGre f \<in> set (gr_out w))"

lemma tx_same_ok: "tx_same w w' \<Longrightarrow> tx_ok c ps w \<Longrightarrow> tx_ok c ps w'"
  by (simp add: tx_same_def tx_ok_def)

lemma tx_same_trans: "tx_same w w' \<Longrightarrow> tx_same w' w'' \<Longrightarrow> tx_same w w''"
  by (simp add: tx_same_def)

lemma tx_same_refl: "tx_same w w"
  by (simp add: tx_same_def)

lemma tx_same_steps:
  "tx_same w (gre_stat f w)" "tx_same w (gre_ack e a w)" "tx_same w (snd (gre_deliver e p w))" "tx_same w (snd (gre_due e q w))" "tx_same w (snd (gre_take e q w))"
  "tx_same w (w\<lparr>gr_out := gr_out w @ [ConnClose]\<rparr>)"
  by (simp_all add: tx_same_def gre_stat_def gre_ack_def gre_now_def gre_deliver_def gre_write_def gre_due_def gre_take_def gre_arm_def Let_def)

lemma tx_same_data: "gre_data e s p w = Some (st, w') \<Longrightarrow> tx_same w w'"
  by (cases p) (auto simp: gre_data_def tx_same_def gre_stat_def gre_arm_def gre_deliver_def gre_write_def Let_def split: if_splits)

lemma tx_same_parse: "gre_parse e status w = Some (st, w') \<Longrightarrow> tx_same w w'"
  using tx_same_steps(1) [of w] tx_same_steps(2) [of w e] tx_same_trans [OF tx_same_steps(2) tx_same_steps(1), of w] tx_same_data
    tx_same_trans [OF tx_same_steps(2) tx_same_data] tx_same_refl [of w]
  by (auto simp: gre_parse_def Let_def split: if_splits)

lemma tx_same_dequeue: "tx_same w (snd (dequeue_gre e w))"
proof (induction e w rule: dequeue_gre.induct)
  case (1 e w)
  show ?case
  proof (cases "pqueue_head (gr_pq w)")
    case None
    then show ?thesis by (subst dequeue_gre.simps) (simp add: tx_same_def)
  next
    case (Some p)
    obtain due w1 where d: "gre_due e p w = (due, w1)" by (cases "gre_due e p w")
    obtain st w2 where t: "gre_take e p w1 = (st, w2)" by (cases "gre_take e p w1")
    have eq: "dequeue_gre e w = (if \<not> due then (0, w1) else if st < 0 then (st, w2) else dequeue_gre e w2)"
      by (subst dequeue_gre.simps) (simp add: Some d t)
    have s: "tx_same w w1" "tx_same w1 w2" using tx_same_steps(4) [of w e p] tx_same_steps(5) [of w1 e p] by (simp_all add: d t)
    have "tx_same w2 (snd (dequeue_gre e w2))" if "due" "\<not> st < 0" using 1 [OF Some d [symmetric] refl _ t [symmetric] refl] that by simp
    then show ?thesis unfolding eq using s tx_same_trans [OF s] tx_same_trans [OF tx_same_trans [OF s]] by simp
  qed
qed

lemma tx_same_handler:
  assumes "gre_handler e b w = Some w'" and "length b \<le> length (gr_buff w)"
  shows "tx_same w w'"
proof -
  obtain st w1 where d: "decaps_gre e b w = Some (st, w1)" using assms(1) by (auto simp: gre_handler_def bind_eq_Some_conv)
  have "tx_same w (w\<lparr>gr_buff := b @ drop (length b) (gr_buff w)\<rparr>)" using assms(2) by (simp add: tx_same_def)
  then have "tx_same w w1" using d tx_same_parse tx_same_trans tx_same_steps(1) unfolding decaps_gre_def by (fastforce split: if_splits)
  moreover have "tx_same w1 (snd (dequeue_gre e w1))" by (rule tx_same_dequeue)
  ultimately show ?thesis using assms(1) d tx_same_trans tx_same_steps(6)
    by (auto simp: gre_handler_def case_prod_beta split: if_splits)
qed

lemma tx_frame_more: "tx_frame c ps f \<Longrightarrow> tx_frame c (ps @ qs) f"
  unfolding tx_frame_def by (fastforce simp: nth_append)

lemma tx_data:
  assumes "tx_ok c ps w" and "length p < PACKET_MAX"
  shows "tx_ok c (ps @ [p]) (snd (encaps_gre_data e p w))"
proof -
  have w: "gr_seq w = word_of_nat (length ps + 1)" "gr_peer_call_id w = c" "length (gr_buff w) = gre_buff_size"
    and f: "\<And>f. ToGre f \<in> set (gr_out w) \<Longrightarrow> tx_frame c ps f" using assms(1) by (auto simp: tx_ok_def)
  note s = encaps_data_sent [OF w(3) assms(2) refl, of e]
  have "tx_frame c (ps @ [p]) (gre_frame c (word_of_nat (length ps + 1)) (gre_due_ack w) p)"
    unfolding tx_frame_def by (intro disjI1 exI [of _ "length ps + 1"] exI [of _ "gre_due_ack w"]) simp
  then have "tx_frame c (ps @ [p]) f" if "ToGre f \<in> set (gr_out (snd (encaps_gre_data e p w)))" for f
    using that f tx_frame_more [of c ps _ "[p]"] unfolding s(1) w(1,2) by auto
  then show ?thesis using s(2,7,8) w unfolding tx_ok_def by simp
qed

lemma tx_packets:
  "tx_ok c ps w \<Longrightarrow> \<forall>p \<in> set qs. length p < PACKET_MAX \<Longrightarrow> tx_ok c (ps @ qs) (fold (\<lambda>p g. snd (encaps_gre e (Some p) g)) qs w)"
proof (induction qs arbitrary: ps w)
  case (Cons q qs)
  have "tx_ok c (ps @ [q]) (snd (encaps_gre e (Some q) w))" using tx_data [of c ps w q e] Cons.prems by (simp add: encaps_gre_def)
  from Cons.IH [OF this] Cons.prems(2) show ?case by simp
qed simp

lemma encaps_status: "writes_ok e \<Longrightarrow> 0 \<le> fst (encaps_gre e (Some p) w)"
  by (simp add: encaps_gre_def encaps_gre_data_def Let_def case_prod_beta gre_simps writes_ok_def)

lemma pty_handler_eq:
  assumes "writes_ok e" and "\<not> ge_sync e" and "b \<noteq> []"
  shows "pty_handler e b (h, w) = ((fst (hdlc_decode h b))\<lparr>hd_checkedsync := True\<rparr>, fold (\<lambda>p g. snd (encaps_gre e (Some p) g)) (snd (hdlc_decode h b)) w)"
proof -
  define h1 where "h1 = h\<lparr>hd_checkedsync := True\<rparr>"
  have d: "hdlc_decode h1 b = ((fst (hdlc_decode h b))\<lparr>hd_checkedsync := True\<rparr>, snd (hdlc_decode h b))" unfolding h1_def by (rule decode_sync)
  have "decaps_hdlc False (\<lambda>p. encaps_gre e (Some p)) b (h, w)
      = (0, fst (hdlc_decode h1 b), fold (\<lambda>p g. snd (encaps_gre e (Some p) g)) (snd (hdlc_decode h1 b)) w)"
    using assms(3) scan_decode [where cb = "\<lambda>p. encaps_gre e (Some p)" and bs = b and h = h1 and g = w, OF encaps_status [OF assms(1)]]
    by (simp add: decaps_hdlc_def h1_def Let_def)
  then show ?thesis using assms(2) by (simp add: pty_handler_def d)
qed

lemma tx_pty:
  assumes "tx_ok c ps w" and "writes_ok e" and "\<not> ge_sync e" and "\<forall>p \<in> set (snd (hdlc_decode h b)). length p < PACKET_MAX"
  shows "\<exists>s. fst (pty_handler e b (h, w)) = (fst (hdlc_decode h b))\<lparr>hd_checkedsync := s\<rparr>
    \<and> tx_ok c (ps @ snd (hdlc_decode h b)) (snd (pty_handler e b (h, w)))"
proof (cases "b = []")
  case True
  have "\<exists>s. h = h\<lparr>hd_checkedsync := s\<rparr>" by (rule exI [of _ "hd_checkedsync h"]) simp
  then show ?thesis using tx_same_ok [OF tx_same_steps(6) assms(1)] True by (simp add: pty_handler_def decaps_hdlc_def)
next
  case False
  then show ?thesis using tx_packets [OF assms(1,4), of e] pty_handler_eq [OF assms(2,3)] by auto
qed

lemma encaps_ack_sent:
  assumes "length (gr_buff w) = gre_buff_size" and "gr_ack_sent w \<noteq> gr_seq_recv w" and "w' = snd (encaps_gre_ack e w)"
  shows "gr_out w' = gr_out w @ [ToGre (gre_ack_frame (gr_peer_call_id w) (gr_seq_recv w))]" "gr_seq w' = gr_seq w"
    "gr_peer_call_id w' = gr_peer_call_id w" "length (gr_buff w') = gre_buff_size" "gr_el w' = gr_el (gre_disarm e w)"
proof -
  let ?h = "gre_header PPTP_GRE_FLAG_K PPTP_GRE_VER 0 (gr_peer_call_id w)" and ?f = "gre_ack_frame (gr_peer_call_id w) (gr_seq_recv w)"
  have "gre_put 0 ?f (gre_put 0 ?h w) = gre_put 0 ?f w" using assms(1) by (intro put_put) (simp_all add: gre_ack_frame_def gre_buff_size_def PACKET_MAX_def)
  moreover have "take 12 (gr_buff (gre_put 0 ?f w)) = ?f" by (simp add: gre_put_def gre_ack_frame_def)
  ultimately show "gr_out w' = gr_out w @ [ToGre ?f]"
    using assms(2,3) by (simp add: encaps_gre_ack_def Let_def case_prod_beta gre_simps gre_write_def gre_ack_frame_def [symmetric]
      gre_header_size_def gre_field_size_def)
  show "gr_seq w' = gr_seq w" "gr_peer_call_id w' = gr_peer_call_id w"
    unfolding assms(3) by (simp_all add: encaps_gre_ack_def Let_def case_prod_beta gre_simps gre_write_def)
  show "length (gr_buff w') = gre_buff_size" unfolding assms(3) using encaps_ack_same [of w e] assms(1) by (simp add: rx_same_def)
  show "gr_el w' = gr_el (gre_disarm e w)" unfolding assms(3)
    using assms(2) by (simp add: encaps_gre_ack_def Let_def case_prod_beta gre_simps gre_write_def) (simp add: gre_disarm_def gre_simps)
qed

lemma tx_ack:
  assumes "tx_ok c ps w"
  shows "tx_ok c ps (gre_send_ack e w)"
proof (cases "gr_ack_sent w = gr_seq_recv w")
  case False
  have l: "length (gr_buff w) = gre_buff_size" "gr_peer_call_id w = c" using assms by (simp_all add: tx_ok_def)
  show ?thesis using assms False encaps_ack_sent(1-4) [OF l(1) False refl, of e] l(2)
    by (auto simp: tx_ok_def gre_send_ack_def encaps_gre_def tx_frame_def)
qed (use assms in \<open>simp add: gre_send_ack_def\<close>)

text \<open>The bytes from the terminal and the packets from the tunnel in a sequence of events.\<close>

fun ev_pty :: "tunnel_ev \<Rightarrow> u8 list" where
  "ev_pty (FromPty b) = b"
| "ev_pty _ = []"

fun ev_gre :: "tunnel_ev \<Rightarrow> u8 list list" where
  "ev_gre (FromGre b) = [b]"
| "ev_gre _ = []"

definition pty_input :: "tunnel_ev list \<Rightarrow> u8 list" where
  "pty_input evs = concat (map ev_pty evs)"

definition gre_input :: "tunnel_ev list \<Rightarrow> u8 list list" where
  "gre_input evs = concat (map ev_gre evs)"

lemma tx_step:
  assumes "tx_ok c ps w" and "writes_ok e" and "\<not> ge_sync e" and "tunnel_step e ev (h, w) = Some (h1, w1)"
    and "\<forall>b \<in> set (ev_gre ev). length b \<le> gre_buff_size" and "\<forall>p \<in> set (snd (hdlc_decode h (ev_pty ev))). length p < PACKET_MAX"
  shows "\<exists>s. h1 = (fst (hdlc_decode h (ev_pty ev)))\<lparr>hd_checkedsync := s\<rparr> \<and> tx_ok c (ps @ snd (hdlc_decode h (ev_pty ev))) w1"
proof -
  have r: "\<exists>s. h = h\<lparr>hd_checkedsync := s\<rparr>" by (rule exI [of _ "hd_checkedsync h"]) simp
  show ?thesis
  proof (cases ev)
    case (FromGre b)
    then have "tx_same w w1" "h1 = h" using tx_same_handler [of e b w w1] assms(1,4,5) by (auto simp: tx_ok_def)
    then show ?thesis using r FromGre tx_same_ok [OF _ assms(1)] by simp
  next
    case (FromPty b)
    then have "pty_handler e b (h, w) = (h1, w1)" using assms(4) by simp
    then show ?thesis using tx_pty [OF assms(1-3), of h b] assms(6) FromPty by simp
  next
    case AckTimer
    have "tx_ok c ps (w\<lparr>gr_el := el_expire (ack_kind e) (gr_el w)\<rparr>)" using assms(1) by (simp add: tx_ok_def)
    then show ?thesis using tx_ack AckTimer assms(4) r by auto
  qed
qed

lemma tx_run:
  assumes "writes_ok e" and "\<not> ge_sync e"
  shows "tx_ok c ps w \<Longrightarrow> tunnel_run e evs (h, w) = Some (h', w') \<Longrightarrow> \<forall>b \<in> set (gre_input evs). length b \<le> gre_buff_size \<Longrightarrow>
    \<forall>p \<in> set (snd (hdlc_decode h (pty_input evs))). length p < PACKET_MAX \<Longrightarrow> tx_ok c (ps @ snd (hdlc_decode h (pty_input evs))) w'"
proof (induction evs arbitrary: h w ps)
  case (Cons ev evs)
  obtain h1 w1 where s: "tunnel_step e ev (h, w) = Some (h1, w1)" "tunnel_run e evs (h1, w1) = Some (h', w')"
    using Cons.prems(2) by (auto simp: bind_eq_Some_conv simp del: tunnel_step.simps)
  let ?d = "hdlc_decode h (ev_pty ev)"
  have d: "snd (hdlc_decode h (pty_input (ev # evs))) = snd ?d @ snd (hdlc_decode (fst ?d) (pty_input evs))"
    by (simp add: pty_input_def decode_append)
  obtain x where x: "h1 = (fst ?d)\<lparr>hd_checkedsync := x\<rparr>" "tx_ok c (ps @ snd ?d) w1"
    using tx_step [OF Cons.prems(1) assms s(1)] Cons.prems(3,4) unfolding d by (auto simp: gre_input_def)
  have d1: "snd (hdlc_decode h1 (pty_input evs)) = snd (hdlc_decode (fst ?d) (pty_input evs))" unfolding x(1) by (simp add: decode_sync)
  show ?case using Cons.IH [OF x(2) s(2)] Cons.prems(3,4) unfolding d d1 by (simp add: gre_input_def)
qed (simp add: pty_input_def)

text \<open>A tunnel that has just been set up.\<close>

definition gre_fresh :: "'h gre \<Rightarrow> bool" where
  "gre_fresh w \<longleftrightarrow> gr_seq w = 1 \<and> gr_first w \<and> gr_seq_recv w = 0 \<and> pq_list (gr_pq w) = [] \<and> gr_out w = [] \<and> length (gr_buff w) = gre_buff_size"

lemma fresh_tx: "gre_fresh w \<Longrightarrow> tx_ok (gr_peer_call_id w) [] w"
  by (simp add: gre_fresh_def tx_ok_def)

lemma fresh_rx: "gre_fresh w \<Longrightarrow> rx_idle e ps 0 w"
  by (simp add: gre_fresh_def rx_idle_def rx_ok_def pq_contents_def pq.ordered_def to_pty_def)

section \<open>Order\<close>

text \<open>Claim C21: the tunnel keeps the order. One end reads the frames of the packets \<open>ps\<close> from its terminal, in pieces and between other events, and
  the network loses, repeats, delays and reorders what it sends. Whatever the other end does meanwhile, and however often its packets in the
  queue expire, it handles every packet, and what it writes to its terminal are the frames of some of the packets \<open>ps\<close>, each at most once
  and in the order in which they were sent.\<close>

theorem tunnel_in_order:
  assumes "gre_fresh a" and "writes_ok ea" and "\<not> ge_sync ea" and "tunnel_run ea evs (hdlc_init, a) = Some (h', a')"
    and "\<forall>b \<in> set (gre_input evs). length b \<le> gre_buff_size"
    and "pty_input evs = concat (map (encaps_hdlc False) ps)" and "\<forall>p \<in> set ps. hdlc_size_ok p" and "length ps \<le> gre_limit"
    and "gre_fresh b" and "writes_ok eb" and "\<forall>x. FromGre x \<in> set fvs \<longrightarrow> (\<exists>f. ToGre f \<in> set (gr_out a') \<and> read_as f x)"
  shows "\<exists>h'' b' ds. tunnel_run eb fvs (h, b) = Some (h'', b') \<and> to_pty b' = map (encaps_hdlc (ge_sync eb)) ds \<and> subseq ds ps"
proof -
  have d: "hdlc_decode hdlc_init (pty_input evs) = (hdlc_init, ps)" unfolding assms(6)
    by (rule decode_frames) (use assms(7) in \<open>simp_all add: hdlc_init_def\<close>)
  have s: "\<forall>p \<in> set ps. length p < PACKET_MAX" using assms(7) by (auto simp: hdlc_size_ok_def PACKET_MAX_def)
  have "tx_ok (gr_peer_call_id a) ps a'" using tx_run [OF assms(2,3) fresh_tx [OF assms(1)] assms(4,5)] s by (simp add: d)
  then have "\<exists>f. tx_frame (gr_peer_call_id a) ps f \<and> read_as f x" if "FromGre x \<in> set fvs" for x
    using assms(11) that unfolding tx_ok_def by blast
  from rx_run [OF assms(10,8) this fresh_rx [OF assms(9)]]
  obtain h'' b' m where "tunnel_run eb fvs (h, b) = Some (h'', b')" "rx_idle eb ps m b'" by blast
  moreover from this obtain ds where "subseq ds (take m ps)" "to_pty b' = map (encaps_hdlc (ge_sync eb)) ds" by (auto simp: rx_idle_def rx_ok_def)
  moreover have "subseq (take m ps) ps" by (simp add: take_is_prefix prefix_imp_subseq)
  ultimately show ?thesis by (blast intro: subseq_order.order_trans)
qed

text \<open>Two packets, of which the second arrives first, twice, and the first never.\<close>

definition example_gre_env :: "char gre_env" where
  "example_gre_env = \<lparr>ge_handler = CHR ''a'', ge_fd = 7, ge_sync = False, ge_clock = (\<lambda>n. \<lparr>tv_sec = 100, tv_usec = word_of_nat n\<rparr>), ge_mem = (\<lambda>_. True),
     ge_write = (\<lambda>_ b. int (length b))\<rparr>"

definition example_gre :: "char gre" where
  "example_gre = \<lparr>gr_pptp_fd = 5, gr_gre_fd = 7, gr_ack_sent = 0, gr_ack_recv = 0, gr_seq_sent = 0, gr_seq_recv = 0, gr_call_id = 3, gr_peer_call_id = 4,
     gr_stats = gre_stats_init, gr_buff = replicate gre_buff_size 0, gr_first = True, gr_seq = 1, gr_ready = True, gr_exit = False,
     gr_pq = pqueue_init, gr_el = eloop_init 0, gr_tick = 0, gr_out = []\<rparr>"

definition example_ip :: "u8 list" where
  "example_ip = 0x45 # replicate 19 0"

lemma example_gre_ok: "gre_fresh example_gre" "writes_ok example_gre_env" "\<not> ge_sync example_gre_env" "ip_header example_ip"
  by (simp_all add: gre_fresh_def example_gre_def pqueue_init_def writes_ok_def example_gre_env_def ip_header_def example_ip_def)

lemma sent_log:
  "length (gr_buff w) = gre_buff_size \<Longrightarrow> gr_ack_sent w = gr_seq_recv w \<Longrightarrow> \<forall>p \<in> set ps. length p < PACKET_MAX \<Longrightarrow>
    gr_out (fold (\<lambda>p g. snd (encaps_gre e (Some p) g)) ps w)
      = gr_out w @ map (\<lambda>i. ToGre (gre_frame (gr_peer_call_id w) (gr_seq w + word_of_nat i) None (ps ! i))) [0..<length ps]"
proof (induction ps arbitrary: w)
  case (Cons p ps)
  define v where "v = snd (encaps_gre e (Some p) w)"
  have v: "v = snd (encaps_gre_data e p w)" by (simp add: v_def encaps_gre_def)
  note s = encaps_data_sent [OF Cons.prems(1) _ v]
  have p: "length p < PACKET_MAX" using Cons.prems(3) by simp
  have "gr_out (fold (\<lambda>p g. snd (encaps_gre e (Some p) g)) ps v)
      = gr_out v @ map (\<lambda>i. ToGre (gre_frame (gr_peer_call_id v) (gr_seq v + word_of_nat i) None (ps ! i))) [0..<length ps]"
    by (rule Cons.IH) (use s [OF p] Cons.prems(3) in simp_all)
  moreover have "map f [0..<Suc n] = f 0 # map (\<lambda>i. f (Suc i)) [0..<n]" for f :: "nat \<Rightarrow> gre_out" and n by (simp add: upt_conv_Cons map_Suc_upt [symmetric] del: upt_Suc map_Suc_upt)
  moreover have "gre_due_ack w = None" using Cons.prems(2) by (simp add: gre_due_ack_def)
  ultimately show ?case using s [OF p] by (simp add: v_def [symmetric] add.assoc add.commute [of 1] del: upt_Suc)
qed simp

lemma example_sent:
  assumes "\<forall>p \<in> set ps. hdlc_size_ok p" and "ps \<noteq> []"
  shows "\<exists>h' a'. tunnel_run example_gre_env [FromPty (concat (map (encaps_hdlc False) ps))] (hdlc_init, example_gre) = Some (h', a')
    \<and> gr_out a' = map (\<lambda>i. ToGre (gre_frame 4 (1 + word_of_nat i) None (ps ! i))) [0..<length ps]"
proof -
  let ?b = "concat (map (encaps_hdlc False) ps)"
  have d: "hdlc_decode hdlc_init ?b = (hdlc_init, ps)" by (rule decode_frames) (use assms(1) in \<open>simp_all add: hdlc_init_def\<close>)
  have "?b \<noteq> []"
  proof
    assume "?b = []"
    from d [unfolded this] show False using assms(2) by simp
  qed
  then have p: "pty_handler example_gre_env ?b (hdlc_init, example_gre)
      = (hdlc_init\<lparr>hd_checkedsync := True\<rparr>, fold (\<lambda>p g. snd (encaps_gre example_gre_env (Some p) g)) ps example_gre)"
    using pty_handler_eq [OF example_gre_ok(2,3)] by (simp add: d)
  have "\<forall>p \<in> set ps. length p < PACKET_MAX" using assms(1) by (auto simp: hdlc_size_ok_def PACKET_MAX_def)
  then show ?thesis using sent_log [of example_gre ps example_gre_env] p by (simp add: example_gre_def)
qed

theorem tunnel_in_order_witness:
  "\<exists>h'' b' ds. tunnel_run example_gre_env [FromGre (example_ip @ gre_frame 4 2 None [3, 4]), FromGre (example_ip @ gre_frame 4 2 None [3, 4])]
      (hdlc_init, example_gre) = Some (h'', b') \<and> to_pty b' = map (encaps_hdlc False) ds \<and> subseq ds [[1, 2], [3, 4]]"
proof -
  let ?ps = "[[1, 2], [3, 4]] :: u8 list list" and ?f = "gre_frame 4 2 None [3, 4]"
  let ?fvs = "[FromGre (example_ip @ ?f), FromGre (example_ip @ ?f)]"
  have s: "\<forall>p \<in> set ?ps. hdlc_size_ok p" by (simp add: hdlc_size_ok_def PACKET_MAX_def)
  obtain h' a' where r: "tunnel_run example_gre_env [FromPty (concat (map (encaps_hdlc False) ?ps))] (hdlc_init, example_gre) = Some (h', a')"
      "gr_out a' = [ToGre (gre_frame 4 1 None [1, 2]), ToGre ?f]" using example_sent [OF s] by (auto simp: upt_rec)
  have "read_as ?f (example_ip @ ?f)" using example_gre_ok(4)
    by (auto simp: read_as_def frame_fields(8) [where rest = "[]", OF refl] gre_buff_size_def PACKET_MAX_def example_ip_def)
  then have "\<forall>x. FromGre x \<in> set ?fvs \<longrightarrow> (\<exists>f. ToGre f \<in> set (gr_out a') \<and> read_as f x)" using r(2) by auto
  moreover have "\<forall>b \<in> set (gre_input [FromPty (concat (map (encaps_hdlc False) ?ps))]). length b \<le> gre_buff_size" by (simp add: gre_input_def)
  moreover have "pty_input [FromPty (concat (map (encaps_hdlc False) ?ps))] = concat (map (encaps_hdlc False) ?ps)" by (simp add: pty_input_def)
  moreover have "length ?ps \<le> gre_limit" by (simp add: gre_limit_def)
  moreover have "ge_sync example_gre_env = False" by (simp add: example_gre_env_def)
  ultimately show ?thesis using tunnel_in_order [OF example_gre_ok(1-3) r(1) _ _ s _ example_gre_ok(1,2), of ?fvs hdlc_init] by metis
qed

end
