(* ===== verification/Pptp_Delivery.thy ===== *)
theory Pptp_Delivery
  imports Pptp_Tunnel
begin

text \<open>
  What the tunnel of \<open>Pptp_Gre\<close> delivers when the network brings every packet.
\<close>

section \<open>Time\<close>

text \<open>The readings of the clock are proper and lie within the 0.3 seconds after which a packet expires.\<close>

definition tv_us :: "timeval \<Rightarrow> int" where
  "tv_us t = sint (tv_sec t) * 1000000 + sint (tv_usec t)"

definition brisk :: "'h gre_env \<Rightarrow> bool" where
  "brisk e \<longleftrightarrow> (\<forall>n. 0 \<le> sint (tv_usec (ge_clock e n)) \<and> sint (tv_usec (ge_clock e n)) < 1000000)
     \<and> (\<forall>i j. tv_us (ge_clock e j) - tv_us (ge_clock e i) < 300000)"

lemma expiry_us:
  assumes "0 \<le> sint (tv_usec t)" and "sint (tv_usec t) < 1000000" and "pe_expires p = pqueue_expires t"
  shows "pqueue_expiry_time now p = word_of_int (tv_us t + 300000 - tv_us now)"
proof -
  define us where "us = sint (tv_usec t) + 300000"
  have "sint (tv_usec t + packet_timeout_usecs) = us"
    using assms(1,2) by (simp add: us_def packet_timeout_usecs_def signed_word_eqI sint_word_ariths signed_take_bit_int_eq_self)
  moreover have "us sdiv 1000000 = us div 1000000" "us smod 1000000 = us mod 1000000"
    using assms(1) by (simp_all add: us_def signed_divide_int_def signed_modulo_int_def sgn_if minus_div_mult_eq_mod)
  ultimately have x: "pe_expires p = \<lparr>tv_sec = tv_sec t + word_of_int (us div 1000000), tv_usec = word_of_int (us mod 1000000)\<rparr>"
    by (simp add: assms(3) pqueue_expires_def Let_def)
  have "pqueue_expiry_time now p
      = word_of_int ((sint (tv_sec t) + us div 1000000 - sint (tv_sec now)) * 1000000 + (us mod 1000000 - sint (tv_usec now)))"
    by (simp add: pqueue_expiry_time_def x)
  also have "(sint (tv_sec t) + us div 1000000 - sint (tv_sec now)) * 1000000 + (us mod 1000000 - sint (tv_usec now)) = tv_us t + 300000 - tv_us now"
    using div_mult_mod_eq [of us 1000000] by (simp add: tv_us_def us_def algebra_simps)
  finally show ?thesis .
qed

lemma sint_short_time: "0 < d \<Longrightarrow> d < 600000 \<Longrightarrow> sint (word_of_int d :: u32) = d"
  by (simp add: signed_of_int signed_take_bit_int_eq_self)

lemma brisk_expiry:
  assumes "brisk e" and "pe_expires p = pqueue_expires (ge_clock e i)"
  shows "0 < sint (pqueue_expiry_time (ge_clock e j) p)"
proof -
  let ?d = "tv_us (ge_clock e i) + 300000 - tv_us (ge_clock e j)"
  have c: "0 \<le> sint (tv_usec (ge_clock e i))" "sint (tv_usec (ge_clock e i)) < 1000000" using assms(1) by (simp_all add: brisk_def)
  have "tv_us (ge_clock e j) - tv_us (ge_clock e i) < 300000" "tv_us (ge_clock e i) - tv_us (ge_clock e j) < 300000"
    using assms(1) unfolding brisk_def by blast+
  then have d: "0 < ?d" "?d < 600000" by linarith+
  then have "sint (word_of_int ?d :: u32) = ?d" by (rule sint_short_time)
  then show ?thesis unfolding expiry_us [OF c assms(2)] using d(1) by simp
qed

section \<open>Delivery\<close>

text \<open>The packets with the numbers in \<open>R\<close> have arrived: those up to \<open>m\<close>, which is a full prefix, have been passed on, and the others are in the
  queue, from where they have not expired.\<close>

definition rx_full :: "'h gre_env \<Rightarrow> u8 list list \<Rightarrow> nat set \<Rightarrow> nat \<Rightarrow> 'h gre \<Rightarrow> bool" where
  "rx_full e ps R m w \<longleftrightarrow> length (gr_buff w) = gre_buff_size \<and> gr_seq_recv w = word_of_nat m \<and> (gr_first w \<longrightarrow> R = {})
     \<and> pq.ordered (gr_pq w) \<and> fst ` set (pq_contents (gr_pq w)) = int ` (R - {1..m}) \<and> {1..m} \<subseteq> R \<and> R \<subseteq> {1..length ps}
     \<and> (\<forall>x \<in> set (pq_contents (gr_pq w)). snd x = ps ! (nat (fst x) - 1)) \<and> to_pty w = map (encaps_hdlc (ge_sync e)) (take m ps)
     \<and> (\<forall>p \<in> set (pq_list (gr_pq w)). \<exists>i. pe_expires p = pqueue_expires (ge_clock e i))"

lemma full_limit: "rx_full e ps R m w \<Longrightarrow> m \<le> length ps"
proof -
  assume "rx_full e ps R m w"
  then have "{1..m} \<subseteq> R" "R \<subseteq> {1..length ps}" by (simp_all add: rx_full_def)
  then have "{1..m} \<subseteq> {1..length ps}" by (rule subset_trans)
  then show ?thesis by (cases m) auto
qed

lemma full_same: "rx_same w w' \<Longrightarrow> rx_full e ps R m w \<Longrightarrow> rx_full e ps R m w'"
  by (simp add: rx_same_def rx_full_def)

lemma insert_expires: "pqueue_insert x es = Some ys \<Longrightarrow> set ys = insert x (set es)"
  by (induction es arbitrary: ys) (auto split: if_splits)

lemma add_expires:
  assumes "p \<in> set (pq_list (snd (pqueue_add mem now s b q)))"
  shows "p \<in> set (pq_list q) \<or> pe_expires p = pqueue_expires now"
proof -
  obtain x q1 where a: "pqueue_alloc mem now s b q = (x, q1)" by (cases "pqueue_alloc mem now s b q")
  have l: "pq_list q1 = pq_list q" using alloc_queue [of mem now s b q] by (simp add: a)
  show ?thesis using assms l alloc_entry(3) [of mem now s b q] insert_expires [of _ "pq_list q"]
    by (auto simp: pqueue_add_def a split: option.splits)
qed

lemma prefix_step: "m + 1 \<notin> R \<Longrightarrow> R - {1..m} = insert (m + 1) R - {1..m + 1}" for m :: nat
  by (auto simp: le_Suc_eq)

lemma full_pass:
  assumes "rx_full e ps R m w" and "m + 1 \<notin> R" and "m + 1 \<le> length ps" and "gr_seq_recv w' = word_of_nat (m + 1)" and "gr_pq w' = gr_pq w"
    and "to_pty w' = to_pty w @ [encaps_hdlc (ge_sync e) (ps ! m)]" and "gr_buff w' = gr_buff w" and "\<not> gr_first w'"
  shows "rx_full e ps (insert (m + 1) R) (m + 1) w'"
proof -
  have "take (m + 1) ps = take m ps @ [ps ! m]" using assms(3) by (simp add: take_Suc_conv_app_nth)
  then show ?thesis using assms prefix_step [OF assms(2)] unfolding rx_full_def by (auto simp: le_Suc_eq)
qed

lemma full_data:
  assumes "rx_full e ps R m w" and "m + 1 \<notin> R" and "writes_ok e" and "\<forall>n. ge_mem e n" and "length ps \<le> gre_limit"
    and "1 \<le> j" and "j \<le> length ps" and "j < m + 300" and "R = {} \<longrightarrow> j = 1"
  shows "\<exists>st w' m'. gre_data e (word_of_nat j) (Some (ps ! (j - 1))) w = Some (st, w') \<and> 0 \<le> st \<and> rx_full e ps (insert j R) m' w'"
proof -
  have s: "gr_seq_recv w = word_of_nat m" "m \<le> gre_limit" "j \<le> gre_limit" using assms(1,5,7) full_limit [OF assms(1)] by (simp_all add: rx_full_def)
  have first: "gr_first w \<Longrightarrow> j = m + 1" using assms(1,9) by (cases m) (auto simp: rx_full_def)
  obtain st w' where d: "gre_data e (word_of_nat j) (Some (ps ! (j - 1))) w = Some (st, w')" "gr_buff w' = gr_buff w" "\<not> gr_first w'"
      "if gr_first w \<or> j = m + 1
       then (\<exists>n. st = ge_write e n (encaps_hdlc (ge_sync e) (ps ! (j - 1)))) \<and> gr_seq_recv w' = word_of_nat j \<and> gr_pq w' = gr_pq w
         \<and> to_pty w' = to_pty w @ [encaps_hdlc (ge_sync e) (ps ! (j - 1))]
       else st = 0 \<and> gr_seq_recv w' = word_of_nat m \<and> to_pty w' = to_pty w
         \<and> gr_pq w' = (if m < j \<and> j < m + 300
             then snd (pqueue_add (ge_mem e (gr_tick w), ge_mem e (gr_tick w + 1)) (ge_clock e (gr_tick w)) (word_of_nat j) (ps ! (j - 1)) (gr_pq w)) else gr_pq w)"
    using data_effect [OF s, of e "ps ! (j - 1)"] by blast
  consider "j = m + 1" | "j \<noteq> m + 1" "j \<le> m" | "j \<noteq> m + 1" "m < j" by linarith
  then show ?thesis
  proof cases
    case 1
    then have "rx_full e ps (insert j R) (m + 1) w'"
      using full_pass [OF assms(1,2) _ _ _ _ d(2,3)] d(4) assms(7) by (simp del: One_nat_def add_Suc_right)
    moreover have "0 \<le> st" using d(4) 1 assms(3) by (auto simp: writes_ok_def)
    ultimately show ?thesis using d(1) by blast
  next
    case 2
    then have "insert j R = R" using assms(1,6) by (auto simp: rx_full_def)
    moreover have nf: "\<not> (gr_first w \<or> j = m + 1)" using first 2(1) by blast
    ultimately show ?thesis using d(1-3) d(4) [unfolded if_not_P [OF nf]] 2(2) assms(1) by (auto simp: rx_full_def)
  next
    case 3
    define q where "q = snd (pqueue_add (True, True) (ge_clock e (gr_tick w)) (word_of_nat j) (ps ! (j - 1)) (gr_pq w))"
    have nf: "\<not> (gr_first w \<or> j = m + 1)" using first 3(1) by blast
    have w': "st = 0" "gr_seq_recv w' = word_of_nat m" "to_pty w' = to_pty w" "gr_pq w' = q"
      using d(4) [unfolded if_not_P [OF nf]] 3(2) assms(4,8) by (simp_all add: q_def)
    have o: "pq.ordered (gr_pq w)" using assms(1) by (simp add: rx_full_def)
    have "pq.ordered q" unfolding q_def by (rule pq.ordered_add [OF o])
    moreover have c: "set (pq_contents q) = (if int j \<in> fst ` set (pq_contents (gr_pq w)) then set (pq_contents (gr_pq w))
        else insert (int j, ps ! (j - 1)) (set (pq_contents (gr_pq w))))"
      using pq.set_add [OF o] seq_arith(4) [OF s(3,2)] by (simp add: q_def)
    moreover have "fst ` set (pq_contents q) = int ` (insert j R - {1..m})"
      using assms(1) 3(2) unfolding c rx_full_def by (auto simp: image_iff)
    moreover have "\<forall>x \<in> set (pq_contents q). snd x = ps ! (nat (fst x) - 1)" using assms(1) unfolding c rx_full_def by auto
    moreover have "\<exists>i. pe_expires p = pqueue_expires (ge_clock e i)" if "p \<in> set (pq_list q)" for p
      using add_expires [OF that [unfolded q_def]] assms(1) by (auto simp: rx_full_def)
    ultimately have "rx_full e ps (insert j R) m w'" using w' d(2,3) assms(1,6,7) unfolding rx_full_def by auto
    then show ?thesis using d(1) w'(1) by auto
  qed
qed

lemma full_head:
  assumes "rx_full e ps R m w" and "length ps \<le> gre_limit" and "pqueue_head (gr_pq w) = Some p"
  shows "\<exists>j xs. pe_seq p = word_of_nat j \<and> m < j \<and> j \<in> R \<and> pq_contents (gr_pq w) = (int j, ps ! (j - 1)) # xs \<and> (\<forall>x \<in> set xs. int j < fst x)
    \<and> p \<in> set (pq_list (gr_pq w)) \<and> pe_packet p = ps ! (j - 1)"
proof -
  obtain xs where c: "pq_contents (gr_pq w) = (sint (pe_seq p), pe_packet p) # xs" and p: "p \<in> set (pq_list (gr_pq w))"
    using assms(3) by (auto simp: pqueue_head_def pq_contents_def split: list.splits)
  have "sint (pe_seq p) \<in> fst ` set (pq_contents (gr_pq w))" by (simp add: c)
  then obtain j where j: "sint (pe_seq p) = int j" "j \<in> R" "j \<notin> {1..m}" using assms(1) by (auto simp: rx_full_def)
  have r: "1 \<le> j" "j \<le> length ps" using j(2) assms(1) by (auto simp: rx_full_def)
  have "pe_seq p = word_of_nat j" using seq_arith(4) [of j m] full_limit [OF assms(1)] r(2) assms(2) j(1) by (intro sint_eqD) simp
  moreover have "pe_packet p = ps ! (j - 1)" using assms(1) c j(1) by (auto simp: rx_full_def)
  moreover have "\<forall>x \<in> set xs. int j < fst x" using assms(1) c j(1) by (simp add: rx_full_def pq.ordered_def)
  ultimately show ?thesis using j r c p by auto
qed

lemma full_take:
  assumes "rx_full e ps R m w" and "length ps \<le> gre_limit" and "writes_ok e" and "pqueue_head (gr_pq w) = Some p" and "pe_seq p = word_of_nat (m + 1)"
  shows "fst (gre_take e p w) = 0 \<and> rx_full e ps R (m + 1) (snd (gre_take e p w))"
proof -
  let ?w = "snd (gre_take e p w)"
  obtain j xs where h: "pe_seq p = word_of_nat j" "m < j" "j \<in> R" "pq_contents (gr_pq w) = (int j, ps ! (j - 1)) # xs" "\<forall>x \<in> set xs. int j < fst x"
      "pe_packet p = ps ! (j - 1)" using full_head [OF assms(1,2,4)] by blast
  have "j \<le> length ps" using h(3) assms(1) by (auto simp: rx_full_def)
  then have j: "j = m + 1" using seq_arith(1) [of j m] full_limit [OF assms(1)] assms(2,5) h(1) by (simp del: One_nat_def)
  have w: "gr_seq_recv ?w = word_of_nat (m + 1)" "gr_first ?w = gr_first w" "gr_pq ?w = pqueue_del 0 (gr_pq w)" "gr_buff ?w = gr_buff w"
      "to_pty ?w = to_pty w @ [encaps_hdlc (ge_sync e) (ps ! m)]"
    using take_effect(1-5) [of e p w] h(6) assms(5) j by simp_all
  have o: "pq.ordered (gr_pq w)" "pq_contents (gr_pq w) \<noteq> []" using assms(1) h(4) by (simp_all add: rx_full_def)
  have xs: "pq_contents (gr_pq ?w) = xs" using pq.contents_del [OF o(2)] h(4) w(3) by simp
  have "int ` (R - {1..m}) = insert (int j) (fst ` set xs)" using assms(1) h(4) by (simp add: rx_full_def)
  moreover have "int j \<notin> fst ` set xs" using h(5) by auto
  ultimately have "fst ` set xs = int ` (R - {1..m}) - {int j}" by blast
  also have "\<dots> = int ` (R - {1..m + 1})" unfolding j by (auto simp: le_Suc_eq)
  finally have "fst ` set xs = int ` (R - {1..m + 1})" .
  moreover have "take (m + 1) ps = take m ps @ [ps ! m]" using \<open>j \<le> length ps\<close> j by (simp add: take_Suc_conv_app_nth)
  moreover have "{1..m + 1} \<subseteq> R" using assms(1) h(3) j by (auto simp: rx_full_def le_Suc_eq)
  moreover have "set (pq_list (gr_pq ?w)) \<subseteq> set (pq_list (gr_pq w))" unfolding w(3) by (auto simp: pqueue_del_def dest: in_set_dropD)
  moreover have "\<forall>x \<in> set xs. snd x = ps ! (nat (fst x) - 1)" using assms(1) h(4) by (simp add: rx_full_def)
  ultimately have "rx_full e ps R (m + 1) ?w" using w xs pq.ordered_del [OF o] assms(1) unfolding rx_full_def by auto
  then show ?thesis using take_effect(6) [OF assms(3)] by blast
qed

lemma full_dequeue:
  assumes "brisk e" and "writes_ok e" and "length ps \<le> gre_limit"
  shows "rx_full e ps R m w \<Longrightarrow> \<exists>m' w'. dequeue_gre e w = (0, w') \<and> rx_full e ps R m' w' \<and> m' + 1 \<notin> R"
proof (induction "length (pq_list (gr_pq w))" arbitrary: m w rule: less_induct)
  case less
  have s: "gr_seq_recv w = word_of_nat m" "m \<le> gre_limit" using less.prems full_limit [OF less.prems] assms(3) by (simp_all add: rx_full_def)
  show ?case
  proof (cases "pqueue_head (gr_pq w)")
    case None
    then have "pq_contents (gr_pq w) = []" by (simp add: pqueue_head_def pq_contents_def split: list.splits)
    then have "m + 1 \<notin> R" using less.prems by (auto simp: rx_full_def)
    then show ?thesis using None less.prems by (subst dequeue_gre.simps) auto
  next
    case (Some p)
    obtain j xs where h: "pe_seq p = word_of_nat j" "m < j" "j \<in> R" "pq_contents (gr_pq w) = (int j, ps ! (j - 1)) # xs" "\<forall>x \<in> set xs. int j < fst x"
        "p \<in> set (pq_list (gr_pq w))" using full_head [OF less.prems assms(3) Some] by blast
    have jl: "j \<le> gre_limit" using h(3) less.prems assms(3) by (auto simp: rx_full_def)
    show ?thesis
    proof (cases "j = m + 1")
      case True
      then have d: "gre_due e p w = (True, w)" using h(1) s(1) by (simp add: gre_due_def)
      obtain w2 where t: "gre_take e p w = (0, w2)" "rx_full e ps R (m + 1) w2"
        using full_take [OF less.prems assms(3,2) Some] h(1) True by (cases "gre_take e p w") auto
      have "length (pq_list (gr_pq w2)) < length (pq_list (gr_pq w))" using take_shorter [OF Some d [symmetric] t(1) [symmetric]] .
      from less.hyps [OF this t(2)] show ?thesis using Some d t(1) by (subst dequeue_gre.simps) auto
    next
      case False
      obtain i where "pe_expires p = pqueue_expires (ge_clock e i)" using less.prems h(6) by (auto simp: rx_full_def)
      then have x: "\<not> sint (pqueue_expiry_time (ge_clock e (gr_tick w)) p) \<le> 0" using brisk_expiry [OF assms(1)] by (simp add: not_le)
      have "pe_seq p \<noteq> gr_seq_recv w + 1" using seq_arith(1) [OF jl s(2)] False h(1) s(1) by simp
      then have d: "gre_due e p w = (False, w\<lparr>gr_tick := gr_tick w + 1\<rparr>)"
        using not_wrapped [OF s(2)] x s(1) by (simp add: gre_due_def gre_now_def)
      have "int (m + 1) \<notin> fst ` set (pq_contents (gr_pq w))" using h(2,4,5) False by fastforce
      moreover have "fst ` set (pq_contents (gr_pq w)) = int ` (R - {1..m})" using less.prems by (simp add: rx_full_def)
      ultimately have "m + 1 \<notin> R - {1..m}" by blast
      then have "m + 1 \<notin> R" by simp
      moreover have "rx_full e ps R m (w\<lparr>gr_tick := gr_tick w + 1\<rparr>)" using less.prems by (simp add: rx_full_def gre_simps)
      ultimately show ?thesis using Some d by (subst dequeue_gre.simps) auto
    qed
  qed
qed

text \<open>Whether a packet carries data and its number, from the header.\<close>

definition gre_is_data :: "u8 list \<Rightarrow> bool" where
  "gre_is_data f \<longleftrightarrow> f ! 0 AND PPTP_GRE_FLAG_S \<noteq> 0"

definition gre_number :: "u8 list \<Rightarrow> nat" where
  "gre_number f = unat (un_be32 (take 4 (drop 8 f)))"

lemma frame_number: "gre_is_data (gre_frame c s ack p)" "gre_number (gre_frame c s ack p) = unat s" "\<not> gre_is_data (gre_ack_frame c a)"
  using frame_fields(1,5) [where rest = "[]", OF refl, of c s ack p]
  by (simp_all add: gre_is_data_def gre_number_def gre_consts gre_ack_frame_def gre_header_def)

text \<open>The order of arrival: the first packet comes first, and a packet comes before the first one that is 299 or more ahead of it.\<close>

fun in_window :: "nat set \<Rightarrow> nat list \<Rightarrow> bool" where
  "in_window R [] = True"
| "in_window R (j # js) = ((R = {} \<longrightarrow> j = 1) \<and> (\<forall>k \<in> {1..j - 299}. k \<in> R) \<and> in_window (insert j R) js)"

lemma window_limit: "\<forall>k \<in> {1..j - 299}. k \<in> R \<Longrightarrow> m + 1 \<notin> R \<Longrightarrow> j < m + 300" for m j :: nat
  by (rule ccontr) auto

definition full_env :: "'h gre_env \<Rightarrow> u8 list list \<Rightarrow> bool" where
  "full_env e ps \<longleftrightarrow> brisk e \<and> writes_ok e \<and> (\<forall>n. ge_mem e n) \<and> length ps \<le> gre_limit"

lemma full_handler:
  assumes "full_env e ps" and "rx_full e ps R m w" and "m + 1 \<notin> R" and "tx_frame c ps f" and "read_as f b"
    and "gre_is_data f \<Longrightarrow> (R = {} \<longrightarrow> gre_number f = 1) \<and> (\<forall>k \<in> {1..gre_number f - 299}. k \<in> R)"
  defines "R' \<equiv> if gre_is_data f then insert (gre_number f) R else R"
  shows "\<exists>w' m'. gre_handler e b w = Some w' \<and> rx_full e ps R' m' w' \<and> m' + 1 \<notin> R'"
proof -
  note E = assms(1) [unfolded full_env_def]
  have l: "length (gr_buff w) = gre_buff_size" using assms(2) by (simp add: rx_full_def)
  have "\<exists>st w1 m1. decaps_gre e b w = Some (st, w1) \<and> 0 \<le> st \<and> rx_full e ps R' m1 w1"
    using assms(4) unfolding tx_frame_def
  proof (elim disjE exE conjE)
    fix j ack assume j: "1 \<le> j" "j \<le> length ps" "f = gre_frame c (word_of_nat j) ack (ps ! (j - 1))"
    have n: "gre_is_data f" "gre_number f = j" using j E by (simp_all add: frame_number unat_seq gre_limit_def)
    obtain v where v: "rx_same w v" "decaps_gre e b w = gre_data e (word_of_nat j) (Some (ps ! (j - 1))) v"
      using decaps_read [OF assms(5) [unfolded j(3)] l] by blast
    have "j < m + 300" using window_limit assms(3,6) n by auto
    then show ?thesis using full_data [OF full_same [OF v(1) assms(2)] assms(3) _ _ _ j(1,2)] E assms(6) n v(2) by (simp add: R'_def)
  next
    fix a assume a: "f = gre_ack_frame c a"
    obtain ih where ih: "ip_header ih" "b = ih @ f" "length (ih @ f) \<le> gre_buff_size" using assms(5) by (auto simp: read_as_def)
    obtain w1 where "decaps_gre e b w = Some (0, w1)" "rx_same w w1" using decaps_ack_frame [OF ih(1) ih(3) [unfolded a] l] ih(2) a by blast
    then show ?thesis using full_same assms(2) frame_number(3) a by (fastforce simp: R'_def)
  qed
  then obtain st w1 m1 where d: "decaps_gre e b w = Some (st, w1)" "0 \<le> st" "rx_full e ps R' m1 w1" by blast
  obtain m2 w2 where "dequeue_gre e w1 = (0, w2)" "rx_full e ps R' m2 w2" "m2 + 1 \<notin> R'" using full_dequeue [OF _ _ _ d(3)] E by blast
  then show ?thesis using d by (auto simp: gre_handler_def)
qed

definition numbers :: "u8 list list \<Rightarrow> nat list" where
  "numbers fs = map gre_number (filter gre_is_data fs)"

lemma full_run:
  assumes "full_env e ps"
  shows "rx_full e ps R m w \<Longrightarrow> m + 1 \<notin> R \<Longrightarrow> list_all2 read_as fs (gre_input evs) \<Longrightarrow> \<forall>f \<in> set fs. tx_frame c ps f \<Longrightarrow> in_window R (numbers fs) \<Longrightarrow>
    \<exists>h' w' m'. tunnel_run e evs (h, w) = Some (h', w') \<and> rx_full e ps (R \<union> set (numbers fs)) m' w' \<and> m' + 1 \<notin> R \<union> set (numbers fs)"
proof (induction evs arbitrary: h w m R fs)
  case Nil
  then show ?case by (auto simp: gre_input_def numbers_def)
next
  case (Cons ev evs)
  show ?case
  proof (cases ev)
    case (FromGre b)
    then obtain f fs' where f: "fs = f # fs'" "read_as f b" "list_all2 read_as fs' (gre_input evs)"
      using Cons.prems(3) by (auto simp: gre_input_def list_all2_Cons2)
    let ?R = "if gre_is_data f then insert (gre_number f) R else R"
    have win: "gre_is_data f \<Longrightarrow> (R = {} \<longrightarrow> gre_number f = 1) \<and> (\<forall>k \<in> {1..gre_number f - 299}. k \<in> R)" "in_window ?R (numbers fs')"
      using Cons.prems(5) f(1) by (auto simp: numbers_def)
    have "tx_frame c ps f" using Cons.prems(4) f(1) by simp
    from full_handler [OF assms Cons.prems(1,2) this f(2) win(1)]
    obtain w1 m1 where w1: "gre_handler e b w = Some w1" "rx_full e ps ?R m1 w1" "m1 + 1 \<notin> ?R" by blast
    have "R \<union> set (numbers fs) = ?R \<union> set (numbers fs')" using f(1) by (auto simp: numbers_def)
    then show ?thesis using Cons.IH [OF w1(2,3) f(3) _ win(2), of h] Cons.prems(4) f(1) w1(1) FromGre by simp
  next
    case (FromPty b)
    obtain h1 w1 where p: "pty_handler e b (h, w) = (h1, w1)" by (cases "pty_handler e b (h, w)")
    have "rx_full e ps R m w1" using full_same [OF pty_handler_same Cons.prems(1), of e b h] by (simp add: p)
    then show ?thesis using Cons.IH [OF _ Cons.prems(2) _ Cons.prems(4,5), of w1 h1] Cons.prems(3) p FromPty by (simp add: gre_input_def)
  next
    case AckTimer
    have "rx_full e ps R m (gre_send_ack e (w\<lparr>gr_el := el_expire (ack_kind e) (gr_el w)\<rparr>))"
      using full_same [OF rx_same_trans [OF disarm_same(5) send_ack_same] Cons.prems(1)] by simp
    then show ?thesis using Cons.IH [OF _ Cons.prems(2) _ Cons.prems(4,5), of _ h] Cons.prems(3) AckTimer by (simp add: gre_input_def)
  qed
qed



end
