(* ===== verification/Pptp_Limits.thy ===== *)
theory Pptp_Limits
  imports Pptp_Delivery
begin

text \<open>
  How the tunnel of \<open>Pptp_Gre\<close> acknowledges what it gets, and its defects: the comparison of sequence numbers as signed numbers, the test
  for truncated packets, and what a new connection inherits from the last one.
\<close>

section \<open>Acknowledgements\<close>

definition ack_ok :: "'h gre_env \<Rightarrow> 'h gre \<Rightarrow> bool" where
  "ack_ok e w \<longleftrightarrow> gr_ack_sent w = gr_seq_recv w \<or> 0 < el_pending (gr_el w) (ack_kind e)"

definition ack_env :: "'h gre_env \<Rightarrow> bool" where
  "ack_env e \<longleftrightarrow> writes_ok e \<and> (\<forall>n. ge_mem e n) \<and> el_kind (ack_kind e)"

lemma arm_pending: "ack_env e \<Longrightarrow> 0 < el_pending (gr_el (gre_arm e w)) (ack_kind e)"
  using el.pending_set [of "ge_clock e (gr_tick w)" 0 500000 "ack_kind e" "gr_el w" "ack_kind e"]
  by (simp add: ack_env_def gre_arm_def el_set_def ack_kind_def)

lemma ack_same_ok: "gr_ack_sent w' = gr_ack_sent w \<Longrightarrow> gr_seq_recv w' = gr_seq_recv w \<Longrightarrow> gr_el w' = gr_el w \<Longrightarrow> ack_ok e w \<Longrightarrow> ack_ok e w'"
  by (simp add: ack_ok_def)

lemma ack_gre_ack: "ack_ok e w \<Longrightarrow> ack_ok e (gre_ack e a w)"
  by (rule ack_same_ok) (simp_all add: gre_ack_def gre_now_def gre_stat_def Let_def)

lemma ack_stat: "ack_ok e w \<Longrightarrow> ack_ok e (gre_stat f w)"
  by (rule ack_same_ok) (simp_all add: gre_simps)

lemma ack_data:
  assumes "ack_env e" and "ack_ok e w" and "gre_data e s p w = Some (st, w')"
  shows "ack_ok e w'"
proof (cases "gr_first w \<or> s = gr_seq_recv w + 1 \<or> WRAPPED s (gr_seq_recv w)")
  case True
  then obtain q v where "gre_deliver e q (gre_arm e v) = (st, w')" using assms(3) by (auto simp: gre_data_def Let_def bind_eq_Some_conv)
  then have "gr_el w' = gr_el (gre_arm e v)" using deliver_simps(7) [of e q "gre_arm e v"] by simp
  then show ?thesis using arm_pending [OF assms(1)] by (simp add: ack_ok_def)
next
  case False
  then show ?thesis using assms(2,3) by (auto simp: gre_data_def Let_def bind_eq_Some_conv ack_ok_def gre_simps split: if_splits)
qed

lemma ack_parse:
  assumes "ack_env e" and "ack_ok e w" and "gre_parse e status w = Some (st, w')"
  shows "ack_ok e w'"
  using assms(3) ack_stat [OF assms(2)] ack_stat [OF ack_gre_ack [OF assms(2)]] ack_gre_ack [OF assms(2)] assms(2) ack_data [OF assms(1,2)]
    ack_data [OF assms(1) ack_gre_ack [OF assms(2)]]
  by (auto simp: gre_parse_def Let_def split: if_splits)

lemma ack_take:
  assumes "ack_env e"
  shows "ack_ok e (snd (gre_take e p w))"
proof -
  have "\<not> fst (gre_deliver e q v) < 0" for q v using assms by (simp add: ack_env_def writes_ok_def gre_simps not_less)
  then show ?thesis using arm_pending [OF assms] by (simp add: gre_take_def Let_def case_prod_beta ack_ok_def)
qed

lemma ack_dequeue:
  assumes "ack_env e"
  shows "ack_ok e w \<Longrightarrow> ack_ok e (snd (dequeue_gre e w))"
proof (induction "length (pq_list (gr_pq w))" arbitrary: w rule: less_induct)
  case less
  show ?case
  proof (cases "pqueue_head (gr_pq w)")
    case None
    then show ?thesis using less.prems by (subst dequeue_gre.simps) simp
  next
    case (Some p)
    obtain due w1 where d: "gre_due e p w = (due, w1)" by (cases "gre_due e p w")
    obtain st w2 where t: "gre_take e p w1 = (st, w2)" by (cases "gre_take e p w1")
    have eq: "dequeue_gre e w = (if \<not> due then (0, w1) else if st < 0 then (st, w2) else dequeue_gre e w2)"
      by (subst dequeue_gre.simps) (simp add: Some d t)
    obtain n where "w1 = w\<lparr>gr_tick := n\<rparr>" using due_tick [of e p w] d by auto
    then have a: "ack_ok e w1" using less.prems by (simp add: ack_ok_def)
    have b: "ack_ok e w2" using ack_take [OF assms, of p w1] t by simp
    have "ack_ok e (snd (dequeue_gre e w2))" by (rule less.hyps [OF take_shorter [OF Some d [symmetric] t [symmetric]] b])
    then show ?thesis using a b by (simp add: eq)
  qed
qed

lemma ack_handler:
  assumes "ack_env e" and "ack_ok e w" and "gre_handler e b w = Some w'"
  shows "ack_ok e w'"
proof -
  obtain st w1 where d: "decaps_gre e b w = Some (st, w1)" using assms(3) by (auto simp: gre_handler_def bind_eq_Some_conv)
  have "ack_ok e (w\<lparr>gr_buff := b @ drop (length b) (gr_buff w)\<rparr>)" using assms(2) by (simp add: ack_ok_def)
  from ack_parse [OF assms(1) this] have "ack_ok e w1" using d ack_stat [OF assms(2)] unfolding decaps_gre_def by (auto split: if_splits)
  moreover from this have "ack_ok e (snd (dequeue_gre e w1))" by (rule ack_dequeue [OF assms(1)])
  moreover have "ack_ok e v \<Longrightarrow> ack_ok e (v\<lparr>gr_out := x\<rparr>)" for v x by (simp add: ack_ok_def)
  ultimately show ?thesis using assms(3) d by (auto simp: gre_handler_def case_prod_beta split: if_splits)
qed

lemma ack_encaps: "gr_ack_sent (snd (encaps_gre_data e p w)) = gr_seq_recv (snd (encaps_gre_data e p w))"
  by (simp add: encaps_gre_data_def Let_def case_prod_beta gre_simps)

lemma ack_sent_now: "gr_ack_sent (gre_send_ack e w) = gr_seq_recv (gre_send_ack e w)"
  by (simp add: gre_send_ack_def encaps_gre_def encaps_gre_ack_def Let_def case_prod_beta gre_simps gre_write_def)

lemma ack_step:
  assumes "ack_env e" and "ack_ok e (snd w)" and "tunnel_step e ev w = Some w'"
  shows "ack_ok e (snd w')"
proof (cases ev)
  case (FromGre b)
  then show ?thesis using assms ack_handler by auto
next
  case (FromPty b)
  have "ack_ok e (snd (pty_handler e b w))"
  proof (rule pty_handler_keeps [where Q = "ack_ok e"])
    show "ack_ok e (snd (encaps_gre_data e p g))" for p g unfolding ack_ok_def by (rule disjI1) (rule ack_encaps)
    show "ack_ok e g \<Longrightarrow> ack_ok e (g\<lparr>gr_out := gr_out g @ [ConnClose]\<rparr>)" for g by (simp add: ack_ok_def)
  qed (rule assms(2))
  then show ?thesis using assms(3) FromPty by auto
next
  case AckTimer
  then show ?thesis using assms(3) ack_sent_now by (auto simp: ack_ok_def)
qed

lemma ack_run: "ack_env e \<Longrightarrow> ack_ok e (snd w) \<Longrightarrow> tunnel_run e evs w = Some w' \<Longrightarrow> ack_ok e (snd w')"
proof (induction evs arbitrary: w)
  case (Cons ev evs)
  then obtain w1 where "tunnel_step e ev w = Some w1" "tunnel_run e evs w1 = Some w'" by (auto simp: bind_eq_Some_conv simp del: tunnel_step.simps)
  then show ?case using Cons.IH ack_step Cons.prems(1,2) by blast
qed simp

lemma buff_run:
  "length (gr_buff (snd w)) = gre_buff_size \<Longrightarrow> \<forall>b \<in> set (gre_input evs). length b \<le> gre_buff_size \<Longrightarrow> tunnel_run e evs w = Some w' \<Longrightarrow>
    length (gr_buff (snd w')) = gre_buff_size"
proof (induction evs arbitrary: w)
  case (Cons ev evs)
  obtain w1 where s: "tunnel_step e ev w = Some w1" "tunnel_run e evs w1 = Some w'"
    using Cons.prems(3) by (auto simp: bind_eq_Some_conv simp del: tunnel_step.simps)
  have "length (gr_buff (snd w1)) = gre_buff_size"
  proof (cases ev)
    case (FromGre b)
    then show ?thesis using s(1) Cons.prems(1,2) tx_same_handler [of e b "snd w" "snd w1"] by (auto simp: tx_same_def gre_input_def)
  next
    case (FromPty b)
    then show ?thesis using s(1) Cons.prems(1) pty_handler_same [of "snd w" e b "fst w"] by (auto simp: rx_same_def)
  next
    case AckTimer
    then show ?thesis using s(1) Cons.prems(1) send_ack_same [of "(snd w)\<lparr>gr_el := el_expire (ack_kind e) (gr_el (snd w))\<rparr>" e] by (auto simp: rx_same_def)
  qed
  then show ?case using Cons.IH [OF _ _ s(2)] Cons.prems(2) by (simp add: gre_input_def)
qed simp


text \<open>One packet into a tunnel that has just been set up.\<close>

lemma example_accept:
  "\<exists>w'. gre_handler example_gre_env (example_ip @ gre_frame 4 1 None [1, 2]) example_gre = Some w' \<and> gr_seq_recv w' = 1 \<and> gr_ack_sent w' = 0"
proof -
  let ?f = "gre_frame 4 1 None [1, 2]"
  define v where "v = gre_arm example_gre_env ((gre_stat (\<lambda>s. s\<lparr>rx_accepted := rx_accepted s + 1\<rparr>)
    (example_gre\<lparr>gr_buff := example_ip @ ?f @ drop (length (example_ip @ ?f)) (gr_buff example_gre)\<rparr>))\<lparr>gr_first := False, gr_seq_recv := 1\<rparr>)"
  have l: "length (example_ip @ ?f) \<le> gre_buff_size" by (simp add: frame_fields(8) [where rest = "[]", OF refl] gre_buff_size_def PACKET_MAX_def example_ip_def)
  have b: "length (gr_buff example_gre) = gre_buff_size" "gr_first example_gre" by (simp_all add: example_gre_def)
  have d: "decaps_gre example_gre_env (example_ip @ ?f) example_gre = Some (gre_deliver example_gre_env [1, 2] v)"
    by (subst decaps_frame [OF example_gre_ok(4) _ l]) (simp_all add: gre_take_ack_def gre_data_def b(2) v_def Let_def)
  define w where "w = snd (gre_deliver example_gre_env [1, 2] v)"
  have w: "gr_pq w = pqueue_init" "gr_seq_recv w = 1" "gr_ack_sent w = 0" by (simp_all add: w_def v_def gre_simps example_gre_def)
  have "pqueue_head pqueue_init = None" by (simp add: pqueue_head_def pqueue_init_def)
  then have "dequeue_gre example_gre_env w = (0, w)" using w(1) by (subst dequeue_gre.simps) simp
  moreover have "0 \<le> fst (gre_deliver example_gre_env [1, 2] v)" using example_gre_ok(2) by (simp add: gre_simps writes_ok_def)
  ultimately have "gre_handler example_gre_env (example_ip @ ?f) example_gre = Some w"
    by (simp add: gre_handler_def d case_prod_beta w_def [symmetric] not_less)
  then show ?thesis using w by blast
qed


section \<open>Signed sequence numbers\<close>

text \<open>The queue as numbers and packets, with entries made while the clock of \<open>e\<close> ran.\<close>

definition holds :: "'h gre_env \<Rightarrow> 'h gre \<Rightarrow> (u32 \<times> u8 list) list \<Rightarrow> bool" where
  "holds e w xs \<longleftrightarrow> map (\<lambda>p. (pe_seq p, pe_packet p)) (pq_list (gr_pq w)) = xs
     \<and> (\<forall>p \<in> set (pq_list (gr_pq w)). \<exists>i. pe_expires p = pqueue_expires (ge_clock e i))"

definition rx_at :: "'h gre_env \<Rightarrow> u32 \<Rightarrow> (u32 \<times> u8 list) list \<Rightarrow> u8 list list \<Rightarrow> 'h gre \<Rightarrow> bool" where
  "rx_at e s xs out w \<longleftrightarrow> gr_seq_recv w = s \<and> \<not> gr_first w \<and> length (gr_buff w) = gre_buff_size \<and> to_pty w = out \<and> holds e w xs"

lemma rx_at_same: "rx_same w w' \<Longrightarrow> rx_at e s xs out w \<Longrightarrow> rx_at e s xs out w'"
  by (auto simp: rx_same_def rx_at_def holds_def)

lemma add_list:
  "\<exists>x. pe_seq x = s \<and> pe_packet x = p \<and> pe_expires x = pqueue_expires now
     \<and> pq_list (snd (pqueue_add (True, True) now s p q)) = (case pqueue_insert x (pq_list q) of None \<Rightarrow> pq_list q | Some es \<Rightarrow> es)"
proof -
  obtain y q1 where a: "pqueue_alloc (True, True) now s p q = (y, q1)" by (cases "pqueue_alloc (True, True) now s p q")
  obtain x where x: "y = Some x" using alloc_seq [of "(True, True)" now s p q] a by auto
  have "pq_list q1 = pq_list q" using alloc_queue [of "(True, True)" now s p q] by (simp add: a)
  then show ?thesis using alloc_entry [OF a [unfolded x]] a x by (intro exI [of _ x]) (simp add: pqueue_add_def split: option.split)
qed

lemma data_next:
  assumes "rx_at e s xs out w" and "n = s + 1"
  shows "\<exists>st w'. gre_data e n (Some p) w = Some (st, w') \<and> (writes_ok e \<longrightarrow> 0 \<le> st) \<and> rx_at e n xs (out @ [encaps_hdlc (ge_sync e) p]) w'"
proof -
  define v where "v = gre_arm e ((gre_stat (\<lambda>s. s\<lparr>rx_accepted := rx_accepted s + 1\<rparr>) w)\<lparr>gr_first := False, gr_seq_recv := n\<rparr>)"
  obtain st w' where d: "gre_deliver e p v = (st, w')" by (cases "gre_deliver e p v")
  have "gre_data e n (Some p) w = Some (st, w')" using assms d by (simp add: gre_data_def rx_at_def v_def Let_def)
  moreover have "rx_at e n xs (out @ [encaps_hdlc (ge_sync e) p]) w'"
    using deliver_simps [of e p v, unfolded d] assms(1) by (simp add: rx_at_def holds_def v_def gre_simps)
  moreover have "writes_ok e \<longrightarrow> 0 \<le> st" using deliver_simps(8) [of e p v] d by (simp add: writes_ok_def)
  ultimately show ?thesis by blast
qed

lemma data_early:
  assumes "rx_at e s xs out w" and "\<forall>n. ge_mem e n" and "n \<noteq> s + 1" and "\<not> WRAPPED n s" and "\<not> n < s + 1" and "\<not> WRAPPED s n" and "n < s + MISSING_WINDOW"
    and "\<forall>x \<in> set xs. fst x \<noteq> n" and "\<forall>x \<in> set xs. sint (fst x) < sint n"
  shows "\<exists>w'. gre_data e n (Some p) w = Some (0, w') \<and> rx_at e s (xs @ [(n, p)]) out w'"
proof -
  let ?q = "gr_pq w" and ?now = "ge_clock e (gr_tick w)"
  obtain x where x: "pe_seq x = n" "pe_packet x = p" "pe_expires x = pqueue_expires ?now"
      "pq_list (snd (pqueue_add (True, True) ?now n p ?q)) = (case pqueue_insert x (pq_list ?q) of None \<Rightarrow> pq_list ?q | Some es \<Rightarrow> es)"
    using add_list by blast
  have "pqueue_insert x es = Some (es @ [x])" if "\<forall>y \<in> set es. pe_seq y \<noteq> n \<and> sint (pe_seq y) < sint n" for es
    using that by (induction es) (auto simp: x(1))
  moreover have "\<forall>y \<in> set (pq_list ?q). pe_seq y \<noteq> n \<and> sint (pe_seq y) < sint n" using assms(1,8,9) by (auto simp: rx_at_def holds_def)
  ultimately have l: "pq_list (snd (pqueue_add (True, True) ?now n p ?q)) = pq_list ?q @ [x]" using x(4) by simp
  define w' where "w' = gre_stat (\<lambda>s. s\<lparr>rx_buffered := rx_buffered s + 1\<rparr>)
    (w\<lparr>gr_pq := snd (pqueue_add (True, True) ?now n p ?q), gr_tick := gr_tick w + 2\<rparr>)"
  have "gre_data e n (Some p) w = Some (0, w')" using assms by (simp add: gre_data_def rx_at_def w'_def Let_def)
  moreover have "rx_at e s (xs @ [(n, p)]) out w'" using assms(1) l x(1-3) by (auto simp: rx_at_def holds_def w'_def gre_simps)
  ultimately show ?thesis by blast
qed

text \<open>The head of the queue waits for its turn until it expires, and then goes out whatever its number.\<close>

definition late :: "'h gre_env \<Rightarrow> 'h gre_env \<Rightarrow> bool" where
  "late e e' \<longleftrightarrow> (\<forall>i j p. pe_expires p = pqueue_expires (ge_clock e i) \<longrightarrow> sint (pqueue_expiry_time (ge_clock e' j) p) \<le> 0)"

lemma rx_at_head:
  assumes "rx_at e s ((n, b) # xs) out w"
  obtains p where "pqueue_head (gr_pq w) = Some p" "pe_seq p = n" "pe_packet p = b" "\<exists>i. pe_expires p = pqueue_expires (ge_clock e i)"
  using assms by (cases "pq_list (gr_pq w)") (auto simp: rx_at_def holds_def pqueue_head_def)

lemma dequeue_empty: "rx_at e s [] out w \<Longrightarrow> dequeue_gre e' w = (0, w)"
  by (subst dequeue_gre.simps) (simp add: rx_at_def holds_def pqueue_head_def)

lemma dequeue_waits:
  assumes "brisk e" and "rx_at e s ((n, b) # xs) out w" and "n \<noteq> s + 1" and "\<not> WRAPPED n s"
  shows "\<exists>w'. dequeue_gre e w = (0, w') \<and> rx_at e s ((n, b) # xs) out w'"
proof -
  obtain p i where p: "pqueue_head (gr_pq w) = Some p" "pe_seq p = n" "pe_expires p = pqueue_expires (ge_clock e i)"
    using rx_at_head [OF assms(2)] by blast
  have "\<not> sint (pqueue_expiry_time (ge_clock e (gr_tick w)) p) \<le> 0" using brisk_expiry [OF assms(1) p(3), of "gr_tick w"] by (simp add: not_le)
  moreover have "gr_seq_recv w = s" using assms(2) by (simp add: rx_at_def)
  ultimately have "gre_due e p w = (False, w\<lparr>gr_tick := gr_tick w + 1\<rparr>)" using assms(3,4) p(2) by (simp add: gre_due_def gre_now_def)
  then have "dequeue_gre e w = (0, w\<lparr>gr_tick := gr_tick w + 1\<rparr>)" using p(1) by (subst dequeue_gre.simps) simp
  moreover have "rx_at e s ((n, b) # xs) out (w\<lparr>gr_tick := gr_tick w + 1\<rparr>)" using assms(2) by (simp add: rx_at_def holds_def gre_simps)
  ultimately show ?thesis by blast
qed

lemma dequeue_late:
  assumes "late e e'" and "writes_ok e'" and "ge_sync e' = ge_sync e" and "rx_at e s ((n, b) # xs) out w"
  shows "\<exists>w'. dequeue_gre e' w = dequeue_gre e' w' \<and> rx_at e n xs (out @ [encaps_hdlc (ge_sync e) b]) w'"
proof -
  obtain p where p: "pqueue_head (gr_pq w) = Some p" "pe_seq p = n" "pe_packet p = b" "\<exists>i. pe_expires p = pqueue_expires (ge_clock e i)"
    using rx_at_head [OF assms(4)] by blast
  obtain due w1 where d: "gre_due e' p w = (due, w1)" by (cases "gre_due e' p w")
  have due: "due" using d assms(1) p(4) by (auto simp: gre_due_def gre_now_def late_def split: if_splits)
  obtain m where w1: "w1 = w\<lparr>gr_tick := m\<rparr>" using due_tick [of e' p w] d by auto
  obtain st w2 where t: "gre_take e' p w1 = (st, w2)" by (cases "gre_take e' p w1")
  note w2 = take_effect [of e' p w1, unfolded t snd_conv fst_conv] and st = take_effect(6) [OF assms(2), of p w1, unfolded t fst_conv]
  have "dequeue_gre e' w = dequeue_gre e' w2" using p(1) d due t st by (subst dequeue_gre.simps) simp
  moreover have "rx_at e n xs (out @ [encaps_hdlc (ge_sync e) b]) w2"
    using assms(3,4) w2 p(2,3) by (cases "pq_list (gr_pq w)") (auto simp: rx_at_def holds_def w1 pqueue_del_def gre_simps)
  ultimately show ?thesis by blast
qed

lemma handler_data:
  assumes "read_as (gre_frame c n ack p) b" and "rx_at e s xs out w"
    and "\<And>v. rx_at e s xs out v \<Longrightarrow> \<exists>st w1. gre_data e n (Some p) v = Some (st, w1) \<and> 0 \<le> st \<and> (\<exists>w2. dequeue_gre e w1 = (0, w2) \<and> rx_at e s' xs' out' w2)"
  shows "\<exists>w'. gre_handler e b w = Some w' \<and> rx_at e s' xs' out' w'"
proof -
  obtain v where v: "rx_same w v" "decaps_gre e b w = gre_data e n (Some p) v"
    using decaps_read [OF assms(1), of w e] assms(2) by (auto simp: rx_at_def)
  from assms(3) [OF rx_at_same [OF v(1) assms(2)]] show ?thesis using v(2) by (fastforce simp: gre_handler_def)
qed

lemma handler_late:
  assumes "late e e'" and "writes_ok e'" and "ge_sync e' = ge_sync e" and "read_as (gre_ack_frame c a) b" and "rx_at e s [(n1, q1), (n2, q2)] out w"
  shows "\<exists>w'. gre_handler e' b w = Some w' \<and> to_pty w' = out @ map (encaps_hdlc (ge_sync e)) [q1, q2]"
proof -
  obtain ih where ih: "ip_header ih" "b = ih @ gre_ack_frame c a" "length (ih @ gre_ack_frame c a) \<le> gre_buff_size"
    using assms(4) by (auto simp: read_as_def)
  have "length (gr_buff w) = gre_buff_size" using assms(5) by (simp add: rx_at_def)
  from decaps_ack_frame [OF ih(1,3) this] obtain v where v: "decaps_gre e' b w = Some (0, v)" "rx_same w v" using ih(2) by blast
  obtain w1 where w1: "dequeue_gre e' v = dequeue_gre e' w1" "rx_at e n1 [(n2, q2)] (out @ [encaps_hdlc (ge_sync e) q1]) w1"
    using dequeue_late [OF assms(1-3) rx_at_same [OF v(2) assms(5)]] by blast
  obtain w2 where w2: "dequeue_gre e' w1 = dequeue_gre e' w2" "rx_at e n2 [] ((out @ [encaps_hdlc (ge_sync e) q1]) @ [encaps_hdlc (ge_sync e) q2]) w2"
    using dequeue_late [OF assms(1-3) w1(2)] by blast
  have "dequeue_gre e' v = (0, w2)" using w1(1) w2(1) dequeue_empty [OF w2(2)] by simp
  then have "gre_handler e' b w = Some w2" using v(1) by (simp add: gre_handler_def)
  then show ?thesis using w2(2) by (simp add: rx_at_def)
qed

text \<open>Claim C25: the queue orders its packets as signed numbers, and the tunnel loses the order where the sign changes. Around the middle of the range,
  when the two packets after the next one arrive early, the later one is put before the other: when the missing packet comes, the one that
  is now due stays in the queue, and when the queue gives up waiting the two go to the terminal in the wrong order.\<close>

theorem signed_reorders:
  assumes "brisk e" and "writes_ok e" and "\<forall>n. ge_mem e n" and "late e e'" and "writes_ok e'" and "ge_sync e' = ge_sync e"
    and "gr_seq_recv w = 0x7FFFFFFD" and "\<not> gr_first w" and "pq_list (gr_pq w) = []" and "length (gr_buff w) = gre_buff_size"
    and "read_as (gre_frame c 0x80000000 a3 p3) b3" and "read_as (gre_frame c 0x7FFFFFFF a2 p2) b2" and "read_as (gre_frame c 0x7FFFFFFE a1 p1) b1"
    and "read_as (gre_ack_frame c a) b4"
  shows "\<exists>w1 w2 w3 w4. gre_handler e b3 w = Some w1 \<and> gre_handler e b2 w1 = Some w2 \<and> gre_handler e b1 w2 = Some w3
    \<and> to_pty w3 = to_pty w @ [encaps_hdlc (ge_sync e) p1]
    \<and> gre_handler e' b4 w3 = Some w4 \<and> to_pty w4 = to_pty w @ map (encaps_hdlc (ge_sync e)) [p1, p3, p2]"
proof -
  let ?o = "to_pty w"
  have w: "rx_at e 0x7FFFFFFD [] ?o w" using assms(7-10) by (simp add: rx_at_def holds_def)
  have nw: "\<not> WRAPPED 0x80000000 0x7FFFFFFD" "\<not> WRAPPED 0x7FFFFFFD 0x80000000" "\<not> WRAPPED 0x7FFFFFFF 0x7FFFFFFD" "\<not> WRAPPED 0x7FFFFFFD 0x7FFFFFFF"
    "\<not> WRAPPED 0x80000000 0x7FFFFFFE" by (simp_all add: WRAPPED_def)
  have "\<exists>w1. gre_handler e b3 w = Some w1 \<and> rx_at e 0x7FFFFFFD [(0x80000000, p3)] ?o w1"
    using data_early [OF _ assms(3), where s = "0x7FFFFFFD" and n = "0x80000000" and xs = "[]" and p = p3] dequeue_waits [OF assms(1)] nw
    by (intro handler_data [OF assms(11) w]) (fastforce simp: MISSING_WINDOW_def)
  then obtain w1 where w1: "gre_handler e b3 w = Some w1" "rx_at e 0x7FFFFFFD [(0x80000000, p3)] ?o w1" by blast
  have "\<exists>w2. gre_handler e b2 w1 = Some w2 \<and> rx_at e 0x7FFFFFFD [(0x80000000, p3), (0x7FFFFFFF, p2)] ?o w2"
    using data_early [OF _ assms(3), where s = "0x7FFFFFFD" and n = "0x7FFFFFFF" and xs = "[(0x80000000, p3)]" and p = p2] dequeue_waits [OF assms(1)] nw
    by (intro handler_data [OF assms(12) w1(2)]) (fastforce simp: MISSING_WINDOW_def)
  then obtain w2 where w2: "gre_handler e b2 w1 = Some w2" "rx_at e 0x7FFFFFFD [(0x80000000, p3), (0x7FFFFFFF, p2)] ?o w2" by blast
  have "\<exists>w3. gre_handler e b1 w2 = Some w3 \<and> rx_at e 0x7FFFFFFE [(0x80000000, p3), (0x7FFFFFFF, p2)] (?o @ [encaps_hdlc (ge_sync e) p1]) w3"
    using data_next [where s = "0x7FFFFFFD" and n = "0x7FFFFFFE"] assms(2) dequeue_waits [OF assms(1)] nw
    by (intro handler_data [OF assms(13) w2(2)]) fastforce
  then obtain w3 where w3: "gre_handler e b1 w2 = Some w3" "rx_at e 0x7FFFFFFE [(0x80000000, p3), (0x7FFFFFFF, p2)] (?o @ [encaps_hdlc (ge_sync e) p1]) w3"
    by blast
  obtain w4 where "gre_handler e' b4 w3 = Some w4" "to_pty w4 = (?o @ [encaps_hdlc (ge_sync e) p1]) @ map (encaps_hdlc (ge_sync e)) [p3, p2]"
    using handler_late [OF assms(4-6,14) w3(2)] by blast
  then show ?thesis using w1(1) w2(1) w3 by (auto simp: rx_at_def)
qed

text \<open>The witness: the clock stands still while the three packets arrive, and a second later the queue has given up.\<close>

theorem signed_reorders_witness:
  "\<exists>w3 w4. to_pty w3 = [encaps_hdlc False [1]]
    \<and> gre_handler (example_gre_env\<lparr>ge_clock := \<lambda>_. \<lparr>tv_sec = 101, tv_usec = 0\<rparr>\<rparr>) (example_ip @ gre_ack_frame 4 0) w3 = Some w4
    \<and> to_pty w4 = map (encaps_hdlc False) [[1], [3], [2]]"
proof -
  let ?e = "example_gre_env\<lparr>ge_clock := \<lambda>_. \<lparr>tv_sec = 100, tv_usec = 0\<rparr>\<rparr>" and ?e' = "example_gre_env\<lparr>ge_clock := \<lambda>_. \<lparr>tv_sec = 101, tv_usec = 0\<rparr>\<rparr>"
  let ?w = "example_gre\<lparr>gr_seq_recv := 0x7FFFFFFD, gr_first := False\<rparr>"
  have "sint (pqueue_expiry_time \<lparr>tv_sec = 101, tv_usec = 0\<rparr> p) \<le> 0" if "pe_expires p = pqueue_expires \<lparr>tv_sec = 100, tv_usec = 0\<rparr>" for p
    using expiry_us [OF _ _ that, of "\<lparr>tv_sec = 101, tv_usec = 0\<rparr>"] by (simp add: tv_us_def)
  then have e: "brisk ?e" "writes_ok ?e" "\<forall>n. ge_mem ?e n" "late ?e ?e'" "writes_ok ?e'" "ge_sync ?e' = ge_sync ?e" "ge_sync ?e = False"
    by (simp_all add: brisk_def writes_ok_def late_def example_gre_env_def)
  have w: "gr_seq_recv ?w = 0x7FFFFFFD" "\<not> gr_first ?w" "pq_list (gr_pq ?w) = []" "length (gr_buff ?w) = gre_buff_size" "to_pty ?w = []"
    by (simp_all add: example_gre_def pqueue_init_def to_pty_def)
  have r: "read_as (gre_frame 4 s None [x]) (example_ip @ gre_frame 4 s None [x])" for s x
    using example_gre_ok(4) by (auto simp: read_as_def frame_fields(8) [where rest = "[]", OF refl] gre_buff_size_def PACKET_MAX_def example_ip_def)
  have k: "read_as (gre_ack_frame 4 0) (example_ip @ gre_ack_frame 4 0)"
    using example_gre_ok(4) by (auto simp: read_as_def gre_ack_frame_def gre_buff_size_def PACKET_MAX_def example_ip_def)
  show ?thesis using signed_reorders [OF e(1-6) w(1-4) r r r k, of 3 2 1] unfolding w(5) e(7) by auto
qed

section \<open>Truncated packets\<close>

text \<open>A packet that ends up to the length of the IP header too early passes the test, and what the buffer held before is delivered with it.\<close>

theorem truncated_accepted:
  assumes "ip_header ih" and "k \<le> length ih" and "length (gr_buff w) = gre_buff_size" and "gr_first w \<or> s = gr_seq_recv w + 1"
    and "b = ih @ gre_header (PPTP_GRE_FLAG_K OR PPTP_GRE_FLAG_S) PPTP_GRE_VER (word_of_nat (length p + k)) c @ be32 s @ p"
    and "length b + k \<le> gre_buff_size"
  shows "\<exists>st w'. decaps_gre e b w = Some (st, w') \<and> to_pty w' = to_pty w @ [encaps_hdlc (ge_sync e) (p @ take k (drop (length b) (gr_buff w)))]"
proof -
  define t where "t = take k (drop (length b) (gr_buff w))"
  define v where "v = w\<lparr>gr_buff := b @ drop (length b) (gr_buff w)\<rparr>"
  have t: "length t = k" using assms(3,6) by (simp add: t_def)
  have lb: "length b = length ih + 12 + length p" by (simp add: assms(5))
  have f: "gre_frame c s None (p @ t) = gre_header (PPTP_GRE_FLAG_K OR PPTP_GRE_FLAG_S) PPTP_GRE_VER (word_of_nat (length p + k)) c @ be32 s @ p @ t"
    by (simp add: gre_frame_def t)
  have "drop (length b) (gr_buff w) = t @ drop (length b + k) (gr_buff w)" unfolding t_def by (metis append_take_drop_id drop_drop add.commute)
  then have bv: "gr_buff v = ih @ gre_frame c s None (p @ t) @ drop (length b + k) (gr_buff w)" unfolding f by (simp add: v_def assms(5))
  have "length (p @ t) < 65536" "12 + length (p @ t) \<le> length b" "length b \<le> gre_buff_size"
    using assms(2,6) lb t by (simp_all add: gre_buff_size_def PACKET_MAX_def)
  then have "gre_parse e (word_of_nat (length b)) v = gre_data e s (Some (p @ t)) v"
    using parse_frame [OF assms(1) _ bv, of "length b" e] by (simp add: gre_take_ack_def)
  moreover have "b \<noteq> []" using lb by auto
  ultimately have d: "decaps_gre e b w = gre_data e s (Some (p @ t)) v" by (simp add: decaps_gre_def v_def)
  have "gr_first v \<or> s = gr_seq_recv v + 1 \<or> WRAPPED s (gr_seq_recv v)" using assms(4) by (auto simp: v_def)
  then obtain u where u: "gre_data e s (Some (p @ t)) v = Some (gre_deliver e (p @ t) (gre_arm e u))" "to_pty u = to_pty v"
    by (auto simp: gre_data_def Let_def gre_simps intro!: that)
  have "to_pty (snd (gre_deliver e (p @ t) (gre_arm e u))) = to_pty w @ [encaps_hdlc (ge_sync e) (p @ t)]" using u(2) by (simp add: gre_simps v_def)
  then show ?thesis using d u(1) unfolding t_def [symmetric] by (metis prod.collapse)
qed

section \<open>A new connection\<close>

text \<open>The queue outlives the connection. A packet with number 2 that was left in it is delivered behind the first packet of the next
  connection, in place of that connection's own second packet, which is then dropped as a duplicate.\<close>

theorem stale_delivered:
  assumes "writes_ok e" and "pq_list (gr_pq w) = [x]" and "pe_seq x = 2" and "length (gr_buff w) = gre_buff_size"
    and "read_as (gre_frame c 1 a1 p1) b1" and "read_as (gre_frame c 2 a2 p2) b2"
  shows "\<exists>w1 w2. gre_handler e b1 (init_vars w) = Some w1 \<and> to_pty w1 = to_pty w @ map (encaps_hdlc (ge_sync e)) [p1, pe_packet x]
    \<and> gre_handler e b2 w1 = Some w2 \<and> to_pty w2 = to_pty w1"
proof -
  have i: "gr_first (init_vars w)" "length (gr_buff (init_vars w)) = gre_buff_size" "gr_pq (init_vars w) = gr_pq w" "to_pty (init_vars w) = to_pty w"
    using assms(4) by (simp_all add: init_vars_def to_pty_def)
  obtain v where v: "rx_same (init_vars w) v" "decaps_gre e b1 (init_vars w) = gre_data e 1 (Some p1) v"
    using decaps_read [OF assms(5) i(2)] by blast
  define u where "u = gre_arm e ((gre_stat (\<lambda>s. s\<lparr>rx_accepted := rx_accepted s + 1\<rparr>) v)\<lparr>gr_first := False, gr_seq_recv := 1\<rparr>)"
  obtain st w0 where d: "gre_deliver e p1 u = (st, w0)" by (cases "gre_deliver e p1 u")
  have "gre_data e 1 (Some p1) v = Some (st, w0)" using v(1) i(1) d by (simp add: gre_data_def rx_same_def u_def Let_def)
  note dec = v(2) [unfolded this]
  have w0: "0 \<le> st" "gr_seq_recv w0 = 1" "pq_list (gr_pq w0) = [x]" "\<not> gr_first w0" "length (gr_buff w0) = gre_buff_size"
      "to_pty w0 = to_pty w @ [encaps_hdlc (ge_sync e) p1]"
    using deliver_simps [of e p1 u, unfolded d] v(1) i assms(1,2) by (simp_all add: u_def gre_simps rx_same_def writes_ok_def)
  define w1 where "w1 = snd (gre_take e x w0)"
  have t: "gre_take e x w0 = (0, w1)" using take_effect(6) [OF assms(1), of x w0] by (simp add: w1_def prod_eq_iff)
  note w1 = take_effect(1-5) [of e x w0, folded w1_def]
  have h: "pqueue_head (gr_pq w0) = Some x" "pqueue_head (gr_pq w1) = None" using w0(3) by (simp_all add: pqueue_head_def w1 pqueue_del_def)
  have "gre_due e x w0 = (True, w0)" using assms(3) w0(2) by (simp add: gre_due_def)
  then have "dequeue_gre e w0 = dequeue_gre e w1" using h(1) t by (subst dequeue_gre.simps) simp
  also have "\<dots> = (0, w1)" using h(2) by (subst dequeue_gre.simps) simp
  finally have one: "gre_handler e b1 (init_vars w) = Some w1" using dec w0(1) by (simp add: gre_handler_def)
  obtain v2 where v2: "rx_same w1 v2" "decaps_gre e b2 w1 = gre_data e 2 (Some p2) v2"
    using decaps_read [OF assms(6), of w1 e] w1(4) w0(5) by auto
  have "gr_seq_recv v2 = 2" "\<not> gr_first v2" using v2(1) w1(1,2) assms(3) w0(4) by (simp_all add: rx_same_def)
  then have "gre_data e 2 (Some p2) v2 = Some (0, gre_stat (\<lambda>s. s\<lparr>rx_underwin := rx_underwin s + 1\<rparr>) v2)" by (simp add: gre_data_def WRAPPED_def)
  moreover have "pqueue_head (gr_pq v2) = None" "to_pty v2 = to_pty w1" using v2(1) h(2) by (simp_all add: rx_same_def)
  ultimately have "\<exists>w2. gre_handler e b2 w1 = Some w2 \<and> to_pty w2 = to_pty w1"
    using v2(2) dequeue_gre.simps [of e "gre_stat (\<lambda>s. s\<lparr>rx_underwin := rx_underwin s + 1\<rparr>) v2"] by (simp add: gre_handler_def gre_simps)
  then show ?thesis using one w1(5) w0(6) by auto
qed

end
