(* ===== verification/Spec2Isabelle.thy ===== *)
theory Spec2Isabelle
  imports Sloop Dhcp_Network Ppp_Peers Pptp_Limits
begin

text \<open>
  A verification of the network services of the D-Link WBR-1310 firmware: the event loop library
  \<^verbatim>\<open>src/comlib\<close>, the DHCP server and client \<^verbatim>\<open>src/progs.gpl/udhcpcd\<close>, and of the PPP daemon
  \<^verbatim>\<open>src/progs.gpl/pppd.alpha\<close> the event loop, the negotiation automaton, the frame check sequence and the PPTP tunnel.

  \<^bold>\<open>Machine and conventions.\<close> The target is a big endian 32 bit MIPS: \<^verbatim>\<open>htonl\<close> and its relatives are the identity,
  \<^verbatim>\<open>long\<close> has 32 bits, and unsigned arithmetic is arithmetic of \<^typ>\<open>32 word\<close>. Memory that C code reads or
  writes through a pointer is a list of bytes with checked access (\<open>rd\<close>, \<open>wr\<close> and the block operations of \<open>Prelude\<close>);
  \<open>None\<close> is a step without meaning in C: an access outside an object, a null pointer, an endless search.
  What the kernel, the clock, the peer and the name service answer is an argument of the definition that
  asks for it, so that a theorem holds for all their answers.

  \<^bold>\<open>Theories.\<close>
  \<^item> \<open>Prelude\<close>: words, bytes, checked memory, C strings, signal numbers.
  \<^item> \<open>Dlist_Heap\<close>: the intrusive lists of \<^verbatim>\<open>include/dlist.h\<close> on a heap of links; locale \<open>dlist_store\<close>.
  \<^item> \<open>Sloop\<close>: \<^verbatim>\<open>sloop.c\<close>, the pools of sockets, timers and signals and the select loop over them.
  \<^item> \<open>Dhcp_Options\<close>, \<open>Dhcp_Packet\<close>: \<^verbatim>\<open>options.c\<close> and \<^verbatim>\<open>packet.c\<close>, with \<^verbatim>\<open>get_raw_packet\<close> of \<^verbatim>\<open>clientpacket.c\<close>: the codecs,
    the checksum, sending and receiving; locale \<open>option_store\<close>.
  \<^item> \<open>Dhcp_Leases\<close>: \<^verbatim>\<open>leases.c\<close>, the lease table and the search for a free address; locale \<open>lease_table\<close>.
  \<^item> \<open>Dhcp_Server\<close>: \<^verbatim>\<open>serverpacket.c\<close> and the main loop of \<^verbatim>\<open>dhcpd.c\<close>.
  \<^item> \<open>Arpping\<close>, \<open>Dhcp_Client\<close>: \<^verbatim>\<open>arpping.c\<close>, \<^verbatim>\<open>clientpacket.c\<close> and the state machine of \<^verbatim>\<open>dhcpc.c\<close>.
  \<^item> \<open>C_Library\<close>, \<open>Dhcp_Files\<close>: the string functions used and \<^verbatim>\<open>files.c\<close>, the configuration and the lease file.
  \<^item> \<open>Dhcp_Network\<close>: the start of the server, and the exchange of messages between the server and the client.
  \<^item> \<open>Ppp_Eloop\<close>: \<^verbatim>\<open>eloop.c\<close> of the PPP daemon; locale \<open>timer_service\<close>.
  \<^item> \<open>Ppp_Fsm\<close>, \<open>Ppp_Peers\<close>: \<^verbatim>\<open>fsm.c\<close>, the automaton behind every PPP control protocol, and two of them on one link. The functions of
    a protocol are a record of functions on the state, and what is expected of them is \<open>env_ok\<close>.
  \<^item> \<open>Ppp_Fcs\<close>, \<open>Pptp_Hdlc\<close>: \<^verbatim>\<open>ppp_fcs.c\<close> and the framing functions of \<^verbatim>\<open>pptp/pptp_gre.c\<close>.
  \<^item> \<open>Pptp_Queue\<close>, \<open>Pptp_Gre\<close>, \<open>Pptp_Tunnel\<close>, \<open>Pptp_Delivery\<close>, \<open>Pptp_Limits\<close>: \<^verbatim>\<open>pptp/pqueue.c\<close>, with locale \<open>packet_queue\<close>, the GRE functions of \<^verbatim>\<open>pptp/pptp_gre.c\<close>, and two
    ends of a tunnel with a network between them.

  \<^bold>\<open>Results.\<close> The loops are total: the server's over every sequence of messages, signals and time-outs, the
  client's over every sequence of events, the select loop for all callbacks that keep their contract. The
  table of the server never holds a client or an address twice, no message disturbs the lease of another
  client, and what is acknowledged is recorded. The client implements the protocol machine of RFC 2131 and
  gives a lease up in time. The negotiation automaton of PPP takes the transitions of RFC 1661, gives up after a bounded number
  of time-outs, and two of them that agree open the link. The PPTP tunnel delivers in order and at most once whatever the network
  does, delivers everything when every packet arrives in time, and every packet is
  acknowledged. The codecs are inverse to each other: options, raw frames, the lease file, the static lines. Loops
  without a bound in the code are partial functions, and theorems that the code returns are stated as such.
  The theorems of kind error prove defects of the code at the place they name.

  \<^bold>\<open>Not modelled.\<close> The control protocols over the automaton (LCP, IPCP, CCP), the authentication protocols, and the control
  connections of PPTP, L2TP and PPPoE, which are functions of the automaton's record or inputs; log output; the command line and the pid file of the programs; the script the client runs;
  the Linux kernel, busybox, hostapd, iptables, the wireless drivers and the tool chain, which are third party code
  the firmware only configures and builds.
\<close>

section \<open>A client and a server on one network\<close>

definition example_pass :: loop_in where
  "example_pass = \<lparr>in_env = example_env, in_listen = 3, in_select = 1, in_eintr = False, in_rd_eintr = False,
     in_sig_ready = False, in_sig = None, in_rcv = None\<rparr>"

definition example_empty :: "nat \<Rightarrow> dhcpd_state" where
  "example_empty n = \<lparr>ds_socket = 3, ds_timeout_end = 8200, ds_leases = replicate n blank_lease\<rparr>"

text \<open>Claim C11: a client that starts and a server that does not know it agree on a lease. The client sends its discover,
  the server answers, the client asks for the address it was offered and the server acknowledges it: the client is then
  bound to an address, with the server's lease time, and the server's table holds that address for the client's hardware
  address and for no other, acknowledged and until the end of the lease. The server must have a free address and a free
  record, the packets must arrive, and no host may answer the client's probe.\<close>

theorem dhcp_exchange:
  assumes c: "c = snd (client_start ccfg t0 0 False sv le pk)" "cfg_opts (cl_cfg c) os" "length pk = 548"
      "0 < cc_discover_retry ccfg" "\<not> cc_quit_after_lease ccfg"
    and srv: "lt_ok (ds_leases s)" "cfg_ok cfg" "sc_end cfg \<noteq> - 1" "sc_lease cfg \<noteq> 0xFFFFFFFF" "0 < se_now (in_env n2)"
    and mac: "mac = cc_arp ccfg @ replicate 10 0" "mac \<noteq> blank_chaddr" "find_static_lease_by_chaddr mac st = None"
      "find_lease_by_chaddr mac (ds_leases s) = None"
    and a: "find_address (se_now (in_env n1)) (se_answers (in_env n1)) cfg st False (ds_leases s) = Some (a, ls1)" "a \<noteq> 0"
      "oldest_expired_lease (se_now (in_env n1)) (clear_lease mac a ls1) \<noteq> None"
    and net: "\<forall>n \<in> {n1, n2}. re_socket (se_raw (in_env n)) \<and> re_bind (se_raw (in_env n)) \<and> 0 \<le> re_sendto (se_raw (in_env n))"
    and arp: "\<forall>x. \<exists>r. arpping (ci_arp i4) x 0 (cc_arp ccfg) (cc_interface ccfg) = ArpDone r \<and> r \<noteq> 0"
  shows "\<exists>s1 c1 s2 c2. offer_phase cfg st n1 i1 i2 s c = Some (s1, c1) \<and> request_phase cfg st n2 i3 i4 s1 c1 = Some (s2, c2)
    \<and> cl_state c2 = BOUND \<and> cl_lease c2 = sc_lease cfg \<and> cl_requested_ip c2 \<noteq> 0 \<and> lt_ok (ds_leases s2)
    \<and> (\<exists>l \<in> set (ds_leases s2). l_yiaddr l = cl_requested_ip c2 \<and> l_chaddr l = mac \<and> l_ACKed l = 1
        \<and> l_expires l = se_now (in_env n2) + sc_lease cfg)
    \<and> (\<forall>l \<in> set (ds_leases s2). l_yiaddr l = cl_requested_ip c2 \<longrightarrow> l_chaddr l = mac)"
proof -
  have i: "cl_state c = INIT_SELECTING" "cl_listen_mode c = LISTEN_RAW" "length (cl_packet c) = 548" "\<not> cl_query c"
      "cl_packet_num c = 0" "cl_requested_ip c = 0" "cc_arp (cl_cfg c) = cc_arp ccfg" "cc_interface (cl_cfg c) = cc_interface ccfg"
      "cc_discover_retry (cl_cfg c) = cc_discover_retry ccfg" "cc_quit_after_lease (cl_cfg c) = cc_quit_after_lease ccfg"
    using c(1,3) by (simp_all add: client_start_def)
  have r: "0 < cc_discover_retry (cl_cfg c)" "\<not> cc_quit_after_lease (cl_cfg c)" using c(4,5) i by simp_all
  have m: "mac = cc_arp (cl_cfg c) @ replicate 10 0" using mac(1) i(7) by simp
  have k: "re_socket (se_raw (in_env n1))" "re_bind (se_raw (in_env n1))" "re_socket (se_raw (in_env n2))"
      "re_bind (se_raw (in_env n2))" "0 \<le> re_sendto (se_raw (in_env n2))" using net by simp_all
  obtain s1 c1 where o: "offer_phase cfg st n1 i1 i2 s c = Some (s1, c1)"
    using offer_phase_makes [OF c(2) i(1-5) r(1) i(6) srv(2) m mac(3,4) a k(1,2)] by blast
  have p: "lt_ok (ds_leases s1)" "held (ds_leases s1) (cl_requested_ip c1) mac" "cl_requested_ip c1 \<noteq> 0" "cl_state c1 = REQUESTING"
      "cl_server_addr c1 = sc_server cfg" "cl_packet_num c1 = 0" "cl_cfg c1 = cl_cfg c" "cl_listen_mode c1 = LISTEN_RAW"
      "length (cl_packet c1) = 548"
    using offer_phase_result [OF c(2) i(1-4) srv(1-3) mac(3) [unfolded m] o] m by blast+
  obtain q where "arpping (ci_arp i4) (cl_requested_ip c1) 0 (cc_arp (cl_cfg c1)) (cc_interface (cl_cfg c1)) = ArpDone q" "q \<noteq> 0"
    using arp i p(7) by metis
  then obtain s2 c2 where b: "request_phase cfg st n2 i3 i4 s1 c1 = Some (s2, c2)" "cl_state c2 = BOUND"
      "cl_requested_ip c2 = cl_requested_ip c1" "cl_lease c2 = sc_lease cfg" "lt_ok (ds_leases s2)"
      "\<exists>l \<in> set (ds_leases s2). l_yiaddr l = cl_requested_ip c1 \<and> l_chaddr l = mac \<and> l_ACKed l = 1
        \<and> l_expires l = se_now (in_env n2) + sc_lease cfg"
    using request_phase_binds [OF c(2) [folded p(7)] p(4,8,9,6) r [folded p(7)] p(5,1) srv(2,4,5) m [folded p(7)] mac(3,2) p(2,3) k(3-5)]
    by blast
  have "l_chaddr l = mac" if "l \<in> set (ds_leases s2)" "l_yiaddr l = cl_requested_ip c1" for l
    using lt.addr_unique [OF b(5) p(3)] b(6) that unfolding held_set by blast
  then show ?thesis using o b p(3) by metis
qed

theorem dhcp_exchange_witness:
  "\<exists>s1 c1 s2 c2. offer_phase example_cfg [] example_pass example_in example_in (example_empty 3) example_start = Some (s1, c1)
    \<and> request_phase example_cfg [] example_pass example_in example_in s1 c1 = Some (s2, c2)
    \<and> cl_state c2 = BOUND \<and> held (ds_leases s2) (cl_requested_ip c2) ([0, 1, 2, 3, 4, 5] @ replicate 10 0)"
proof -
  let ?m = "[0, 1, 2, 3, 4, 5] @ replicate 10 0 :: u8 list"
  have o: "cfg_opts (cl_cfg example_start) example_opts" using example_start_inv by (simp add: cl_inv_def)
  have l: "ds_leases (example_empty 3) = [blank_lease, blank_lease, blank_lease]" by (simp add: example_empty_def numeral_3_eq_3)
  have f: "find_address (se_now (in_env example_pass)) (se_answers (in_env example_pass)) example_cfg [] False (ds_leases (example_empty 3))
      = Some (0x0A000064, ds_leases (example_empty 3))"
    unfolding find_address_def l by (subst find_address_from.simps) code_simp
  have "\<exists>s1 c1 s2 c2. offer_phase example_cfg [] example_pass example_in example_in (example_empty 3) example_start = Some (s1, c1)
    \<and> request_phase example_cfg [] example_pass example_in example_in s1 c1 = Some (s2, c2)
    \<and> cl_state c2 = BOUND \<and> cl_lease c2 = sc_lease example_cfg \<and> cl_requested_ip c2 \<noteq> 0 \<and> lt_ok (ds_leases s2)
    \<and> (\<exists>l \<in> set (ds_leases s2). l_yiaddr l = cl_requested_ip c2 \<and> l_chaddr l = ?m \<and> l_ACKed l = 1
        \<and> l_expires l = se_now (in_env example_pass) + sc_lease example_cfg)
    \<and> (\<forall>l \<in> set (ds_leases s2). l_yiaddr l = cl_requested_ip c2 \<longrightarrow> l_chaddr l = ?m)"
  proof (rule dhcp_exchange [OF example_start_def o _ _ _ _ example_cfg_ok _ _ _ _ _ _ f])
    show "lt_ok (ds_leases (example_empty 3))" unfolding example_empty_def by (simp add: blank_table_ok)
    show "find_lease_by_chaddr ?m (ds_leases (example_empty 3)) = None" unfolding l by code_simp
    show "oldest_expired_lease (se_now (in_env example_pass)) (clear_lease ?m 0x0A000064 (ds_leases (example_empty 3))) \<noteq> None"
      unfolding l by code_simp
    show "find_static_lease_by_chaddr ?m [] = None" "?m \<noteq> blank_chaddr" by code_simp+
  qed (simp_all add: example_client_cfg_def example_cfg_def example_pass_def example_env_def blank_chaddr_def example_in_def arpping_def)
  then show ?thesis unfolding held_set by metis
qed

end
